(* ===== verification/Fcore_Prelude.thy ===== *)
theory Fcore_Prelude
  imports Complex_Main "HOL-Library.AList" "HOL-Library.Word" "HOL-Library.Sublist"
begin

text \<open>
  Shared vocabulary of the development: the names of the model's basic types, the part of
  Rust's string library the sources use (on ASCII text), the error values of
  \<^verbatim>\<open>src/error.rs\<close>, the status values of \<^verbatim>\<open>src/memory/storage/mod.rs\<close>, hash maps as
  association lists with distinct keys, and two contracts that several components meet: a
  keyed store and a textual codec.
\<close>

named_theorems fcore_simps \<open>unfolding rules of small accessors shared by component proofs\<close>

section \<open>Basic types\<close>

text \<open>
  A UUID is a 128-bit value. A point in time (\<open>chrono::DateTime<Utc>\<close>) is the number of
  nanoseconds since the epoch; \<open>chrono::Duration\<close> is a difference of two of them.
\<close>

type_synonym uuid = "128 word"
type_synonym datetime = int
type_synonym byte = "8 word"

definition nanos_per_sec :: int where
  "nanos_per_sec = 1000000000"

definition duration_secs :: "int \<Rightarrow> int" where
  "duration_secs n = n * nanos_per_sec"

definition duration_days :: "int \<Rightarrow> int" where
  "duration_days n = n * 86400 * nanos_per_sec"

definition timestamp :: "datetime \<Rightarrow> int" where
  "timestamp t = t div nanos_per_sec"

text \<open>\<open>Duration::num_days\<close> rounds towards zero.\<close>

definition num_days :: "int \<Rightarrow> int" where
  "num_days d = (if d < 0 then - ((- d) div duration_days 1) else d div duration_days 1)"

lemma duration_days_pos [simp]: "0 < duration_days 1"
  by (simp add: duration_days_def nanos_per_sec_def)

lemma duration_days_mult: "duration_days n = n * duration_days 1"
  by (simp add: duration_days_def)

lemma duration_days_mono: "0 \<le> n \<Longrightarrow> 0 \<le> duration_days n"
  by (simp add: duration_days_def nanos_per_sec_def)

lemma num_days_pos_iff: "0 < num_days d \<longleftrightarrow> duration_days 1 \<le> d"
proof (cases "d < 0")
  case True
  then have "0 \<le> (- d) div duration_days 1"
    by (intro pos_imp_zdiv_nonneg_iff[THEN iffD2]) simp_all
  moreover have "\<not> duration_days 1 \<le> d"
    using True duration_days_pos by linarith
  ultimately show ?thesis
    using True by (simp add: num_days_def)
next
  case False
  then show ?thesis
    by (simp add: num_days_def pos_imp_zdiv_pos_iff)
qed

section \<open>64-bit signed arithmetic\<close>

text \<open>\<open>i64\<close> arithmetic of a release build wraps around.\<close>

definition wrap64 :: "int \<Rightarrow> int" where
  "wrap64 x = (x + 2 ^ 63) mod 2 ^ 64 - 2 ^ 63"

definition in_i64 :: "int \<Rightarrow> bool" where
  "in_i64 x \<longleftrightarrow> - (2 ^ 63) \<le> x \<and> x < 2 ^ 63"

lemma wrap64_in_range [simp]: "in_i64 (wrap64 x)"
  using pos_mod_bound[of "2 ^ 64" "x + 2 ^ 63"] pos_mod_sign[of "2 ^ 64" "x + 2 ^ 63"]
  by (simp add: wrap64_def in_i64_def)

lemma wrap64_id: "in_i64 x \<Longrightarrow> wrap64 x = x"
  by (simp add: wrap64_def in_i64_def)

lemma wrap64_sub_nonneg: "in_i64 a \<Longrightarrow> in_i64 b \<Longrightarrow> 0 \<le> a \<Longrightarrow> 0 \<le> b \<Longrightarrow> wrap64 (a - b) = a - b"
  by (rule wrap64_id) (simp add: in_i64_def)

section \<open>Errors and statuses\<close>

text \<open>
  The variants of \<open>Error\<close> that wrap the error of a library carry its text. \<open>SyncError\<close> is the
  error of the write-through operations.
\<close>

datatype error =
    Err_Database string
  | Err_Conflict
  | Err_Io string
  | Err_UrlParse string
  | Err_Http string
  | Err_Json string
  | Err_Yaml string
  | Err_Join string
  | Err_XrayUri string
  | Err_XrayTransport string
  | Err_Grpc string
  | Err_SerdeUrlEnc string
  | Err_Zmq string
  | Err_Wireguard string
  | Err_IpParseError string
  | Err_TomlDeError string
  | Err_Custom string
  | Err_SerializationError string
  | Err_RkyvSerialize string

datatype sync_error =
    SyncErr_Database error
  | SyncErr_Memory string
  | SyncErr_Validation string
  | SyncErr_Zmq string
  | SyncErr_RkyvSerialize string
  | SyncErr_InconsistentState string uuid
  | SyncErr_ResourceNotFound string uuid
  | SyncErr_ConcurrentModification string uuid

datatype status =
    St_AlreadyExist uuid
  | St_NotModified uuid
  | St_Updated uuid
  | St_UpdatedStat uuid
  | St_NotFound uuid
  | St_BadRequest uuid string
  | St_Ok uuid
  | St_DeletedPreviously uuid

section \<open>ASCII strings\<close>

definition lower_char :: "char \<Rightarrow> char" where
  "lower_char c = (let n = of_char c :: nat in if 65 \<le> n \<and> n \<le> 90 then char_of (n + 32) else c)"

definition to_lowercase :: "string \<Rightarrow> string" where
  "to_lowercase s = map lower_char s"

definition is_space :: "char \<Rightarrow> bool" where
  "is_space c = (let n = of_char c :: nat in n = 32 \<or> (9 \<le> n \<and> n \<le> 13))"

definition trim :: "string \<Rightarrow> string" where
  "trim s = rev (dropWhile is_space (rev (dropWhile is_space s)))"

fun strip_prefix :: "string \<Rightarrow> string \<Rightarrow> string option" where
  "strip_prefix [] s = Some s"
| "strip_prefix (p # ps) [] = None"
| "strip_prefix (p # ps) (c # s) = (if p = c then strip_prefix ps s else None)"

definition starts_with :: "string \<Rightarrow> string \<Rightarrow> bool" where
  "starts_with s p = (strip_prefix p s \<noteq> None)"

lemma lower_char_idem [simp]: "lower_char (lower_char c) = lower_char c"
proof (cases "65 \<le> (of_char c :: nat) \<and> (of_char c :: nat) \<le> 90")
  case True
  then have "(of_char (lower_char c) :: nat) = of_char c + 32"
    by (simp add: lower_char_def Let_def)
  with True show ?thesis
    by (simp add: lower_char_def[of "lower_char c"] Let_def)
next
  case False
  then show ?thesis by (auto simp: lower_char_def Let_def)
qed

lemma to_lowercase_idem [simp]: "to_lowercase (to_lowercase s) = to_lowercase s"
  by (simp add: to_lowercase_def)

lemma to_lowercase_append [simp]: "to_lowercase (s @ t) = to_lowercase s @ to_lowercase t"
  by (simp add: to_lowercase_def)

lemma strip_prefix_append [simp]: "strip_prefix p (p @ s) = Some s"
  by (induction p) auto

lemma strip_prefix_Some_iff: "strip_prefix p s = Some r \<longleftrightarrow> s = p @ r"
  by (induction p s rule: strip_prefix.induct) auto

lemma starts_with_iff: "starts_with s p \<longleftrightarrow> (\<exists>r. s = p @ r)"
  by (auto simp: starts_with_def strip_prefix_Some_iff)

lemma dropWhile_idem [simp]: "dropWhile P (dropWhile P s) = dropWhile P s"
  by (induction s) auto

lemma last_dropWhile: "dropWhile P s \<noteq> [] \<Longrightarrow> last (dropWhile P s) = last s"
  by (induction s) auto

lemma dropWhile_eq_self: "s = [] \<or> \<not> P (hd s) \<Longrightarrow> dropWhile P s = s"
  by (cases s) auto

lemma trim_eq_self: "s = [] \<or> (\<not> is_space (hd s) \<and> \<not> is_space (last s)) \<Longrightarrow> trim s = s"
  by (cases "s = []") (auto simp: trim_def dropWhile_eq_self hd_rev)

lemma trim_Nil [simp]: "trim [] = []"
  by (simp add: trim_def)

lemma trim_idem [simp]: "trim (trim s) = trim s"
proof (cases "trim s = []")
  case True
  then show ?thesis by simp
next
  case False
  define u where "u = dropWhile is_space s"
  define v where "v = dropWhile is_space (rev u)"
  have ts: "trim s = rev v" by (simp add: trim_def u_def v_def)
  have "v \<noteq> []" using False ts by simp
  then have "\<not> is_space (hd v)" unfolding v_def using hd_dropWhile by blast
  moreover have "u \<noteq> []" using \<open>v \<noteq> []\<close> by (auto simp: v_def)
  then have "\<not> is_space (hd u)" unfolding u_def using hd_dropWhile by blast
  moreover have "last v = hd u"
    using \<open>v \<noteq> []\<close> last_dropWhile[of is_space "rev u"] by (simp add: v_def last_rev)
  ultimately show ?thesis
    using \<open>v \<noteq> []\<close> ts by (intro trim_eq_self) (simp add: hd_rev last_rev)
qed

definition rtrim :: "string \<Rightarrow> string" where
  "rtrim s = rev (dropWhile is_space (rev s))"

lemma trim_rtrim: "trim s = rtrim (dropWhile is_space s)"
  by (simp add: trim_def rtrim_def)

lemma rtrim_append: "rtrim (s @ t) = (if list_all is_space t then rtrim s else s @ rtrim t)"
proof (cases "list_all is_space t")
  case True
  then have "dropWhile is_space (rev t @ rev s) = dropWhile is_space (rev s)"
    by (intro dropWhile_append2) (auto simp: list_all_iff)
  then show ?thesis using True by (simp add: rtrim_def)
next
  case False
  then obtain x where "x \<in> set (rev t)" "\<not> is_space x" by (auto simp: list_all_iff)
  then have "dropWhile is_space (rev t @ rev s) = dropWhile is_space (rev t) @ rev s"
    by (rule dropWhile_append1)
  then show ?thesis using False by (simp add: rtrim_def)
qed

lemma rtrim_Cons: "\<not> list_all is_space t \<Longrightarrow> rtrim (c # t) = c # rtrim t"
  using rtrim_append[of "[c]" t] by simp

lemma rtrim_idem [simp]: "rtrim (rtrim s) = rtrim s"
  by (simp add: rtrim_def)

lemma rtrim_space: "list_all is_space s \<Longrightarrow> rtrim s = []"
  by (simp add: rtrim_def list_all_iff)

lemma trim_space: "list_all is_space s \<Longrightarrow> trim s = []"
proof -
  assume "list_all is_space s"
  then have "dropWhile is_space s = []" by (simp add: list_all_iff)
  then show ?thesis unfolding trim_def by (simp del: dropWhile_eq_Nil_conv)
qed

lemma dropWhile_rtrim: "dropWhile is_space (rtrim s) = rtrim (dropWhile is_space s)"
proof (induction s)
  case (Cons c s)
  show ?case
  proof (cases "list_all is_space s")
    case True
    then have "dropWhile is_space s = []" by (simp add: list_all_iff)
    moreover have "rtrim (c # s) = (if is_space c then [] else [c])"
      using True rtrim_append[of "[c]" s] by (simp add: rtrim_def)
    moreover have "rtrim [] = []" by (simp add: rtrim_def)
    ultimately show ?thesis by (cases "is_space c") (simp_all del: dropWhile_eq_Nil_conv)
  next
    case False
    then show ?thesis using Cons by (simp add: rtrim_Cons)
  qed
qed (simp add: rtrim_def)

lemma trim_of_rtrim: "trim (rtrim s) = trim s"
  by (simp add: trim_rtrim dropWhile_rtrim)

lemma trim_last: "trim s \<noteq> [] \<Longrightarrow> \<not> is_space (last (trim s))"
  unfolding trim_def last_rev by (metis hd_dropWhile rev_is_Nil_conv last_rev)

lemma set_trim: "set (trim s) \<subseteq> set s"
  unfolding trim_def by (auto dest!: set_dropWhileD)

section \<open>Hash maps\<close>

text \<open>
  A \<open>HashMap<K, V>\<close> is an association list with distinct keys; the order of the list stands
  for the unspecified iteration order. \<open>get\<close> is \<^const>\<open>map_of\<close>, \<open>insert\<close> is
  \<^const>\<open>AList.update\<close>, \<open>remove\<close> is \<^const>\<open>AList.delete\<close>.
\<close>

type_synonym ('k, 'v) hashmap = "('k \<times> 'v) list"

abbreviation hm_wf :: "('k, 'v) hashmap \<Rightarrow> bool" where
  "hm_wf m \<equiv> distinct (map fst m)"

definition hm_values :: "('k, 'v) hashmap \<Rightarrow> 'v list" where
  "hm_values m = map snd m"

declare map_of_eq_Some_iff [simp del] Some_eq_map_of_iff [simp del] map_of_is_SomeI [simp del]

lemma map_of_update [simp]: "map_of (AList.update k v m) = (map_of m)(k \<mapsto> v)"
  by (rule update_conv')

lemma map_of_delete [simp]: "map_of (AList.delete k m) = (map_of m)(k := None)"
  by (rule delete_conv')

lemma hm_wf_update [simp]: "hm_wf m \<Longrightarrow> hm_wf (AList.update k v m)"
  by (rule distinct_update)

lemma hm_wf_delete [simp]: "hm_wf m \<Longrightarrow> hm_wf (AList.delete k m)"
  by (rule distinct_delete)

lemma hm_mem_iff: "hm_wf m \<Longrightarrow> (k, v) \<in> set m \<longleftrightarrow> map_of m k = Some v"
  by (rule map_of_eq_Some_iff[symmetric])

lemma hm_wf_filter [simp]: "hm_wf m \<Longrightarrow> hm_wf (filter P m)"
  by (simp add: distinct_map_filter)

lemma map_of_filter_hm:
  "hm_wf m \<Longrightarrow>
   map_of (filter P m) k = (case map_of m k of None \<Rightarrow> None | Some v \<Rightarrow> if P (k, v) then Some v else None)"
  by (induction m) (auto split: option.splits simp: map_of_eq_None_iff rev_image_eqI)

section \<open>Two contracts\<close>

text \<open>
  A keyed store: what every in-memory collection promises its callers. \<open>wf\<close> is the store's
  invariant; a removal or an insertion touches its own key only.
\<close>

locale keyed_store =
  fixes wf :: "'s \<Rightarrow> bool"
    and get :: "'s \<Rightarrow> 'k \<Rightarrow> 'v option"
    and put :: "'k \<Rightarrow> 'v \<Rightarrow> 's \<Rightarrow> 's"
    and del :: "'k \<Rightarrow> 's \<Rightarrow> 's"
  assumes wf_put: "wf s \<Longrightarrow> wf (put k v s)"
    and wf_del: "wf s \<Longrightarrow> wf (del k s)"
    and get_put: "wf s \<Longrightarrow> get (put k v s) k' = (if k' = k then Some v else get s k')"
    and get_del: "wf s \<Longrightarrow> get (del k s) k' = (if k' = k then None else get s k')"
begin

lemma put_del_get: "wf s \<Longrightarrow> get (put k v (del k s)) k' = get (put k v s) k'"
  by (simp add: wf_del get_put get_del)

lemma del_put_absent: "wf s \<Longrightarrow> get s k = None \<Longrightarrow> get (del k (put k v s)) = get s"
  by (rule ext) (simp add: wf_put get_put get_del)

lemma wf_fold_put: "wf s \<Longrightarrow> wf (fold (\<lambda>(k, v). put k v) kvs s)"
  by (induction kvs arbitrary: s) (auto simp: wf_put)

lemma get_fold_put:
  "wf s \<Longrightarrow> get (fold (\<lambda>(k, v). put k v) kvs s) k =
     (case map_of (rev kvs) k of Some v \<Rightarrow> Some v | None \<Rightarrow> get s k)"
proof (induction kvs arbitrary: s)
  case (Cons kv kvs)
  then show ?case
    by (cases kv) (auto simp: wf_put get_put map_add_def split: option.splits)
qed simp

lemma wf_fold_del: "wf s \<Longrightarrow> wf (fold del ks s)"
  by (induction ks arbitrary: s) (auto simp: wf_del)

lemma get_fold_del:
  "wf s \<Longrightarrow> get (fold del ks s) k = (if k \<in> set ks then None else get s k)"
  by (induction ks arbitrary: s) (auto simp: wf_del get_del)

end

interpretation hm: keyed_store "\<lambda>m. hm_wf m" map_of AList.update AList.delete
  by unfold_locales auto

text \<open>
  A textual codec: \<open>show_text\<close> followed by \<open>parse\<close> is the identity on the values of \<open>valid\<close>.
\<close>

locale text_codec =
  fixes valid :: "'a \<Rightarrow> bool"
    and show_text :: "'a \<Rightarrow> string"
    and parse :: "string \<Rightarrow> 'e + 'a"
  assumes roundtrip: "valid x \<Longrightarrow> parse (show_text x) = Inr x"
begin

lemma show_text_inj: "valid x \<Longrightarrow> valid y \<Longrightarrow> show_text x = show_text y \<Longrightarrow> x = y"
  using roundtrip[of x] roundtrip[of y] by (metis Inr_inject)

lemma canonical:
  "parse s = Inr x \<Longrightarrow> valid x \<Longrightarrow> parse (show_text x) = parse s"
  by (simp add: roundtrip)

end

end
