(* ===== verification/Env_Tag.thy ===== *)
theory Env_Tag
  imports Fcore_Prelude
begin

text \<open>
  Environments (\<^verbatim>\<open>src/memory/env.rs\<close>), protocol tags (\<^verbatim>\<open>src/memory/tag.rs\<close>) and the ZMQ
  topics built from them (\<^verbatim>\<open>src/zmq/topic.rs\<close>): their printed names, the parsers that read
  the names back, and the normal form of custom environments that makes the two inverse.
\<close>

section \<open>Environments\<close>

datatype env =
    Env_Production | Env_Experimental | Env_Dev | Env_Ru | Env_Wl | Env_Gaming
  | Env_Bs | Env_BsPrem | Env_Custom string

fun env_display :: "env \<Rightarrow> string" where
  "env_display Env_Dev = ''dev''"
| "env_display Env_Ru = ''ru''"
| "env_display Env_Wl = ''wl''"
| "env_display Env_Gaming = ''gaming''"
| "env_display Env_Bs = ''bs''"
| "env_display Env_BsPrem = ''bs-prem''"
| "env_display Env_Experimental = ''experimental''"
| "env_display Env_Production = ''production''"
| "env_display (Env_Custom name) = ''custom'' @ name"

fun env_as_str :: "env \<Rightarrow> string" where
  "env_as_str Env_Dev = ''dev''"
| "env_as_str Env_Ru = ''ru''"
| "env_as_str Env_Wl = ''wl''"
| "env_as_str Env_Gaming = ''gaming''"
| "env_as_str Env_Bs = ''bs''"
| "env_as_str Env_BsPrem = ''bs-prem''"
| "env_as_str Env_Experimental = ''experimental''"
| "env_as_str Env_Production = ''production''"
| "env_as_str (Env_Custom name) = ''custom'' @ name"

text \<open>\<open>Env::personal_for\<close>; the simple (dash-free) form of a UUID is a parameter.\<close>

definition personal_for :: "(uuid \<Rightarrow> string) \<Rightarrow> uuid \<Rightarrow> env" where
  "personal_for as_simple subscription_id = Env_Custom (''personal'' @ as_simple subscription_id)"

fun is_personal :: "env \<Rightarrow> bool" where
  "is_personal (Env_Custom name) = starts_with name ''personal''"
| "is_personal _ = False"

fun is_premium :: "env \<Rightarrow> bool" where
  "is_premium (Env_Custom name) = starts_with name ''premium''"
| "is_premium _ = False"

fun is_frkn_shared :: "env \<Rightarrow> bool" where
  "is_frkn_shared (Env_Custom _) = False"
| "is_frkn_shared _ = True"

function strip_custom_prefix :: "string \<Rightarrow> string" where
  "strip_custom_prefix name =
     (case strip_prefix ''custom'' name of
        None \<Rightarrow> name
      | Some rest \<Rightarrow> if rest = [] then rest else strip_custom_prefix rest)"
  by pat_completeness auto
termination
  by (relation "measure length") (auto simp: strip_prefix_Some_iff)

declare strip_custom_prefix.simps [simp del]

definition env_from_str :: "string \<Rightarrow> error + env" where
  "env_from_str s0 =
    (let s = to_lowercase s0 in
     if s = ''experimental'' \<or> s = ''exp'' then Inr Env_Experimental
     else if s = ''development'' \<or> s = ''dev'' then Inr Env_Dev
     else if s = ''production'' \<or> s = ''prod'' then Inr Env_Production
     else if s = ''ru'' then Inr Env_Ru
     else if s = ''wl'' then Inr Env_Wl
     else if s = ''gaming'' then Inr Env_Gaming
     else if s = ''bs'' then Inr Env_Bs
     else if s = ''bs-prem'' \<or> s = ''bsprem'' then Inr Env_BsPrem
     else if starts_with s ''custom'' then Inr (Env_Custom (strip_custom_prefix s))
     else if starts_with s ''personal'' then Inr (Env_Custom s)
     else Inl (Err_Custom ''Wrong Env string''))"

text \<open>The JSON reader, and \<open>impl From<&str> for Env\<close>.\<close>

definition env_deserialize :: "string \<Rightarrow> error + env" where
  "env_deserialize raw =
    (case env_from_str raw of
       Inr env \<Rightarrow> Inr env
     | Inl _ \<Rightarrow>
         let trimmed = to_lowercase (trim raw) in
         if trimmed = [] then Inl (Err_Custom ''empty env'')
         else Inr (Env_Custom (strip_custom_prefix trimmed)))"

definition env_of_str :: "string \<Rightarrow> env" where
  "env_of_str s = (case env_from_str s of Inr e \<Rightarrow> e | Inl _ \<Rightarrow> Env_Experimental)"

text \<open>
  The JSON writer: the derived serializer prints the lowercase variant name, and the inner
  string of the untagged custom variant without any marker.
\<close>

fun env_serialize :: "env \<Rightarrow> string" where
  "env_serialize (Env_Custom name) = name"
| "env_serialize e = env_as_str e"

text \<open>Normal form: a custom name is lowercase and carries no \<open>custom\<close> marker.\<close>

fun env_normal :: "env \<Rightarrow> bool" where
  "env_normal (Env_Custom name) \<longleftrightarrow> to_lowercase name = name \<and> \<not> starts_with name ''custom''"
| "env_normal _ = True"

lemma to_lowercase_custom: "to_lowercase ''custom'' = ''custom''"
  by code_simp

lemma strip_custom_prefix_no_marker:
  "\<not> starts_with name ''custom'' \<Longrightarrow> strip_custom_prefix name = name"
  by (subst strip_custom_prefix.simps) (auto simp: starts_with_def)

lemma strip_custom_prefix_marker: "strip_custom_prefix (''custom'' @ name) = strip_custom_prefix name"
proof (cases "name = []")
  case True
  then show ?thesis
    by (subst strip_custom_prefix.simps, subst (2) strip_custom_prefix.simps) simp
next
  case False
  then show ?thesis
    by (subst strip_custom_prefix.simps) (simp only: strip_prefix_append option.case if_False)
qed

lemma strip_custom_prefix_normal:
  "\<not> starts_with (strip_custom_prefix name) ''custom''"
proof (induction name rule: strip_custom_prefix.induct)
  case (1 name)
  then show ?case
    by (subst strip_custom_prefix.simps) (auto simp: starts_with_def split: option.splits)
qed

lemma strip_custom_prefix_suffix: "\<exists>p. s = p @ strip_custom_prefix s"
proof (induction s rule: strip_custom_prefix.induct)
  case (1 s)
  show ?case
  proof (cases "strip_prefix ''custom'' s")
    case None
    then show ?thesis by (subst strip_custom_prefix.simps) simp
  next
    case (Some rest)
    then have s: "s = ''custom'' @ rest" by (simp only: strip_prefix_Some_iff)
    show ?thesis
    proof (cases "rest = []")
      case True
      then show ?thesis using Some by (subst strip_custom_prefix.simps) simp
    next
      case False
      then obtain p where "rest = p @ strip_custom_prefix rest" using "1.IH" Some by blast
      then have "s = (''custom'' @ p) @ strip_custom_prefix s"
        unfolding s strip_custom_prefix_marker by simp
      then show ?thesis by blast
    qed
  qed
qed

lemma to_lowercase_suffix: "to_lowercase (p @ s) = p @ s \<Longrightarrow> to_lowercase s = s"
  by (simp add: to_lowercase_def)

lemma env_normal_strip: "to_lowercase s = s \<Longrightarrow> env_normal (Env_Custom (strip_custom_prefix s))"
  using strip_custom_prefix_suffix[of s] strip_custom_prefix_normal[of s] to_lowercase_suffix
  by (metis env_normal.simps(1))

lemma personal_not_custom: "starts_with s ''personal'' \<Longrightarrow> \<not> starts_with s ''custom''"
  by (auto simp: starts_with_iff)

lemma env_from_str_normal: "env_from_str s = Inr e \<Longrightarrow> env_normal e"
  using env_normal_strip[of "to_lowercase s"] personal_not_custom[of "to_lowercase s"]
  by (auto simp: env_from_str_def Let_def split: if_splits)

lemma env_deserialize_normal: "env_deserialize s = Inr e \<Longrightarrow> env_normal e"
  using env_from_str_normal[of s e] env_normal_strip[of "to_lowercase (trim s)"]
  by (auto simp: env_deserialize_def Let_def split: sum.splits if_splits)

lemma env_from_str_custom:
  assumes "to_lowercase name = name"
  shows "env_from_str (''custom'' @ name) = Inr (Env_Custom (strip_custom_prefix name))"
proof -
  have low: "to_lowercase (''custom'' @ name) = ''custom'' @ name"
    using assms by (simp only: to_lowercase_append to_lowercase_custom)
  have "starts_with (''custom'' @ name) ''custom''" by (auto simp: starts_with_iff)
  then show ?thesis
    unfolding env_from_str_def low Let_def strip_custom_prefix_marker by simp
qed

lemma env_roundtrip_normal: "env_normal e \<Longrightarrow> env_from_str (env_display e) = Inr e"
proof (cases e)
  case (Env_Custom name)
  assume "env_normal e"
  then have "to_lowercase name = name" and "\<not> starts_with name ''custom''"
    unfolding Env_Custom env_normal.simps by blast+
  then show ?thesis
    unfolding Env_Custom env_display.simps
    using env_from_str_custom strip_custom_prefix_no_marker by metis
qed (simp only: env_display.simps, code_simp)+

interpretation env_codec: text_codec env_normal env_display env_from_str
  by unfold_locales (rule env_roundtrip_normal)

section \<open>Protocol tags\<close>

datatype tag =
    Tag_VlessTcpReality | Tag_VlessGrpcReality | Tag_VlessXhttpReality | Tag_VlessXhttpCdn
  | Tag_Vmess | Tag_Shadowsocks | Tag_Wireguard | Tag_AmneziaWg | Tag_Hysteria2 | Tag_Mtproto
  | Tag_AmneziaWgMobile

fun tag_display :: "tag \<Rightarrow> string" where
  "tag_display Tag_VlessTcpReality = ''VlessTcpReality''"
| "tag_display Tag_VlessGrpcReality = ''VlessGrpcReality''"
| "tag_display Tag_VlessXhttpReality = ''VlessXhttpReality''"
| "tag_display Tag_VlessXhttpCdn = ''VlessXhttpCdn''"
| "tag_display Tag_Vmess = ''Vmess''"
| "tag_display Tag_Shadowsocks = ''Shadowsocks''"
| "tag_display Tag_Wireguard = ''Wireguard''"
| "tag_display Tag_AmneziaWg = ''AmneziaWg''"
| "tag_display Tag_Hysteria2 = ''Hysteria2''"
| "tag_display Tag_Mtproto = ''Mtproto''"
| "tag_display Tag_AmneziaWgMobile = ''AmneziaWgMobile''"

definition tag_from_str :: "string \<Rightarrow> unit + tag" where
  "tag_from_str input =
    (if input = ''VlessTcpReality'' then Inr Tag_VlessTcpReality
     else if input = ''VlessGrpcReality'' then Inr Tag_VlessGrpcReality
     else if input = ''VlessXhttpReality'' then Inr Tag_VlessXhttpReality
     else if input = ''VlessXhttpCdn'' then Inr Tag_VlessXhttpCdn
     else if input = ''Vmess'' then Inr Tag_Vmess
     else if input = ''Shadowsocks'' then Inr Tag_Shadowsocks
     else if input = ''Wireguard'' then Inr Tag_Wireguard
     else if input = ''AmneziaWg'' then Inr Tag_AmneziaWg
     else if input = ''AmneziaWgMobile'' then Inr Tag_AmneziaWgMobile
     else if input = ''Hysteria2'' then Inr Tag_Hysteria2
     else if input = ''Mtproto'' then Inr Tag_Mtproto
     else Inl ())"

definition is_metered :: "tag \<Rightarrow> string list \<Rightarrow> bool" where
  "is_metered tag metered_conns = list_ex (\<lambda>t. t = tag_display tag) metered_conns"

lemma tag_roundtrip: "tag_from_str (tag_display t) = Inr t"
  by (cases t) (simp_all add: tag_from_str_def)

interpretation tag_codec: text_codec "\<lambda>_. True" tag_display tag_from_str
  by unfold_locales (rule tag_roundtrip)

section \<open>Topics\<close>

datatype topic = Topic_Auth | Topic_Metrics | Topic_Entries | Topic_Updates env | Topic_Init uuid

text \<open>The printed and parsed form of a UUID belongs to the \<open>uuid\<close> package: two parameters.\<close>

fun topic_display :: "(uuid \<Rightarrow> string) \<Rightarrow> topic \<Rightarrow> string" where
  "topic_display show_uuid Topic_Auth = ''auth''"
| "topic_display show_uuid Topic_Metrics = ''metrics''"
| "topic_display show_uuid Topic_Entries = ''entries''"
| "topic_display show_uuid (Topic_Updates env) = ''updates-'' @ env_display env"
| "topic_display show_uuid (Topic_Init uuid) = ''init-'' @ show_uuid uuid"

definition topic_from_str :: "(string \<Rightarrow> uuid option) \<Rightarrow> string \<Rightarrow> error + topic" where
  "topic_from_str parse_uuid s0 =
    (let s = to_lowercase s0 in
     if s = ''auth'' then Inr Topic_Auth
     else if s = ''metrics'' then Inr Topic_Metrics
     else if s = ''entries'' then Inr Topic_Entries
     else case strip_prefix ''updates-'' s of
       Some env_str \<Rightarrow> (case env_from_str env_str of Inl e \<Rightarrow> Inl e | Inr env \<Rightarrow> Inr (Topic_Updates env))
     | None \<Rightarrow>
       (case strip_prefix ''init-'' s of
          Some uuid_str \<Rightarrow>
            (case parse_uuid uuid_str of
               None \<Rightarrow> Inl (Err_Custom ''Invalid UUID in topic'')
             | Some u \<Rightarrow> Inr (Topic_Init u))
        | None \<Rightarrow> Inl (Err_Custom (''Unknown topic string: '' @ s))))"

fun topic_normal :: "topic \<Rightarrow> bool" where
  "topic_normal (Topic_Updates env) = env_normal env"
| "topic_normal _ = True"

text \<open>
  What is used of the \<open>uuid\<close> package: a UUID is printed in lowercase and the parser reads
  the printed form back.
\<close>

definition uuid_text_ok :: "(uuid \<Rightarrow> string) \<Rightarrow> (string \<Rightarrow> uuid option) \<Rightarrow> uuid \<Rightarrow> bool" where
  "uuid_text_ok show_uuid parse_uuid u \<longleftrightarrow>
     to_lowercase (show_uuid u) = show_uuid u \<and> parse_uuid (show_uuid u) = Some u"

lemma env_display_lower: "env_normal e \<Longrightarrow> to_lowercase (env_display e) = env_display e"
proof (cases e)
  case (Env_Custom name)
  assume "env_normal e"
  then show ?thesis
    unfolding Env_Custom env_display.simps to_lowercase_append to_lowercase_custom by simp
qed (simp only: env_display.simps, code_simp)+

lemma to_lowercase_topics:
  "to_lowercase ''auth'' = ''auth''" "to_lowercase ''metrics'' = ''metrics''"
  "to_lowercase ''entries'' = ''entries''" "to_lowercase ''updates-'' = ''updates-''"
  "to_lowercase ''init-'' = ''init-''"
  by code_simp+

lemma topic_from_str_updates:
  assumes "to_lowercase t = t"
  shows "topic_from_str p (''updates-'' @ t) =
           (case env_from_str t of Inl e \<Rightarrow> Inl e | Inr env \<Rightarrow> Inr (Topic_Updates env))"
  using assms unfolding topic_from_str_def to_lowercase_append to_lowercase_topics Let_def
  by simp

lemma topic_from_str_init:
  assumes "to_lowercase t = t"
  shows "topic_from_str p (''init-'' @ t) =
           (case p t of None \<Rightarrow> Inl (Err_Custom ''Invalid UUID in topic'') | Some u \<Rightarrow> Inr (Topic_Init u))"
  using assms unfolding topic_from_str_def to_lowercase_append to_lowercase_topics Let_def
  by simp

lemma topic_roundtrip_normal:
  assumes "topic_normal t" and "\<And>u. t = Topic_Init u \<Longrightarrow> uuid_text_ok show_uuid parse_uuid u"
  shows "topic_from_str parse_uuid (topic_display show_uuid t) = Inr t"
proof (cases t)
  case (Topic_Updates env)
  then show ?thesis
    using assms(1) topic_from_str_updates[OF env_display_lower] env_roundtrip_normal by simp
next
  case (Topic_Init u)
  then show ?thesis
    using assms(2)[OF Topic_Init] topic_from_str_init[of "show_uuid u"] by (simp add: uuid_text_ok_def)
qed (simp_all add: topic_from_str_def to_lowercase_topics)

section \<open>Properties\<close>

text \<open>
  C40: Whatever spelling an environment is read from, the environment and the topic of its
  updates print to a text that reads back to the same value, and so does the topic of a node's
  snapshot: publisher and subscriber never disagree on the name of a topic.
\<close>

theorem read_env_topics_roundtrip:
  assumes "env_from_str s = Inr e" "uuid_text_ok show_uuid parse_uuid u"
  shows "env_from_str (env_display e) = Inr e
    \<and> topic_from_str parse_uuid (topic_display show_uuid (Topic_Updates e)) = Inr (Topic_Updates e)
    \<and> topic_from_str parse_uuid (topic_display show_uuid (Topic_Init u)) = Inr (Topic_Init u)"
  using env_codec.roundtrip[OF env_from_str_normal[OF assms(1)]] env_from_str_normal[OF assms(1)]
    topic_roundtrip_normal[of "Topic_Updates e"] topic_roundtrip_normal[of "Topic_Init u"] assms(2)
  by simp

theorem read_env_topics_roundtrip_witness:
  "env_from_str ''CustomCustomKZ'' = Inr (Env_Custom ''kz'')
   \<and> topic_from_str (\<lambda>t. if t = ''1a'' then Some 26 else None)
       (topic_display (\<lambda>_. ''1a'') (Topic_Updates (Env_Custom ''kz''))) = Inr (Topic_Updates (Env_Custom ''kz''))"
proof -
  have e: "env_from_str ''CustomCustomKZ'' = Inr (Env_Custom ''kz'')" by code_simp
  have u: "uuid_text_ok (\<lambda>_. ''1a'') (\<lambda>t. if t = ''1a'' then Some 26 else None) 26" by code_simp
  show ?thesis using e read_env_topics_roundtrip[OF e u] by blast
qed

text \<open>
  The JSON form of an environment is not faithful: the spelling \<open>customdev\<close> is read as the
  custom environment named \<open>dev\<close>, whose JSON form is the bare name, which reads back as the
  built-in environment.
\<close>

theorem custom_env_json_confused:
  "env_from_str ''customdev'' = Inr (Env_Custom ''dev'')
   \<and> env_deserialize (env_serialize (Env_Custom ''dev'')) = Inr Env_Dev"
  by code_simp

end
