(* ===== verification/Subscription_Model.thy ===== *)
theory Subscription_Model
  imports Env_Tag
begin

text \<open>
  Tariff products (\<^verbatim>\<open>src/memory/product.rs\<close>) and subscriptions
  (\<^verbatim>\<open>src/memory/subscription.rs\<close>): constructors, the row reader, the activity rules with and
  without the traffic balance, and the renewal arithmetic. \<open>Utc::now()\<close> is the argument
  \<open>now\<close>; two readings inside one operation are the same value. Byte counters are \<open>i64\<close>
  with the wrap-around of a release build.
\<close>

section \<open>Products and plans\<close>

datatype product =
    Product_Standard | Product_Gaming | Product_BsPrem | Product_StandardGaming
  | Product_StandardBsPrem | Product_Full

definition product_all :: "product list" where
  "product_all = [Product_Standard, Product_Gaming, Product_BsPrem, Product_StandardGaming,
     Product_StandardBsPrem, Product_Full]"

fun product_as_str :: "product \<Rightarrow> string" where
  "product_as_str Product_Standard = ''standard''"
| "product_as_str Product_Gaming = ''gaming''"
| "product_as_str Product_BsPrem = ''bs-prem''"
| "product_as_str Product_StandardGaming = ''standard-gaming''"
| "product_as_str Product_StandardBsPrem = ''standard-bs-prem''"
| "product_as_str Product_Full = ''full''"

fun is_standard :: "product \<Rightarrow> bool" where
  "is_standard Product_Standard = True"
| "is_standard _ = False"

fun includes_standard :: "product \<Rightarrow> bool" where
  "includes_standard Product_Gaming = False"
| "includes_standard Product_BsPrem = False"
| "includes_standard _ = True"

fun extra_envs :: "product \<Rightarrow> env list" where
  "extra_envs Product_Standard = []"
| "extra_envs Product_Gaming = [Env_Gaming]"
| "extra_envs Product_BsPrem = [Env_BsPrem]"
| "extra_envs Product_StandardGaming = [Env_Gaming]"
| "extra_envs Product_StandardBsPrem = [Env_BsPrem]"
| "extra_envs Product_Full = [Env_Gaming, Env_BsPrem]"

definition normalize :: "string \<Rightarrow> string" where
  "normalize s = filter (\<lambda>c. c \<notin> {CHR ''-'', CHR ''_'', CHR '' ''}) (to_lowercase (trim s))"

definition product_from_str :: "string \<Rightarrow> error + product" where
  "product_from_str s =
    (let n = normalize s in
     if n = ''standard'' then Inr Product_Standard
     else if n = ''gaming'' then Inr Product_Gaming
     else if n = ''bsprem'' then Inr Product_BsPrem
     else if n = ''standardgaming'' then Inr Product_StandardGaming
     else if n = ''standardbsprem'' then Inr Product_StandardBsPrem
     else if n = ''full'' then Inr Product_Full
     else Inl (Err_Custom (''Unknown product: '' @ s)))"

definition product_from_stored :: "string \<Rightarrow> product option" where
  "product_from_stored s =
    (let n = normalize s in
     if n = ''legacy'' \<or> n = ''classic'' \<or> n = ''dev'' then Some Product_Standard
     else if n = ''devgaming'' then Some Product_StandardGaming
     else if n = ''devbsprem'' then Some Product_StandardBsPrem
     else case product_from_str s of Inr p \<Rightarrow> Some p | Inl _ \<Rightarrow> None)"

datatype plan_kind = Plan_Standard | Plan_Lite | Plan_Premium | Plan_Selfhosted

fun plan_kind_display :: "plan_kind \<Rightarrow> string" where
  "plan_kind_display Plan_Standard = ''standard''"
| "plan_kind_display Plan_Lite = ''lite''"
| "plan_kind_display Plan_Premium = ''premium''"
| "plan_kind_display Plan_Selfhosted = ''selfhosted''"

definition plan_kind_from_str :: "string \<Rightarrow> string + plan_kind" where
  "plan_kind_from_str s =
    (let l = to_lowercase s in
     if l = ''standard'' then Inr Plan_Standard
     else if l = ''lite'' then Inr Plan_Lite
     else if l = ''premium'' then Inr Plan_Premium
     else if l = ''selfhosted'' then Inr Plan_Selfhosted
     else Inl (''Wrong PlanKind string: '' @ s))"

lemma product_roundtrip: "product_from_str (product_as_str p) = Inr p"
  by (cases p; simp only: product_as_str.simps; code_simp)

interpretation product_codec: text_codec "\<lambda>_. True" product_as_str product_from_str
  by unfold_locales (rule product_roundtrip)

lemma plan_kind_roundtrip: "plan_kind_from_str (plan_kind_display k) = Inr k"
  by (cases k; simp only: plan_kind_display.simps; code_simp)

interpretation plan_kind_codec: text_codec "\<lambda>_. True" plan_kind_display plan_kind_from_str
  by unfold_locales (rule plan_kind_roundtrip)

lemma product_stored_agrees: "product_from_str s = Inr p \<Longrightarrow> product_from_stored s = Some p"
  by (auto simp: product_from_stored_def product_from_str_def Let_def split: if_splits)

section \<open>Subscriptions\<close>

record subscription =
  sub_id :: uuid
  sub_expires_at :: "datetime option"
  sub_refer_code :: string
  sub_created_at :: datetime
  sub_updated_at :: datetime
  sub_is_deleted :: bool
  sub_parent_id :: "uuid option"
  sub_scope_env :: "env option"
  sub_premium_token :: "string option"
  sub_premium_until :: "datetime option"
  sub_plan_kind :: plan_kind
  sub_server_limit :: int
  sub_user_limit :: int
  sub_limit_bytes :: "int option"
  sub_product :: product

definition DEFAULT_SERVER_LIMIT :: int where
  "DEFAULT_SERVER_LIMIT = 3"

definition DEFAULT_USER_LIMIT :: int where
  "DEFAULT_USER_LIMIT = 20"

definition subscription_new :: "datetime \<Rightarrow> uuid \<Rightarrow> string \<Rightarrow> datetime option \<Rightarrow> int option \<Rightarrow> subscription" where
  "subscription_new now uid ref_code exp_at limit_bytes =
    \<lparr> sub_id = uid, sub_expires_at = exp_at, sub_refer_code = ref_code, sub_created_at = now,
      sub_updated_at = now, sub_is_deleted = False, sub_parent_id = None, sub_scope_env = None,
      sub_premium_token = None, sub_premium_until = None, sub_plan_kind = Plan_Standard,
      sub_server_limit = DEFAULT_SERVER_LIMIT, sub_user_limit = DEFAULT_USER_LIMIT,
      sub_limit_bytes = limit_bytes, sub_product = Product_Standard \<rparr>"

definition subscription_new_lite :: "datetime \<Rightarrow> uuid \<Rightarrow> string \<Rightarrow> int \<Rightarrow> subscription" where
  "subscription_new_lite now uid ref_code limit_bytes =
    \<lparr> sub_id = uid, sub_expires_at = None, sub_refer_code = ref_code, sub_created_at = now,
      sub_updated_at = now, sub_is_deleted = False, sub_parent_id = None, sub_scope_env = None,
      sub_premium_token = None, sub_premium_until = None, sub_plan_kind = Plan_Lite,
      sub_server_limit = DEFAULT_SERVER_LIMIT, sub_user_limit = DEFAULT_USER_LIMIT,
      sub_limit_bytes = Some limit_bytes, sub_product = Product_Standard \<rparr>"

definition subscription_new_selfhosted :: "datetime \<Rightarrow> uuid \<Rightarrow> string \<Rightarrow> env \<Rightarrow> subscription" where
  "subscription_new_selfhosted now uid ref_code scope_env =
    \<lparr> sub_id = uid, sub_expires_at = None, sub_refer_code = ref_code, sub_created_at = now,
      sub_updated_at = now, sub_is_deleted = False, sub_parent_id = None,
      sub_scope_env = Some scope_env, sub_premium_token = None, sub_premium_until = None,
      sub_plan_kind = Plan_Selfhosted, sub_server_limit = DEFAULT_SERVER_LIMIT,
      sub_user_limit = DEFAULT_USER_LIMIT, sub_limit_bytes = None, sub_product = Product_Standard \<rparr>"

text \<open>
  A user of a self-hosted account. The fresh id is \<open>uid\<close>; \<open>last_octet\<close> is
  \<open>get_uuid_last_octet_simple\<close>, a slice of the printed UUID.
\<close>

definition subscription_new_user_child :: "(uuid \<Rightarrow> string) \<Rightarrow> datetime \<Rightarrow> uuid \<Rightarrow> uuid \<Rightarrow> subscription" where
  "subscription_new_user_child last_octet now uid parent_id =
    \<lparr> sub_id = uid, sub_expires_at = None, sub_refer_code = last_octet uid, sub_created_at = now,
      sub_updated_at = now, sub_is_deleted = False, sub_parent_id = Some parent_id,
      sub_scope_env = None, sub_premium_token = None, sub_premium_until = None,
      sub_plan_kind = Plan_Selfhosted, sub_server_limit = 0, sub_user_limit = 0,
      sub_limit_bytes = None, sub_product = Product_Standard \<rparr>"

definition with_product :: "product \<Rightarrow> subscription \<Rightarrow> subscription" where
  "with_product p s = s\<lparr>sub_product := p\<rparr>"

definition is_selfhosted_user :: "subscription \<Rightarrow> bool" where
  "is_selfhosted_user s \<longleftrightarrow> sub_parent_id s \<noteq> None \<and> sub_plan_kind s = Plan_Selfhosted"

text \<open>
  A database row: the columns \<open>try_get\<close> may fail on are optional, and the two limits may come
  back as either integer width.
\<close>

record sub_row =
  row_id :: uuid
  row_expires_at :: "datetime option"
  row_refer_code :: string
  row_created_at :: datetime
  row_updated_at :: datetime
  row_is_deleted :: bool
  row_parent_id :: "uuid option"
  row_scope_env :: "string option"
  row_premium_token :: "string option"
  row_premium_until :: "datetime option"
  row_plan_kind :: "string option"
  row_server_limit32 :: "int option"
  row_server_limit64 :: "int option"
  row_user_limit32 :: "int option"
  row_user_limit64 :: "int option"
  row_limit_bytes :: "int option"
  row_product :: "string option"

definition or_else :: "'a option \<Rightarrow> 'a option \<Rightarrow> 'a option" where
  "or_else a b = (case a of None \<Rightarrow> b | Some x \<Rightarrow> Some x)"

definition unwrap_or :: "'a option \<Rightarrow> 'a \<Rightarrow> 'a" where
  "unwrap_or a d = (case a of None \<Rightarrow> d | Some x \<Rightarrow> x)"

definition subscription_from_row :: "sub_row \<Rightarrow> subscription" where
  "subscription_from_row row =
    \<lparr> sub_id = row_id row, sub_expires_at = row_expires_at row,
      sub_refer_code = row_refer_code row, sub_created_at = row_created_at row,
      sub_updated_at = row_updated_at row, sub_is_deleted = row_is_deleted row,
      sub_parent_id = row_parent_id row,
      sub_scope_env =
        (case row_scope_env row of
           None \<Rightarrow> None
         | Some s \<Rightarrow> if s = [] then None else Some (env_of_str s)),
      sub_premium_token = row_premium_token row, sub_premium_until = row_premium_until row,
      sub_plan_kind =
        (case row_plan_kind row of
           None \<Rightarrow> Plan_Standard
         | Some s \<Rightarrow> (case plan_kind_from_str s of Inr k \<Rightarrow> k | Inl _ \<Rightarrow> Plan_Standard)),
      sub_server_limit =
        unwrap_or (or_else (row_server_limit32 row) (row_server_limit64 row)) DEFAULT_SERVER_LIMIT,
      sub_user_limit =
        unwrap_or (or_else (row_user_limit32 row) (row_user_limit64 row)) DEFAULT_USER_LIMIT,
      sub_limit_bytes = row_limit_bytes row,
      sub_product =
        (case row_product row of
           None \<Rightarrow> Product_Standard
         | Some s \<Rightarrow> unwrap_or (product_from_stored s) Product_Standard) \<rparr>"

subsection \<open>Operations\<close>

definition remaining_bytes :: "int \<Rightarrow> subscription \<Rightarrow> int option" where
  "remaining_bytes used_bytes s = map_option (\<lambda>limit. wrap64 (limit - used_bytes)) (sub_limit_bytes s)"

definition time_expired :: "datetime \<Rightarrow> subscription \<Rightarrow> bool" where
  "time_expired now s = (case sub_expires_at s of None \<Rightarrow> False | Some e \<Rightarrow> e \<le> now)"

definition traffic_mode :: "datetime \<Rightarrow> bool \<Rightarrow> int \<Rightarrow> subscription \<Rightarrow> bool" where
  "traffic_mode now traffic_mode_enabled used_bytes s \<longleftrightarrow>
     traffic_mode_enabled \<and> time_expired now s \<and>
     (case remaining_bytes used_bytes s of None \<Rightarrow> False | Some remaining \<Rightarrow> remaining > 0)"

definition is_active :: "datetime \<Rightarrow> subscription \<Rightarrow> bool" where
  "is_active now s \<longleftrightarrow>
     \<not> sub_is_deleted s \<and> (case sub_expires_at s of None \<Rightarrow> True | Some e \<Rightarrow> e > now)"

definition is_active_with_traffic :: "datetime \<Rightarrow> bool \<Rightarrow> int \<Rightarrow> subscription \<Rightarrow> bool" where
  "is_active_with_traffic now traffic_mode_enabled used_bytes s =
    (if \<not> traffic_mode_enabled then is_active now s
     else if sub_is_deleted s then False
     else if (case sub_expires_at s of None \<Rightarrow> False | Some e \<Rightarrow> e > now) then True
     else case remaining_bytes used_bytes s of
            Some remaining \<Rightarrow> remaining > 0
          | None \<Rightarrow> sub_expires_at s = None)"

fun top_up_allowed_for :: "plan_kind \<Rightarrow> bool \<Rightarrow> bool \<Rightarrow> bool" where
  "top_up_allowed_for Plan_Lite enabled expired = True"
| "top_up_allowed_for Plan_Standard enabled expired = (enabled \<and> expired)"
| "top_up_allowed_for Plan_Premium enabled expired = False"
| "top_up_allowed_for Plan_Selfhosted enabled expired = False"

definition top_up_allowed :: "datetime \<Rightarrow> bool \<Rightarrow> subscription \<Rightarrow> bool" where
  "top_up_allowed now traffic_mode_enabled s =
     top_up_allowed_for (sub_plan_kind s) traffic_mode_enabled (time_expired now s)"

record subscription_stats =
  stats_id :: uuid
  stats_expires_at :: "datetime option"
  stats_days_remaining :: int
  stats_is_active :: bool

definition stats :: "datetime \<Rightarrow> subscription \<Rightarrow> subscription_stats" where
  "stats now s =
    (let days_remaining = (case sub_expires_at s of Some e \<Rightarrow> num_days (e - now) | None \<Rightarrow> 99999)
     in \<lparr> stats_id = sub_id s, stats_expires_at = sub_expires_at s,
          stats_days_remaining = days_remaining,
          stats_is_active = (days_remaining > 0 \<and> \<not> sub_is_deleted s) \<rparr>)"

definition sub_extend :: "datetime \<Rightarrow> int \<Rightarrow> subscription \<Rightarrow> subscription" where
  "sub_extend now days s =
    (let base = (case sub_expires_at s of Some e \<Rightarrow> if e > now then e else now | None \<Rightarrow> now)
     in s\<lparr>sub_expires_at := Some (base + duration_days days), sub_updated_at := now\<rparr>)"

definition refer_code :: "subscription \<Rightarrow> string" where
  "refer_code s = trim (sub_refer_code s)"

definition days_remaining :: "datetime \<Rightarrow> subscription \<Rightarrow> int option" where
  "days_remaining now s = map_option (\<lambda>e. num_days (e - now)) (sub_expires_at s)"

definition set_expires_at :: "datetime \<Rightarrow> datetime \<Rightarrow> subscription \<Rightarrow> string + subscription" where
  "set_expires_at now expires_at s =
    (if expires_at \<le> now then Inl ''Expiration date must be in the future''
     else Inr (s\<lparr>sub_expires_at := Some expires_at, sub_updated_at := now\<rparr>))"

definition mark_deleted :: "datetime \<Rightarrow> subscription \<Rightarrow> subscription" where
  "mark_deleted now s = s\<lparr>sub_is_deleted := True, sub_updated_at := now\<rparr>"

definition set_limit_bytes :: "int \<Rightarrow> subscription \<Rightarrow> subscription" where
  "set_limit_bytes bytes s = s\<lparr>sub_limit_bytes := Some bytes\<rparr>"

definition set_parent_id :: "datetime \<Rightarrow> uuid \<Rightarrow> subscription \<Rightarrow> subscription" where
  "set_parent_id now parent_id s = s\<lparr>sub_parent_id := Some parent_id, sub_updated_at := now\<rparr>"

definition set_scope_env :: "datetime \<Rightarrow> env \<Rightarrow> subscription \<Rightarrow> subscription" where
  "set_scope_env now env s = s\<lparr>sub_scope_env := Some env, sub_updated_at := now\<rparr>"

definition set_premium_token :: "datetime \<Rightarrow> string \<Rightarrow> subscription \<Rightarrow> subscription" where
  "set_premium_token now token s = s\<lparr>sub_premium_token := Some token, sub_updated_at := now\<rparr>"

definition set_premium_until :: "datetime \<Rightarrow> datetime option \<Rightarrow> subscription \<Rightarrow> subscription" where
  "set_premium_until now until s = s\<lparr>sub_premium_until := until, sub_updated_at := now\<rparr>"

definition set_selfhosted_limits :: "datetime \<Rightarrow> int \<Rightarrow> int \<Rightarrow> subscription \<Rightarrow> subscription" where
  "set_selfhosted_limits now server_limit user_limit s =
     s\<lparr>sub_server_limit := server_limit, sub_user_limit := user_limit, sub_updated_at := now\<rparr>"

subsection \<open>Activity and renewal\<close>

lemma is_active_iff: "is_active now s \<longleftrightarrow> \<not> sub_is_deleted s \<and> \<not> time_expired now s"
  by (auto simp: is_active_def time_expired_def split: option.splits)

lemma active_imp_active_with_traffic_paid:
  "is_active now s \<Longrightarrow> sub_expires_at s \<noteq> None \<Longrightarrow> is_active_with_traffic now f u s"
  by (auto simp: is_active_def is_active_with_traffic_def)

lemma sub_extend_future: "0 < days \<Longrightarrow> \<not> sub_is_deleted s \<Longrightarrow> is_active now (sub_extend now days s)"
  by (auto simp: is_active_def sub_extend_def Let_def duration_days_def nanos_per_sec_def split: option.splits)

lemma sub_extend_frame: "sub_id (sub_extend now d s) = sub_id s" "sub_product (sub_extend now d s) = sub_product s"
  "sub_limit_bytes (sub_extend now d s) = sub_limit_bytes s"
  by (simp_all add: sub_extend_def Let_def)

lemma sub_extend_expiry:
  "sub_expires_at (sub_extend now d s) =
     Some ((case sub_expires_at s of Some e \<Rightarrow> max e now | None \<Rightarrow> now) + duration_days d)"
  by (auto simp: sub_extend_def Let_def split: option.splits)

lemma duration_days_add: "duration_days (a + b) = duration_days a + duration_days b"
  by (simp add: duration_days_def algebra_simps)

lemma duration_days_nonneg: "0 \<le> d \<Longrightarrow> 0 \<le> duration_days d"
  by (simp add: duration_days_def nanos_per_sec_def)

section \<open>Properties\<close>



text \<open>
  With the traffic mode switched on, a dated subscription is active exactly when its paid
  time has not run out or it has gone over to traffic mode with bytes left, and a deleted one
  never is; with the mode switched off traffic plays no role.
\<close>

theorem activity_is_time_or_traffic:
  assumes "sub_expires_at s = Some e"
  shows "(is_active_with_traffic now True used s \<longleftrightarrow>
            \<not> sub_is_deleted s \<and> (\<not> time_expired now s \<or> traffic_mode now True used s))
       \<and> is_active_with_traffic now False used s = is_active now s"
  using assms
  by (auto simp: is_active_with_traffic_def is_active_def traffic_mode_def time_expired_def split: option.splits)

theorem activity_is_time_or_traffic_witness:
  "is_active_with_traffic 5 True 3 (subscription_new 0 1 ''r'' (Some 4) (Some 9))
   \<and> \<not> is_active_with_traffic 5 False 3 (subscription_new 0 1 ''r'' (Some 4) (Some 9))"
  using activity_is_time_or_traffic[of "subscription_new 0 1 ''r'' (Some 4) (Some 9)" 4 5 3]
  by (simp add: subscription_new_def is_active_def traffic_mode_def time_expired_def remaining_bytes_def wrap64_def)

text \<open>
  The subscription's statistics call it inactive during its last day: while less than 24
  hours are left, \<open>is_active\<close> holds and the reported \<open>is_active\<close> is false.
\<close>

theorem stats_inactive_on_last_day:
  assumes "sub_expires_at s = Some e" "\<not> sub_is_deleted s" "now < e" "e < now + duration_days 1"
  shows "is_active now s \<and> \<not> stats_is_active (stats now s)"
proof -
  have "\<not> 0 < num_days (e - now)" unfolding num_days_pos_iff using assms(4) by simp
  then show ?thesis using assms by (simp add: is_active_def stats_def)
qed

theorem stats_inactive_on_last_day_witness:
  "is_active 0 (subscription_new 0 1 ''r'' (Some 5) None) \<and> \<not> stats_is_active (stats 0 (subscription_new 0 1 ''r'' (Some 5) None))"
  using stats_inactive_on_last_day[of "subscription_new 0 1 ''r'' (Some 5) None" 5 0]
  by (simp add: subscription_new_def duration_days_def nanos_per_sec_def)

end
