(* ===== verification/Key_Code.thy ===== *)
theory Key_Code
  imports Subscription_Model
begin

text \<open>
  Activation keys and their codes (\<^verbatim>\<open>src/memory/key.rs\<close>). Bytes are 8-bit words, the day count
  is the 16-bit pattern of an \<open>i16\<close>, the traffic volume a \<open>u32\<close>. The HMAC and the base32 codec are
  library code: arguments \<open>hmac\<close>, \<open>enc\<close>, \<open>dec\<close>, with what the code relies on as the predicates
  \<open>hmac_spec\<close> and \<open>base32_spec\<close>. Random bytes are an argument.
\<close>

type_synonym hmac_fun = "byte list \<Rightarrow> byte list \<Rightarrow> byte list"
type_synonym enc_fun = "byte list \<Rightarrow> string"
type_synonym dec_fun = "string \<Rightarrow> byte list option"

section \<open>Bytes of integers\<close>

unbundle bit_operations_syntax

definition be_bytes16 :: "16 word \<Rightarrow> byte list" where
  "be_bytes16 w = [ucast (drop_bit 8 w), ucast w]"

definition of_be_bytes16 :: "byte list \<Rightarrow> 16 word" where
  "of_be_bytes16 bs = push_bit 8 (ucast (bs ! 0)) OR ucast (bs ! 1)"

definition be_bytes32 :: "32 word \<Rightarrow> byte list" where
  "be_bytes32 w = [ucast (drop_bit 24 w), ucast (drop_bit 16 w), ucast (drop_bit 8 w), ucast w]"

definition of_be_bytes32 :: "byte list \<Rightarrow> 32 word" where
  "of_be_bytes32 bs = push_bit 24 (ucast (bs ! 0)) OR push_bit 16 (ucast (bs ! 1))
     OR push_bit 8 (ucast (bs ! 2)) OR ucast (bs ! 3)"

lemma length_be_bytes [simp]: "length (be_bytes16 w) = 2" "length (be_bytes32 v) = 4"
  by (simp_all add: be_bytes16_def be_bytes32_def)

lemma bit_byte_high [simp]: "8 \<le> n \<Longrightarrow> \<not> bit (b :: byte) n"
  using bit_imp_le_length[of b n] by auto

lemma of_be_bytes16_be_bytes16 [simp]: "of_be_bytes16 (be_bytes16 w) = w"
  by (rule bit_word_eqI) (auto simp: of_be_bytes16_def be_bytes16_def bit_simps)

lemma of_be_bytes32_be_bytes32 [simp]: "of_be_bytes32 (be_bytes32 w) = w"
proof (rule bit_word_eqI)
  fix n assume "n < LENGTH(32)"
  then consider "n < 8" | "8 \<le> n" "n < 16" | "16 \<le> n" "n < 24" | "24 \<le> n" "n < 32" by fastforce
  then show "bit (of_be_bytes32 (be_bytes32 w)) n = bit w n"
    by cases (auto simp: of_be_bytes32_def be_bytes32_def bit_simps)
qed

lemma be_bytes16_of_be_bytes16: "be_bytes16 (of_be_bytes16 [a, b]) = [a, b]"
  by (auto simp: of_be_bytes16_def be_bytes16_def bit_simps intro!: bit_word_eqI)

lemma be_bytes32_of_be_bytes32: "be_bytes32 (of_be_bytes32 [a, b, c, d]) = [a, b, c, d]"
  by (auto simp: of_be_bytes32_def be_bytes32_def bit_simps intro!: bit_word_eqI)

section \<open>Codes\<close>

datatype code_error = CodeErr_InvalidFormat | CodeErr_InvalidChecksum

datatype code_payload =
    Payload_Days "16 word" "byte list"
  | Payload_Lite "32 word" "byte list"

definition CODE_V1_LEN :: nat where "CODE_V1_LEN = 16"
definition CODE_V2_LEN :: nat where "CODE_V2_LEN = 19"
definition CODE_VERSION_LITE :: byte where "CODE_VERSION_LITE = 2"

definition upper_char :: "char \<Rightarrow> char" where
  "upper_char c = (let n = of_char c :: nat in if 97 \<le> n \<and> n \<le> 122 then char_of (n - 32) else c)"

definition to_uppercase :: "string \<Rightarrow> string" where
  "to_uppercase s = map upper_char s"

definition sign :: "hmac_fun \<Rightarrow> byte list \<Rightarrow> byte list \<Rightarrow> byte list" where
  "sign hmac data secret = hmac secret data"

definition checksum :: "byte list \<Rightarrow> byte" where
  "checksum data = foldl (\<lambda>acc b. acc + b) 0 data"

fun chunks5 :: "string \<Rightarrow> string list" where
  "chunks5 (a # b # c # d # e # rest) = [a, b, c, d, e] # chunks5 rest"
| "chunks5 [] = []"
| "chunks5 s = [s]"

fun join_dash :: "string list \<Rightarrow> string" where
  "join_dash [] = []"
| "join_dash [s] = s"
| "join_dash (s # ss) = s @ CHR ''-'' # join_dash ss"

definition format_code :: "string \<Rightarrow> string" where
  "format_code s = join_dash (chunks5 s)"

definition seal :: "hmac_fun \<Rightarrow> byte list \<Rightarrow> byte list \<Rightarrow> byte list" where
  "seal hmac secret payload =
    (let p = payload @ take 3 (sign hmac payload secret) in p @ [checksum p])"

definition code_new :: "hmac_fun \<Rightarrow> enc_fun \<Rightarrow> byte list \<Rightarrow> 16 word \<Rightarrow> byte list \<Rightarrow> byte list \<Rightarrow> string" where
  "code_new hmac enc random days distributor secret =
    (let payload = random @ be_bytes16 days @ distributor;
         encoded = to_uppercase (enc (seal hmac secret payload))
     in format_code encoded)"

definition code_new_lite :: "hmac_fun \<Rightarrow> enc_fun \<Rightarrow> byte list \<Rightarrow> 32 word \<Rightarrow> byte list \<Rightarrow> byte list \<Rightarrow> string" where
  "code_new_lite hmac enc random traffic_gib distributor secret =
    (let payload = CODE_VERSION_LITE # random @ distributor @ be_bytes32 traffic_gib;
         encoded = to_uppercase (enc (seal hmac secret payload))
     in format_code encoded)"

definition code_from_str :: "dec_fun \<Rightarrow> string \<Rightarrow> code_error + string" where
  "code_from_str dec s =
    (let raw = filter (\<lambda>c. c \<noteq> CHR ''-'') s in
     case dec (to_uppercase raw) of
       None \<Rightarrow> Inl CodeErr_InvalidFormat
     | Some bytes \<Rightarrow>
         if length bytes \<noteq> CODE_V1_LEN \<and> length bytes \<noteq> CODE_V2_LEN then Inl CodeErr_InvalidFormat
         else Inr (to_uppercase s))"

text \<open>The match on the decoded length.\<close>

definition parse_payload_bytes :: "hmac_fun \<Rightarrow> byte list \<Rightarrow> byte list \<Rightarrow> code_payload option" where
  "parse_payload_bytes hmac bytes secret =
    (if length bytes = CODE_V1_LEN then
       let data_with_sig = take 15 bytes; check_byte = drop 15 bytes in
       if checksum data_with_sig \<noteq> check_byte ! 0 then None
       else
         let data = take 12 data_with_sig; sig = drop 12 data_with_sig in
         if take 3 (sign hmac data secret) \<noteq> take 3 sig then None
         else
           let days = of_be_bytes16 (take 2 (drop 6 data)); distributor = take 4 (drop 8 data)
           in Some (Payload_Days days distributor)
     else if length bytes = CODE_V2_LEN then
       let data_with_sig = take 18 bytes; check_byte = drop 18 bytes in
       if checksum data_with_sig \<noteq> check_byte ! 0 then None
       else
         let data = take 15 data_with_sig; sig = drop 15 data_with_sig in
         if data ! 0 \<noteq> CODE_VERSION_LITE then None
         else if take 3 (sign hmac data secret) \<noteq> take 3 sig then None
         else
           let distributor = take 4 (drop 7 data); traffic_gib = of_be_bytes32 (take 4 (drop 11 data))
           in Some (Payload_Lite traffic_gib distributor)
     else None)"

definition parse_payload :: "hmac_fun \<Rightarrow> dec_fun \<Rightarrow> string \<Rightarrow> byte list \<Rightarrow> code_payload option" where
  "parse_payload hmac dec s secret =
    (let raw = filter (\<lambda>c. c \<noteq> CHR ''-'') s in
     case dec (to_uppercase raw) of
       None \<Rightarrow> None
     | Some bytes \<Rightarrow> parse_payload_bytes hmac bytes secret)"

definition code_parse :: "hmac_fun \<Rightarrow> dec_fun \<Rightarrow> string \<Rightarrow> byte list \<Rightarrow> (16 word \<times> byte list) option" where
  "code_parse hmac dec s secret =
    (case parse_payload hmac dec s secret of
       None \<Rightarrow> None
     | Some (Payload_Days days distributor) \<Rightarrow> Some (days, distributor)
     | Some (Payload_Lite _ _) \<Rightarrow> None)"

definition code_validate :: "hmac_fun \<Rightarrow> dec_fun \<Rightarrow> string \<Rightarrow> byte list \<Rightarrow> code_error + 16 word \<times> byte list" where
  "code_validate hmac dec code secret =
    (case code_parse hmac dec code secret of Some d \<Rightarrow> Inr d | None \<Rightarrow> Inl CodeErr_InvalidChecksum)"

definition code_validate_payload :: "hmac_fun \<Rightarrow> dec_fun \<Rightarrow> string \<Rightarrow> byte list \<Rightarrow> code_error + code_payload" where
  "code_validate_payload hmac dec code secret =
    (case parse_payload hmac dec code secret of Some d \<Rightarrow> Inr d | None \<Rightarrow> Inl CodeErr_InvalidChecksum)"

definition code_is_valid :: "hmac_fun \<Rightarrow> dec_fun \<Rightarrow> string \<Rightarrow> byte list \<Rightarrow> bool" where
  "code_is_valid hmac dec code secret = (code_parse hmac dec code secret \<noteq> None)"

definition distributor_new :: "string \<Rightarrow> error + byte list" where
  "distributor_new s =
    (if length s \<noteq> 4 then Inl (Err_Custom ''Distributor must be exactly 4 characters'')
     else if \<not> list_all (\<lambda>c. let n = of_char c :: nat in (65 \<le> n \<and> n \<le> 90) \<or> (48 \<le> n \<and> n \<le> 57)) s
     then Inl (Err_Custom ''Distributor must be uppercase ASCII letters or digits'')
     else Inr (map of_char s))"

text \<open>What the code relies on of the two libraries: RFC 4648 base32 and HMAC-SHA256.\<close>

definition base32_char :: "char \<Rightarrow> bool" where
  "base32_char c = (let n = of_char c :: nat in (65 \<le> n \<and> n \<le> 90) \<or> (50 \<le> n \<and> n \<le> 55))"

definition base32_spec :: "enc_fun \<Rightarrow> dec_fun \<Rightarrow> bool" where
  "base32_spec enc dec \<longleftrightarrow> (\<forall>bs. dec (enc bs) = Some bs \<and> list_all base32_char (enc bs))"

definition hmac_spec :: "hmac_fun \<Rightarrow> bool" where
  "hmac_spec hmac \<longleftrightarrow> (\<forall>secret data. length (hmac secret data) = 32)"

section \<open>Keys\<close>

datatype key_kind = Key_Standard | Key_Lite

fun key_kind_display :: "key_kind \<Rightarrow> string" where
  "key_kind_display Key_Standard = ''standard''"
| "key_kind_display Key_Lite = ''lite''"

definition key_kind_from_str :: "string \<Rightarrow> error + key_kind" where
  "key_kind_from_str s =
    (let l = to_lowercase s in
     if l = ''standard'' then Inr Key_Standard
     else if l = ''lite'' then Inr Key_Lite
     else Inl (Err_Custom ''Wrong KeyKind string''))"

record key =
  key_id :: uuid
  key_code :: string
  key_days :: "16 word"
  key_activated :: bool
  key_subscription_id :: "uuid option"
  key_created_at :: datetime
  key_modified_at :: datetime
  key_distributor :: "byte list"
  key_kind :: key_kind
  key_traffic_bytes :: "int option"
  key_product :: product

definition key_new ::
  "hmac_fun \<Rightarrow> enc_fun \<Rightarrow> datetime \<Rightarrow> uuid \<Rightarrow> byte list \<Rightarrow> 16 word \<Rightarrow> byte list \<Rightarrow> byte list \<Rightarrow> key" where
  "key_new hmac enc now uid random days distributor secret =
    \<lparr> key_id = uid, key_code = code_new hmac enc random days distributor secret, key_days = days,
      key_activated = False, key_subscription_id = None, key_created_at = now,
      key_modified_at = now, key_distributor = distributor, key_kind = Key_Standard,
      key_traffic_bytes = None, key_product = Product_Standard \<rparr>"

definition key_new_lite ::
  "hmac_fun \<Rightarrow> enc_fun \<Rightarrow> datetime \<Rightarrow> uuid \<Rightarrow> byte list \<Rightarrow> 32 word \<Rightarrow> byte list \<Rightarrow> byte list \<Rightarrow> key" where
  "key_new_lite hmac enc now uid random traffic_gib distributor secret =
    \<lparr> key_id = uid, key_code = code_new_lite hmac enc random traffic_gib distributor secret,
      key_days = 0, key_activated = False, key_subscription_id = None, key_created_at = now,
      key_modified_at = now, key_distributor = distributor, key_kind = Key_Lite,
      key_traffic_bytes = Some (wrap64 (uint traffic_gib * 1024 * 1024 * 1024)),
      key_product = Product_Standard \<rparr>"

definition key_with_product :: "product \<Rightarrow> key \<Rightarrow> key" where
  "key_with_product p k = k\<lparr>key_product := p\<rparr>"

definition key_activate :: "datetime \<Rightarrow> uuid \<Rightarrow> key \<Rightarrow> key" where
  "key_activate now sid k =
     k\<lparr>key_activated := True, key_subscription_id := Some sid, key_modified_at := now\<rparr>"

section \<open>Round trips and integrity\<close>

lemma checksum_sum: "checksum bs = sum_list bs"
proof -
  have "foldl (\<lambda>acc b. acc + b) a bs = a + sum_list bs" for a :: byte
    by (induction bs arbitrary: a) (simp_all add: add.assoc)
  then show ?thesis by (simp add: checksum_def)
qed

lemma upper_base32: "base32_char c \<Longrightarrow> upper_char c = c"
  by (auto simp: base32_char_def upper_char_def Let_def)

lemma to_uppercase_base32: "list_all base32_char s \<Longrightarrow> to_uppercase s = s"
  by (induction s) (auto simp: to_uppercase_def upper_base32)

lemma base32_no_dash: "base32_char c \<Longrightarrow> c \<noteq> CHR ''-''"
  by (auto simp: base32_char_def)

lemma filter_no_dash_base32: "list_all base32_char s \<Longrightarrow> filter (\<lambda>c. c \<noteq> CHR ''-'') s = s"
  by (induction s) (auto simp: base32_no_dash)

lemma filter_join_dash:
  "filter (\<lambda>c. c \<noteq> CHR ''-'') (join_dash ss) = filter (\<lambda>c. c \<noteq> CHR ''-'') (concat ss)"
  by (induction ss rule: join_dash.induct) auto

lemma concat_chunks5: "concat (chunks5 s) = s"
  by (induction s rule: chunks5.induct) auto

lemma unformat_code:
  "list_all base32_char s \<Longrightarrow> filter (\<lambda>c. c \<noteq> CHR ''-'') (format_code s) = s"
  by (simp add: format_code_def filter_join_dash concat_chunks5 filter_no_dash_base32)

lemma parse_payload_encoded:
  assumes "base32_spec enc dec"
  shows "parse_payload hmac dec (format_code (to_uppercase (enc bytes))) secret =
           parse_payload_bytes hmac bytes secret"
  using assms
  by (simp add: parse_payload_def base32_spec_def to_uppercase_base32 unformat_code)

text \<open>Acceptance is exactly being a sealed payload.\<close>

lemma parse_bytes_sealed_v1:
  assumes "hmac_spec hmac" "length random = 6" "length distributor = 4"
  shows "parse_payload_bytes hmac (seal hmac secret (random @ be_bytes16 days @ distributor)) secret
           = Some (Payload_Days days distributor)"
  using assms
  by (simp add: parse_payload_bytes_def seal_def CODE_V1_LEN_def Let_def hmac_spec_def sign_def)

lemma parse_bytes_sealed_v2:
  assumes "hmac_spec hmac" "length random = 6" "length distributor = 4"
  shows "parse_payload_bytes hmac
            (seal hmac secret (CODE_VERSION_LITE # random @ distributor @ be_bytes32 gib)) secret
           = Some (Payload_Lite gib distributor)"
  using assms
  by (simp add: parse_payload_bytes_def seal_def CODE_V1_LEN_def CODE_V2_LEN_def Let_def
      hmac_spec_def sign_def)

fun payload_bytes :: "byte list \<Rightarrow> code_payload \<Rightarrow> byte list" where
  "payload_bytes random (Payload_Days days distributor) = random @ be_bytes16 days @ distributor"
| "payload_bytes random (Payload_Lite gib distributor) =
     CODE_VERSION_LITE # random @ distributor @ be_bytes32 gib"

fun payload_distributor :: "code_payload \<Rightarrow> byte list" where
  "payload_distributor (Payload_Days _ d) = d"
| "payload_distributor (Payload_Lite _ d) = d"

lemma length_4_cases: "length xs = 4 \<Longrightarrow> \<exists>a b c d. xs = [a, b, c, d]"
  by (auto simp: numeral_eq_Suc length_Suc_conv)

lemma length_2_cases: "length xs = 2 \<Longrightarrow> \<exists>a b. xs = [a, b]"
  by (auto simp: numeral_eq_Suc length_Suc_conv)

lemma be_bytes16_of_list: "length bs = 2 \<Longrightarrow> be_bytes16 (of_be_bytes16 bs) = bs"
  using length_2_cases[of bs] be_bytes16_of_be_bytes16 by auto

lemma be_bytes32_of_list: "length bs = 4 \<Longrightarrow> be_bytes32 (of_be_bytes32 bs) = bs"
  using length_4_cases[of bs] be_bytes32_of_be_bytes32 by auto

lemma take_drop_split: "take m xs @ take n (drop m xs) = take (m + n) xs"
  by (simp add: take_add)

lemma sealed_split:
  assumes "length bytes = n + 4" "checksum (take (n + 3) bytes) = drop (n + 3) bytes ! 0"
    and "take 3 (hmac secret (take n (take (n + 3) bytes))) = take 3 (drop n (take (n + 3) bytes))"
  shows "bytes = seal hmac secret (take n bytes)"
proof -
  have d: "drop (n + 3) bytes = [bytes ! (n + 3)]"
    using assms(1) Cons_nth_drop_Suc[of "n + 3" bytes] by simp
  have s: "drop n (take (n + 3) bytes) = take 3 (drop n bytes)"
    by (simp add: drop_take)
  have q: "take n (take (n + 3) bytes) = take n bytes"
    by simp
  have p: "take n bytes @ take 3 (sign hmac (take n bytes) secret) = take (n + 3) bytes"
    using assms(3) unfolding s q sign_def by (simp add: take_add)
  have "checksum (take (n + 3) bytes) = bytes ! (n + 3)"
    using assms(2) d by simp
  then have "seal hmac secret (take n bytes) = take (n + 3) bytes @ drop (n + 3) bytes"
    using p d by (simp add: seal_def Let_def)
  then show ?thesis by simp
qed

lemma parse_bytes_v1_sound:
  assumes "length bytes = CODE_V1_LEN" "parse_payload_bytes hmac bytes secret = Some p"
  shows "\<exists>random. length random = 6 \<and> length (payload_distributor p) = 4 \<and>
           bytes = seal hmac secret (payload_bytes random p)"
proof -
  let ?d = "take 12 bytes"
  have len: "length bytes = 12 + 4" using assms(1) by (simp add: CODE_V1_LEN_def)
  have c: "checksum (take (12 + 3) bytes) = drop (12 + 3) bytes ! 0"
    and m: "take 3 (hmac secret (take 12 (take (12 + 3) bytes))) = take 3 (drop 12 (take (12 + 3) bytes))"
    and p: "p = Payload_Days (of_be_bytes16 (take 2 (drop 6 ?d))) (take 4 (drop 8 ?d))"
    using assms
    by (auto simp: parse_payload_bytes_def Let_def sign_def min_def split: if_splits)
  have "take 6 ?d @ take 2 (drop 6 ?d) @ take 4 (drop 8 ?d) = ?d"
    using len take_add[of 6 2 ?d] take_add[of 8 4 ?d] by simp
  then have "payload_bytes (take 6 ?d) p = ?d"
    using len by (simp add: p be_bytes16_of_list)
  then show ?thesis
    using sealed_split[where hmac = hmac and secret = secret, OF len c m] len p by (intro exI[of _ "take 6 ?d"]) simp
qed

lemma parse_bytes_v2_sound:
  assumes "length bytes = CODE_V2_LEN" "parse_payload_bytes hmac bytes secret = Some p"
  shows "\<exists>random. length random = 6 \<and> length (payload_distributor p) = 4 \<and>
           bytes = seal hmac secret (payload_bytes random p)"
proof -
  let ?d = "take 15 bytes"
  have len: "length bytes = 15 + 4" using assms(1) by (simp add: CODE_V2_LEN_def)
  have c: "checksum (take (15 + 3) bytes) = drop (15 + 3) bytes ! 0"
    and m: "take 3 (hmac secret (take 15 (take (15 + 3) bytes))) = take 3 (drop 15 (take (15 + 3) bytes))"
    and v: "?d ! 0 = CODE_VERSION_LITE"
    and p: "p = Payload_Lite (of_be_bytes32 (take 4 (drop 11 ?d))) (take 4 (drop 7 ?d))"
    using assms len
    by (auto simp: parse_payload_bytes_def Let_def sign_def min_def CODE_V1_LEN_def split: if_splits)
  have h: "take 1 ?d = [CODE_VERSION_LITE]"
    using len v by (cases ?d) auto
  have "take 1 ?d @ take 6 (drop 1 ?d) @ take 4 (drop 7 ?d) @ take 4 (drop 11 ?d) = ?d"
    using len take_add[of 1 6 ?d] take_add[of 7 4 ?d] take_add[of 11 4 ?d] by simp
  then have "payload_bytes (take 6 (drop 1 ?d)) p = ?d"
    using len h by (simp add: p be_bytes32_of_list)
  then show ?thesis
    using sealed_split[where hmac = hmac and secret = secret, OF len c m] len p by (intro exI[of _ "take 6 (drop 1 ?d)"]) simp
qed

lemma parse_bytes_iff:
  assumes "hmac_spec hmac"
  shows "parse_payload_bytes hmac bytes secret = Some p \<longleftrightarrow>
    (\<exists>random. length random = 6 \<and> length (payload_distributor p) = 4 \<and>
       bytes = seal hmac secret (payload_bytes random p))"
proof
  assume *: "parse_payload_bytes hmac bytes secret = Some p"
  then have "length bytes = CODE_V1_LEN \<or> length bytes = CODE_V2_LEN"
    by (auto simp: parse_payload_bytes_def split: if_splits)
  then show "\<exists>random. length random = 6 \<and> length (payload_distributor p) = 4 \<and>
       bytes = seal hmac secret (payload_bytes random p)"
    using * parse_bytes_v1_sound parse_bytes_v2_sound by blast
next
  assume "\<exists>random. length random = 6 \<and> length (payload_distributor p) = 4 \<and>
       bytes = seal hmac secret (payload_bytes random p)"
  then show "parse_payload_bytes hmac bytes secret = Some p"
    using assms by (cases p) (auto simp: parse_bytes_sealed_v1 parse_bytes_sealed_v2)
qed

lemma checksum_update:
  "i < length bs \<Longrightarrow> checksum (bs[i := b]) = checksum bs - bs ! i + b"
proof -
  assume i: "i < length bs"
  have "bs = take i bs @ bs ! i # drop (Suc i) bs" using i by (rule id_take_nth_drop)
  then have "sum_list bs = sum_list (take i bs) + (bs ! i + sum_list (drop (Suc i) bs))"
    by (metis sum_list.append sum_list.Cons)
  then show ?thesis
    using i by (simp add: checksum_sum upd_conv_take_nth_drop algebra_simps)
qed

lemma parse_bytes_checksum:
  "parse_payload_bytes hmac bytes secret = Some p \<Longrightarrow>
     bytes \<noteq> [] \<and> checksum (butlast bytes) = last bytes"
proof -
  assume *: "parse_payload_bytes hmac bytes secret = Some p"
  then have "bytes \<noteq> []"
    by (auto simp: parse_payload_bytes_def CODE_V1_LEN_def CODE_V2_LEN_def)
  moreover have "checksum (butlast bytes) = last bytes"
    using * by (auto simp: parse_payload_bytes_def Let_def CODE_V1_LEN_def CODE_V2_LEN_def
        butlast_conv_take last_conv_nth[OF calculation] split: if_splits)
  ultimately show ?thesis by blast
qed

lemma parse_bytes_one_change:
  assumes "parse_payload_bytes hmac bytes secret = Some p" "i < length bytes" "b \<noteq> bytes ! i"
  shows "parse_payload_bytes hmac (bytes[i := b]) secret = None"
proof (rule ccontr)
  assume "parse_payload_bytes hmac (bytes[i := b]) secret \<noteq> None"
  then obtain q where q: "parse_payload_bytes hmac (bytes[i := b]) secret = Some q" by blast
  note c = parse_bytes_checksum[OF assms(1)] parse_bytes_checksum[OF q]
  obtain xs x where bytes: "bytes = xs @ [x]" using c(1) by (metis append_butlast_last_id)
  show False
  proof (cases "i = length xs")
    case True
    then show ?thesis using c assms(3) by (simp add: bytes)
  next
    case False
    then have i: "i < length xs" using assms(2) bytes by simp
    then have "checksum (xs[i := b]) = checksum xs"
      using c by (simp add: bytes list_update_append)
    then show ?thesis using checksum_update[OF i, of b] assms(3) i by (simp add: bytes nth_append)
  qed
qed

text \<open>A concrete base16 codec and a constant MAC, for evaluating the model.\<close>

definition nib_enc :: enc_fun where
  "nib_enc bs = concat (map (\<lambda>b. [char_of (65 + unat b div 16), char_of (65 + unat b mod 16)]) bs)"

fun nib_dec :: dec_fun where
  "nib_dec [] = Some []"
| "nib_dec [c] = None"
| "nib_dec (h # l # r) =
     (case nib_dec r of
        None \<Rightarrow> None
      | Some bs \<Rightarrow> Some (of_nat ((of_char h - 65) * 16 + (of_char l - 65)) # bs))"

definition const_hmac :: hmac_fun where
  "const_hmac secret data = replicate 32 7"

lemma hmac_spec_const: "hmac_spec const_hmac"
  by (simp add: hmac_spec_def const_hmac_def)

lemma unat_byte_bound: "unat (b :: byte) < 256"
  using unsigned_less[of b, where 'a = nat] by simp

lemma nib_dec_nib_enc: "nib_dec (nib_enc bs) = Some bs"
proof (induction bs)
  case (Cons b bs)
  have "unat b div 16 < 16" "unat b < 256"
    using unat_byte_bound[of b] by auto
  then show ?case using Cons by (simp add: nib_enc_def)
qed (simp add: nib_enc_def)

lemma base32_char_nib: "(n :: nat) < 16 \<Longrightarrow> base32_char (char_of (65 + n))"
  by (auto simp: base32_char_def Let_def)

lemma base32_spec_nib: "base32_spec nib_enc nib_dec"
proof -
  have "unat b div 16 < 16" for b :: byte
    using unat_byte_bound[of b] by auto
  then have "list_all base32_char (nib_enc bs)" for bs
    by (induction bs) (simp_all add: nib_enc_def base32_char_nib)
  then show ?thesis by (simp add: base32_spec_def nib_dec_nib_enc)
qed

section \<open>Properties\<close>

text \<open>
  C1: A code string is accepted, with a given payload, exactly when it decodes (after removing
  the dashes and uppercasing) to the sealed bytes of that payload: six random bytes, the
  payload's fields, the first three bytes of their HMAC under the secret, and the checksum of
  all of these. Nothing else is accepted, and the v1 and v2 formats are never confused.
\<close>

theorem parse_payload_exact:
  assumes "hmac_spec hmac"
  shows "parse_payload hmac dec s secret = Some p \<longleftrightarrow>
    (\<exists>bytes random. dec (to_uppercase (filter (\<lambda>c. c \<noteq> CHR ''-'') s)) = Some bytes \<and>
       length random = 6 \<and> length (payload_distributor p) = 4 \<and>
       bytes = seal hmac secret (payload_bytes random p))"
  using parse_bytes_iff[OF assms] by (auto simp: parse_payload_def Let_def split: option.splits)

theorem parse_payload_exact_witness:
  "parse_payload const_hmac nib_dec
      (code_new const_hmac nib_enc [1, 2, 3, 4, 5, 6] 30 [70, 82, 75, 78] [9]) [9]
     = Some (Payload_Days 30 [70, 82, 75, 78])"
proof -
  have "nib_dec (to_uppercase (filter (\<lambda>c. c \<noteq> CHR ''-'')
          (code_new const_hmac nib_enc [1, 2, 3, 4, 5, 6] 30 [70, 82, 75, 78] [9])))
        = Some (seal const_hmac [9] (payload_bytes [1, 2, 3, 4, 5, 6] (Payload_Days 30 [70, 82, 75, 78])))"
    using base32_spec_nib
    by (simp add: code_new_def Let_def base32_spec_def to_uppercase_base32 unformat_code)
  then show ?thesis
    by (intro iffD2[OF parse_payload_exact[OF hmac_spec_const]] exI[of _ "[1, 2, 3, 4, 5, 6]"]
        exI[of _ "seal const_hmac [9] (payload_bytes [1, 2, 3, 4, 5, 6] (Payload_Days 30 [70, 82, 75, 78]))"]
        conjI refl) simp_all
qed

text \<open>
  C2: Every code that the service issues reads back: a days code gives its day count and
  distributor, a lite code its traffic volume and distributor, and the days-only reader
  (\<open>Code::parse\<close>) accepts the first and rejects the second.
\<close>

theorem issued_codes_roundtrip:
  assumes "base32_spec enc dec" "hmac_spec hmac" "length random = 6" "length distributor = 4"
  shows "code_validate hmac dec (key_code (key_new hmac enc now uid random days distributor secret)) secret
           = Inr (days, distributor)
       \<and> code_validate_payload hmac dec
           (key_code (key_new_lite hmac enc now uid random gib distributor secret)) secret
           = Inr (Payload_Lite gib distributor)
       \<and> \<not> code_is_valid hmac dec
           (key_code (key_new_lite hmac enc now uid random gib distributor secret)) secret"
proof -
  note enc = parse_payload_encoded[OF assms(1)]
  have "parse_payload hmac dec (code_new hmac enc random days distributor secret) secret
          = Some (Payload_Days days distributor)"
    using assms by (simp add: code_new_def Let_def enc parse_bytes_sealed_v1)
  moreover have "parse_payload hmac dec (code_new_lite hmac enc random gib distributor secret) secret
          = Some (Payload_Lite gib distributor)"
    using assms by (simp add: code_new_lite_def Let_def enc parse_bytes_sealed_v2)
  ultimately show ?thesis
    by (simp add: code_validate_def code_validate_payload_def code_is_valid_def code_parse_def
        key_new_def key_new_lite_def)
qed

theorem issued_codes_roundtrip_witness:
  "code_validate const_hmac nib_dec
      (key_code (key_new const_hmac nib_enc 0 1 [1, 2, 3, 4, 5, 6] 365 [70, 82, 75, 78] [9])) [9]
     = Inr (365, [70, 82, 75, 78])"
  using issued_codes_roundtrip[OF base32_spec_nib hmac_spec_const, of "[1, 2, 3, 4, 5, 6]" "[70, 82, 75, 78]"]
  by simp

text \<open>
  C8: The checksum catches every corruption of a single byte: no byte string that differs from an
  accepted one in exactly one position is accepted, whatever the secret and the MAC.
\<close>

theorem single_byte_corruption_rejected:
  assumes "parse_payload_bytes hmac bytes secret = Some p" "i < length bytes" "b \<noteq> bytes ! i"
  shows "parse_payload_bytes hmac (bytes[i := b]) secret = None"
  using assms by (rule parse_bytes_one_change)

theorem single_byte_corruption_rejected_witness:
  "parse_payload_bytes const_hmac
     ((seal const_hmac [9] (payload_bytes [1, 2, 3, 4, 5, 6] (Payload_Days 30 [70, 82, 75, 78])))[7 := 99]) [9]
     = None"
proof (rule single_byte_corruption_rejected[where p = "Payload_Days 30 [70, 82, 75, 78]"])
  show "parse_payload_bytes const_hmac
     (seal const_hmac [9] (payload_bytes [1, 2, 3, 4, 5, 6] (Payload_Days 30 [70, 82, 75, 78]))) [9]
     = Some (Payload_Days 30 [70, 82, 75, 78])"
    by (rule iffD2[OF parse_bytes_iff[OF hmac_spec_const]], rule exI[of _ "[1, 2, 3, 4, 5, 6]"]) simp
qed code_simp+

text \<open>
  A lite key's byte balance is its volume times 2 to the 30: the multiplication never
  wraps, so it is between 0 and 2 to the 62.
\<close>

theorem lite_key_traffic_exact:
  "key_traffic_bytes (key_new_lite hmac enc now uid random gib distributor secret)
     = Some (uint gib * 2 ^ 30)
   \<and> 0 \<le> uint gib * (2 :: int) ^ 30 \<and> uint gib * (2 :: int) ^ 30 < 2 ^ 62"
proof -
  have b: "0 \<le> uint gib" "uint gib < 2 ^ 32"
    using uint_lt2p[of gib] by simp_all
  moreover from b have "- 8589934592 \<le> uint gib" by linarith
  ultimately have "in_i64 (uint gib * 1024 * 1024 * 1024)"
    by (simp add: in_i64_def)
  then show ?thesis
    using b by (simp add: key_new_lite_def wrap64_id)
qed

end
