(* ===== verification/Wg_Addr.thy ===== *)
theory Wg_Addr
  imports Fcore_Prelude
begin

text \<open>
  WireGuard keys, addresses and subnets (\<^verbatim>\<open>src/memory/connection/wireguard.rs\<close>). An IPv4 address
  is a 32-bit word and an IPv6 address a 128-bit word; the prefix length is a \<open>u8\<close>. Arithmetic is
  that of a release build: \<open>32 - cidr\<close> wraps in eight bits and a shift uses the low bits of its
  amount.
\<close>

unbundle bit_operations_syntax

datatype ip_addr = IpAddr_V4 "32 word" | IpAddr_V6 "128 word"

record ip_addr_mask =
  ipm_address :: ip_addr
  ipm_cidr :: "8 word"

datatype ip_version = IpVersion_IPv4 | IpVersion_IPv6

definition ip_mask_new :: "ip_addr \<Rightarrow> 8 word \<Rightarrow> ip_addr_mask" where
  "ip_mask_new address cidr = \<lparr> ipm_address = address, ipm_cidr = cidr \<rparr>"

definition ip_mask_host :: "ip_addr \<Rightarrow> ip_addr_mask" where
  "ip_mask_host address =
    \<lparr> ipm_address = address, ipm_cidr = (case address of IpAddr_V4 _ \<Rightarrow> 32 | IpAddr_V6 _ \<Rightarrow> 128) \<rparr>"

definition as_ipv4 :: "ip_addr_mask \<Rightarrow> 32 word option" where
  "as_ipv4 m = (case ipm_address m of IpAddr_V4 ip \<Rightarrow> Some ip | IpAddr_V6 _ \<Rightarrow> None)"

definition RESERVED_PREFIX :: "32 word" where
  "RESERVED_PREFIX = 50"

definition checked_add32 :: "32 word \<Rightarrow> 32 word \<Rightarrow> 32 word option" where
  "checked_add32 a b = (if uint a + uint b < 2 ^ 32 then Some (a + b) else None)"

definition increment_ipv4 :: "32 word \<Rightarrow> 32 word option" where
  "increment_ipv4 ip = checked_add32 ip 1"

definition first_ipv4 :: "ip_addr_mask \<Rightarrow> 32 word option" where
  "first_ipv4 m = (case as_ipv4 m of None \<Rightarrow> None | Some base \<Rightarrow> increment_ipv4 base)"

definition last_ipv4 :: "ip_addr_mask \<Rightarrow> 32 word option" where
  "last_ipv4 m = as_ipv4 m"

text \<open>\<open>u32::MAX << n\<close> and \<open>u128::MAX << n\<close> for a \<open>u8\<close> amount.\<close>

definition shl_max32 :: "8 word \<Rightarrow> 32 word" where
  "shl_max32 n = push_bit (unat n mod 32) (- 1)"

definition shl_max128 :: "8 word \<Rightarrow> 128 word" where
  "shl_max128 n = push_bit (unat n mod 128) (- 1)"

definition mask32 :: "8 word \<Rightarrow> 32 word" where
  "mask32 cidr = (if cidr = 0 then 0 else shl_max32 (32 - cidr))"

definition mask128 :: "8 word \<Rightarrow> 128 word" where
  "mask128 cidr = (if cidr = 0 then 0 else shl_max128 (128 - cidr))"

definition contains_ipv4 :: "ip_addr_mask \<Rightarrow> 32 word \<Rightarrow> bool" where
  "contains_ipv4 m ip =
    (case ipm_address m of
       IpAddr_V4 base \<Rightarrow> (base AND mask32 (ipm_cidr m)) = (ip AND mask32 (ipm_cidr m))
     | IpAddr_V6 _ \<Rightarrow> False)"

definition first_peer_ip :: "ip_addr_mask \<Rightarrow> 32 word option" where
  "first_peer_ip m =
    (case first_ipv4 m of
       None \<Rightarrow> None
     | Some base \<Rightarrow>
         (case increment_ipv4 base of
            None \<Rightarrow> None
          | Some ip \<Rightarrow> if contains_ipv4 m ip then Some ip else None))"

definition first_allocatable_ipv4 :: "ip_addr_mask \<Rightarrow> 32 word option" where
  "first_allocatable_ipv4 m =
    (case as_ipv4 m of
       None \<Rightarrow> None
     | Some base \<Rightarrow>
         (case checked_add32 base (RESERVED_PREFIX + 1) of
            None \<Rightarrow> None
          | Some ip \<Rightarrow> if contains_ipv4 m ip then Some ip else first_peer_ip m))"

definition broadcast :: "ip_addr_mask \<Rightarrow> ip_addr" where
  "broadcast m =
    (case ipm_address m of
       IpAddr_V4 ip \<Rightarrow>
         IpAddr_V4 (ip OR (if ipm_cidr m \<ge> 32 then 0 else drop_bit (unat (ipm_cidr m)) (- 1)))
     | IpAddr_V6 ip \<Rightarrow>
         IpAddr_V6 (ip OR (if ipm_cidr m \<ge> 128 then 0 else drop_bit (unat (ipm_cidr m)) (- 1))))"

definition ip_mask_mask :: "ip_addr_mask \<Rightarrow> ip_addr" where
  "ip_mask_mask m =
    (case ipm_address m of
       IpAddr_V4 _ \<Rightarrow> IpAddr_V4 (mask32 (ipm_cidr m))
     | IpAddr_V6 _ \<Rightarrow> IpAddr_V6 (mask128 (ipm_cidr m)))"

fun is_ipv4 :: "ip_addr \<Rightarrow> bool" where
  "is_ipv4 (IpAddr_V4 _) = True"
| "is_ipv4 (IpAddr_V6 _) = False"

definition is_host :: "ip_addr_mask \<Rightarrow> bool" where
  "is_host m = (if is_ipv4 (ipm_address m) then ipm_cidr m = 32 else ipm_cidr m = 128)"

definition get_ip_version :: "ip_addr_mask \<Rightarrow> ip_version" where
  "get_ip_version m = (if is_ipv4 (ipm_address m) then IpVersion_IPv4 else IpVersion_IPv6)"

text \<open>
  \<open>FromStr\<close>; the address and number parsers are arguments. The JSON map form takes the two
  fields as they are.
\<close>

fun split_once :: "char \<Rightarrow> string \<Rightarrow> (string \<times> string) option" where
  "split_once d [] = None"
| "split_once d (c # s) =
     (if c = d then Some ([], s)
      else case split_once d s of None \<Rightarrow> None | Some (l, r) \<Rightarrow> Some (c # l, r))"

definition ip_mask_from_str ::
  "(string \<Rightarrow> ip_addr option) \<Rightarrow> (string \<Rightarrow> 8 word option) \<Rightarrow> string \<Rightarrow> ip_addr_mask option" where
  "ip_mask_from_str parse_ip parse_u8 ip_str =
    (case split_once (CHR ''/'') ip_str of
       Some (left, right) \<Rightarrow>
         (case parse_ip left of
            None \<Rightarrow> None
          | Some ip \<Rightarrow>
              (case parse_u8 right of
                 None \<Rightarrow> None
               | Some cidr \<Rightarrow>
                   if cidr > (case ip of IpAddr_V4 _ \<Rightarrow> 32 | IpAddr_V6 _ \<Rightarrow> 128) then None
                   else Some \<lparr> ipm_address = ip, ipm_cidr = cidr \<rparr>))
     | None \<Rightarrow>
         (case parse_ip ip_str of
            None \<Rightarrow> None
          | Some ip \<Rightarrow> Some \<lparr> ipm_address = ip, ipm_cidr = (if is_ipv4 ip then 32 else 128) \<rparr>))"

definition ip_mask_visit_map :: "ip_addr option \<Rightarrow> 8 word option \<Rightarrow> error + ip_addr_mask" where
  "ip_mask_visit_map address cidr =
    (case address of
       None \<Rightarrow> Inl (Err_Custom ''missing field address'')
     | Some a \<Rightarrow>
         (case cidr of
            None \<Rightarrow> Inl (Err_Custom ''missing field cidr'')
          | Some c \<Rightarrow> Inr \<lparr> ipm_address = a, ipm_cidr = c \<rparr>))"

definition cidr_valid :: "ip_addr_mask \<Rightarrow> bool" where
  "cidr_valid m \<longleftrightarrow> ipm_cidr m \<le> (if is_ipv4 (ipm_address m) then 32 else 128)"

section \<open>Keys and parameters\<close>

record wg_keys =
  privkey :: string

record wg_param =
  wg_keys :: wg_keys
  wg_address :: ip_addr_mask

text \<open>
  \<open>Keys::derive_pubkey\<close>: base64 and the curve are library code, given as \<open>b64_dec\<close>,
  \<open>b64_enc\<close> and \<open>derive\<close>.
\<close>

definition wg_pubkey ::
  "(string \<Rightarrow> 8 word list option) \<Rightarrow> (8 word list \<Rightarrow> string) \<Rightarrow> (8 word list \<Rightarrow> 8 word list) \<Rightarrow>
   wg_keys \<Rightarrow> error + string" where
  "wg_pubkey b64_dec b64_enc derive k =
    (case b64_dec (privkey k) of
       None \<Rightarrow> Inl (Err_Custom ''invalid base64 private key'')
     | Some private_vec \<Rightarrow>
         if length private_vec \<noteq> 32 then Inl (Err_Custom ''Private key must be exactly 32 bytes'')
         else Inr (b64_enc (derive private_vec)))"

section \<open>Prefix arithmetic\<close>

lemma checked_add32_Some: "checked_add32 a b = Some c \<Longrightarrow> uint c = uint a + uint b"
  by (auto simp: checked_add32_def uint_word_ariths split: if_splits)

lemma increment_ipv4_Some: "increment_ipv4 a = Some c \<Longrightarrow> uint c = uint a + 1"
  by (auto simp: increment_ipv4_def dest: checked_add32_Some)

lemma increment_ipv4_None: "increment_ipv4 a = None \<longleftrightarrow> a = - 1"
proof -
  have "a = - 1 \<longleftrightarrow> uint a = uint (- 1 :: 32 word)" by (rule word_uint_eq_iff)
  moreover have "uint (- 1 :: 32 word) = 2 ^ 32 - 1"
    by (simp add: unsigned_minus_1_eq_mask mask_eq_exp_minus_1)
  ultimately show ?thesis
    using uint_lt2p[of a] by (auto simp: increment_ipv4_def checked_add32_def)
qed

lemma contains_refl: "ipm_address m = IpAddr_V4 base \<Longrightarrow> contains_ipv4 m base"
  by (simp add: contains_ipv4_def)

lemma word_bits_le: "(\<And>n. bit a n \<Longrightarrow> bit b n) \<Longrightarrow> a \<le> (b :: 'a::len word)"
proof -
  assume "\<And>n. bit a n \<Longrightarrow> bit b n"
  then have "a = b AND a" by (auto intro!: bit_word_eqI simp: bit_simps)
  then show ?thesis by (metis AND_upper2 and.commute uint_and word_le_def uint_ge_0)
qed

lemma bit_mask32:
  assumes "cidr \<le> 32"
  shows "bit (mask32 cidr) n \<longleftrightarrow> n < 32 \<and> 32 - unat cidr \<le> n"
proof (cases "cidr = 0")
  case True
  then show ?thesis by (auto simp: mask32_def)
next
  case False
  have c: "unat cidr \<le> 32" using assms by (simp add: word_le_nat_alt)
  have "unat (32 - cidr) = 32 - unat cidr"
    using assms by (simp add: unat_sub)
  moreover have "0 < unat cidr" using False by (simp add: unat_gt_0)
  ultimately show ?thesis
    using c False by (auto simp: mask32_def shl_max32_def bit_simps)
qed

lemma unat_push_drop: "k < 32 \<Longrightarrow> unat (push_bit k (drop_bit k (x :: 32 word))) = unat x div 2 ^ k * 2 ^ k"
proof -
  assume "k < 32"
  have "unat x div 2 ^ k * 2 ^ k \<le> unat x" by simp
  also have lt: "unat x < 2 ^ 32" using unsigned_less[of x, where 'a = nat] by simp
  finally have "take_bit 32 (unat x div 2 ^ k * 2 ^ k) = unat x div 2 ^ k * 2 ^ k"
    by (simp add: take_bit_nat_eq_self)
  then show ?thesis
    by (simp only: unsigned_push_bit_eq unsigned_drop_bit_eq)
      (simp add: drop_bit_eq_div push_bit_eq_mult take_bit_nat_eq_self[OF lt])
qed

lemma and_mask32: "cidr \<le> 32 \<Longrightarrow> 0 < cidr \<Longrightarrow>
    x AND mask32 cidr = push_bit (32 - unat cidr) (drop_bit (32 - unat cidr) x)"
  by (auto intro!: bit_word_eqI simp: bit_simps bit_mask32 bit_imp_le_length)

text \<open>The size of the host part of a prefix.\<close>

definition host_size :: "8 word \<Rightarrow> nat" where
  "host_size cidr = 2 ^ (32 - unat cidr)"

lemma unat_and_mask32:
  assumes "cidr \<le> 32"
  shows "unat (x AND mask32 cidr) = unat x div host_size cidr * host_size cidr"
proof (cases "cidr = 0")
  case True
  have "unat x < 2 ^ 32" using unsigned_less[of x, where 'a = nat] by simp
  then show ?thesis using True by (simp add: mask32_def host_size_def)
next
  case False
  then have "0 < cidr" by (simp add: word_gt_0)
  moreover have "0 < unat cidr" using False by (simp add: unat_gt_0)
  ultimately show ?thesis
    using assms and_mask32[of cidr x] unat_push_drop[of "32 - unat cidr" x] by (simp add: host_size_def)
qed

lemma contains_iff_div:
  assumes "ipm_address m = IpAddr_V4 base" "cidr_valid m"
  shows "contains_ipv4 m ip \<longleftrightarrow>
           unat ip div host_size (ipm_cidr m) = unat base div host_size (ipm_cidr m)"
proof -
  have c: "ipm_cidr m \<le> 32" using assms by (simp add: cidr_valid_def)
  have "0 < host_size (ipm_cidr m)" by (simp add: host_size_def)
  then show ?thesis
    using assms(1) unat_and_mask32[OF c] by (auto simp: contains_ipv4_def word_unat_eq_iff)
qed

lemma or_host_bits:
  assumes "cidr < 32"
  shows "unat ((x :: 32 word) OR drop_bit (unat cidr) (- 1)) =
           unat x div host_size cidr * host_size cidr + (host_size cidr - 1)"
proof -
  define k where "k = 32 - unat cidr"
  have k: "0 < k" "k \<le> 32" "unat cidr < 32"
    using assms by (simp_all add: k_def word_less_nat_alt)
  have b: "drop_bit (unat cidr) (- 1 :: 32 word) = mask k"
    using k by (auto intro!: bit_word_eqI simp: bit_simps k_def)
  have "unat (of_nat (mask k) :: 32 word) = take_bit 32 (mask k)"
    by (simp only: unsigned_of_nat) simp
  then have "unat (mask k :: 32 word) = take_bit 32 (mask k)"
    by (simp only: of_nat_mask_eq)
  moreover have "take_bit 32 (mask k :: nat) = mask k"
    using k by simp
  moreover have "(mask k :: nat) = host_size cidr - 1"
    by (simp add: host_size_def k_def mask_eq_exp_minus_1)
  ultimately have m: "unat (mask k :: 32 word) = host_size cidr - 1"
    by (simp only:)
  have "x OR mask k = (x AND mask32 cidr) OR mask k"
    using k assms by (auto intro!: bit_word_eqI simp: bit_simps bit_mask32 k_def bit_imp_le_length)
  also have "\<dots> = (x AND mask32 cidr) + mask k"
    using k assms by (intro disjunctive_add[symmetric])
      (auto simp: bit_simps bit_mask32 k_def)
  finally have e: "x OR mask k = (x AND mask32 cidr) + mask k" .
  have u: "unat (x AND mask32 cidr) = unat x div host_size cidr * host_size cidr"
    using assms by (intro unat_and_mask32) simp
  have lt: "unat x div host_size cidr * host_size cidr + (host_size cidr - 1) < 2 ^ 32"
  proof -
    have "(2 :: nat) ^ 32 = 2 ^ (unat cidr + (32 - unat cidr))" using k by simp
    then have p: "(2 :: nat) ^ 32 = 2 ^ unat cidr * host_size cidr"
      by (simp only: power_add host_size_def)
    have "unat x < 2 ^ 32" using unsigned_less[of x, where 'a = nat] by simp
    then have "unat x div host_size cidr < 2 ^ unat cidr"
      unfolding p by (rule less_mult_imp_div_less)
    then have "(unat x div host_size cidr + 1) * host_size cidr \<le> 2 ^ unat cidr * host_size cidr"
      by (intro mult_right_mono) simp_all
    also have "\<dots> = 2 ^ 32" by (simp only: p)
    finally show ?thesis by (simp add: host_size_def algebra_simps)
  qed
  show ?thesis
    unfolding b e using u m lt by (simp add: unat_word_ariths)
qed

lemma host_size_pos [simp]: "0 < host_size c"
  by (simp add: host_size_def)

lemma broadcast_v4:
  assumes "ipm_address m = IpAddr_V4 base" "cidr_valid m"
  shows "\<exists>last. broadcast m = IpAddr_V4 last \<and>
     unat last = unat base div host_size (ipm_cidr m) * host_size (ipm_cidr m) + (host_size (ipm_cidr m) - 1)"
proof (cases "ipm_cidr m \<ge> 32")
  case True
  then have "ipm_cidr m = 32" using assms by (simp add: cidr_valid_def)
  then show ?thesis using assms by (simp add: broadcast_def host_size_def)
next
  case False
  then have "broadcast m = IpAddr_V4 (base OR drop_bit (unat (ipm_cidr m)) (- 1))"
    using assms(1) by (simp only: broadcast_def ip_addr.case if_False)
  moreover have "ipm_cidr m < 32" using False by simp
  ultimately show ?thesis using or_host_bits[of "ipm_cidr m" base] by blast
qed

lemma div_eq_iff_interval:
  "0 < (h :: nat) \<Longrightarrow> x div h = b div h \<longleftrightarrow> b div h * h \<le> x \<and> x \<le> b div h * h + (h - 1)"
proof
  assume h: "0 < h" and "x div h = b div h"
  then have "b div h * h + x mod h = x" by (metis div_mult_mod_eq)
  moreover have "x mod h < h" using h by simp
  ultimately show "b div h * h \<le> x \<and> x \<le> b div h * h + (h - 1)" by linarith
next
  assume h: "0 < h" and "b div h * h \<le> x \<and> x \<le> b div h * h + (h - 1)"
  then have "b div h * h \<le> x" "x < Suc (b div h) * h" by auto
  then show "x div h = b div h" by (simp add: div_nat_eqI mult.commute)
qed

lemma contains_offset:
  assumes "ipm_address m = IpAddr_V4 base" "ipm_cidr m \<le> 32" "base AND mask32 (ipm_cidr m) = base"
    and "unat d < host_size (ipm_cidr m)"
  shows "contains_ipv4 m (base + d) \<and> unat (base + d) = unat base + unat d"
proof -
  let ?h = "host_size (ipm_cidr m)"
  have v: "cidr_valid m" using assms by (simp add: cidr_valid_def)
  have b: "unat base = unat base div ?h * ?h" using unat_and_mask32[OF assms(2), of base] assms(3) by simp
  obtain l :: "32 word" where "unat l = unat base div ?h * ?h + (?h - 1)" using broadcast_v4[OF assms(1) v] by blast
  then have "unat base + unat d \<le> unat l" using b assms(4) by simp
  then have "unat base + unat d < 2 ^ 32"
    using unsigned_less[of l, where 'a = nat] by simp
  then have s: "unat (base + d) = unat base + unat d" by (simp add: unat_word_ariths)
  have "(unat base + unat d) div ?h = unat base div ?h"
    by (rule iffD2[OF div_eq_iff_interval]) (use b assms(4) in auto)
  then show ?thesis using contains_iff_div[OF assms(1) v] s by simp
qed

lemma checked_add32_unat:
  "checked_add32 a b = (if unat a + unat b < 2 ^ 32 then Some (a + b) else None)"
proof -
  have "uint a = int (unat a)" "uint b = int (unat b)" by simp_all
  then have "uint a + uint b < 4294967296 \<longleftrightarrow> unat a + unat b < 4294967296"
    by linarith
  then show ?thesis by (simp add: checked_add32_def)
qed

section \<open>Properties\<close>

text \<open>
  C38: For a subnet with a valid prefix length, \<open>contains_ipv4\<close> is exactly the interval from the
  network address to the broadcast address that the type computes.
\<close>

theorem contains_is_interval:
  assumes "ipm_address m = IpAddr_V4 base" "cidr_valid m"
  shows "\<exists>last. broadcast m = IpAddr_V4 last \<and>
     (\<forall>ip. contains_ipv4 m ip \<longleftrightarrow> base AND mask32 (ipm_cidr m) \<le> ip \<and> ip \<le> last)"
proof -
  obtain l where l: "broadcast m = IpAddr_V4 l"
    "unat l = unat base div host_size (ipm_cidr m) * host_size (ipm_cidr m) + (host_size (ipm_cidr m) - 1)"
    using broadcast_v4[OF assms] by blast
  have c: "ipm_cidr m \<le> 32" using assms by (simp add: cidr_valid_def)
  show ?thesis
    using l contains_iff_div[OF assms] unat_and_mask32[OF c, of base]
    by (auto simp: word_le_nat_alt div_eq_iff_interval)
qed

theorem contains_is_interval_witness:
  "\<exists>last. broadcast \<lparr> ipm_address = IpAddr_V4 0x0A4D0000, ipm_cidr = 16 \<rparr> = IpAddr_V4 last \<and>
     (\<forall>ip. contains_ipv4 \<lparr> ipm_address = IpAddr_V4 0x0A4D0000, ipm_cidr = 16 \<rparr> ip \<longleftrightarrow>
        0x0A4D0000 AND mask32 16 \<le> ip \<and> ip \<le> last)"
  using contains_is_interval[of "\<lparr> ipm_address = IpAddr_V4 0x0A4D0000, ipm_cidr = 16 \<rparr>" "0x0A4D0000"]
  by (simp add: cidr_valid_def)

text \<open>
  In a subnet of at least 64 addresses whose address is the network address, the first
  address given to a user is the network address plus 51: it lies in the subnet and past the 50
  reserved addresses.
\<close>

theorem first_allocatable_past_reserved:
  assumes "ipm_address m = IpAddr_V4 base" "ipm_cidr m \<le> 26" "base AND mask32 (ipm_cidr m) = base"
  shows "first_allocatable_ipv4 m = Some (base + 51) \<and> contains_ipv4 m (base + 51)
     \<and> unat (base + 51) = unat base + 51"
proof -
  have c: "ipm_cidr m \<le> 32" using assms(2) by (rule order_trans) simp
  have "6 \<le> 32 - unat (ipm_cidr m)" using assms(2) by (simp add: word_le_nat_alt)
  then have "(2 :: nat) ^ 6 \<le> host_size (ipm_cidr m)"
    unfolding host_size_def by (intro power_increasing) simp_all
  then have "unat (51 :: 32 word) < host_size (ipm_cidr m)" by simp
  note * = contains_offset[OF assms(1) c assms(3) this]
  then have "unat base + 51 < 2 ^ 32"
    using unsigned_less[of "base + 51", where 'a = nat] by simp
  then show ?thesis
    using * assms(1)
    by (simp add: first_allocatable_ipv4_def as_ipv4_def checked_add32_unat RESERVED_PREFIX_def)
qed

theorem first_allocatable_past_reserved_witness:
  "first_allocatable_ipv4 \<lparr> ipm_address = IpAddr_V4 0x0A4D0000, ipm_cidr = 16 \<rparr> = Some (0x0A4D0000 + 51)"
proof -
  have "0x0A4D0000 AND mask32 16 = (0x0A4D0000 :: 32 word)" by code_simp
  then show ?thesis
    using first_allocatable_past_reserved[of "\<lparr> ipm_address = IpAddr_V4 0x0A4D0000, ipm_cidr = 16 \<rparr>" "0x0A4D0000"]
    by simp
qed

text \<open>
  In a smaller subnet (27 to 30 bits) the fallback gives out the network address plus 2,
  which is one of the reserved addresses.
\<close>

theorem first_allocatable_small_reserved:
  assumes "ipm_address m = IpAddr_V4 base" "27 \<le> ipm_cidr m" "ipm_cidr m \<le> 30"
    and "base AND mask32 (ipm_cidr m) = base" "unat base + 51 < 2 ^ 32"
  shows "first_allocatable_ipv4 m = Some (base + 2) \<and> uint (2 :: 32 word) \<le> uint RESERVED_PREFIX"
proof -
  let ?h = "host_size (ipm_cidr m)"
  have c: "ipm_cidr m \<le> 32" using assms(3) by (rule order_trans) simp
  have v: "cidr_valid m" using assms(1) c by (simp add: cidr_valid_def)
  have k: "2 \<le> 32 - unat (ipm_cidr m)" "32 - unat (ipm_cidr m) \<le> 5"
    using assms(2,3) by (simp_all add: word_le_nat_alt)
  have "(2 :: nat) ^ 2 \<le> ?h" and "?h \<le> 2 ^ 5"
    unfolding host_size_def using k by (intro power_increasing; simp)+
  then have h: "4 \<le> ?h" "?h \<le> 32" by simp_all
  then have "unat (2 :: 32 word) < ?h" by simp
  note two = contains_offset[OF assms(1) c assms(4) this]
  have b: "unat base = unat base div ?h * ?h" using unat_and_mask32[OF c, of base] assms(4) by simp
  have s: "unat (base + 51) = unat base + 51" using assms(5) by (simp add: unat_word_ariths)
  have far: "\<not> contains_ipv4 m (base + 51)"
    using contains_iff_div[OF assms(1) v, of "base + 51"] s b h
      div_eq_iff_interval[of ?h "unat base + 51" "unat base"] by simp
  have one: "increment_ipv4 base = Some (base + 1)" "unat (base + 1) = unat base + 1"
    using assms(5) by (simp_all add: increment_ipv4_def checked_add32_unat unat_word_ariths)
  have "increment_ipv4 (base + 1) = Some (base + 2)"
    using assms(5) one(2) by (simp add: increment_ipv4_def checked_add32_unat)
  then show ?thesis
    using far two one assms(1,5)
    by (simp add: first_allocatable_ipv4_def as_ipv4_def checked_add32_unat RESERVED_PREFIX_def
        first_peer_ip_def first_ipv4_def)
qed

theorem first_allocatable_small_reserved_witness:
  "first_allocatable_ipv4 \<lparr> ipm_address = IpAddr_V4 0x0A4D0000, ipm_cidr = 28 \<rparr> = Some (0x0A4D0000 + 2)"
proof -
  have "0x0A4D0000 AND mask32 28 = (0x0A4D0000 :: 32 word)" by code_simp
  then show ?thesis
    using first_allocatable_small_reserved[of "\<lparr> ipm_address = IpAddr_V4 0x0A4D0000, ipm_cidr = 28 \<rparr>" "0x0A4D0000"]
    by simp
qed

lemma from_str_cidr_valid: "ip_mask_from_str parse_ip parse_u8 s = Some m \<Longrightarrow> cidr_valid m"
  by (auto simp: ip_mask_from_str_def cidr_valid_def not_less split: option.splits prod.splits ip_addr.splits
      if_splits)

lemma mask32_alias_all:
  "list_all (\<lambda>n. shl_max32 (32 - word_of_nat n) = shl_max32 (32 - (word_of_nat n - 32))) [33..<64]"
  by code_simp

lemma mask32_alias:
  assumes "32 < c" "c < 64"
  shows "mask32 c = mask32 (c - 32)"
proof -
  have n: "33 \<le> unat c" "unat c < 64" using assms by (simp_all add: word_less_nat_alt)
  then have "unat c \<in> set [33..<64]" unfolding set_upt atLeastLessThan_iff by blast
  then have "shl_max32 (32 - word_of_nat (unat c)) = shl_max32 (32 - (word_of_nat (unat c) - 32))"
    using mask32_alias_all unfolding list_all_iff by (rule bspec[rotated])
  moreover have "c \<noteq> 0" "c - 32 \<noteq> 0" using assms by auto
  ultimately show ?thesis by (simp add: mask32_def)
qed

text \<open>
  The textual form of a subnet is checked, the JSON object form is not: a prefix length
  between 33 and 63 is accepted there and then denotes the much larger subnet whose prefix is 32
  bits shorter.
\<close>

theorem json_cidr_aliases_larger_subnet:
  assumes "32 < c" "c < 64"
  shows "\<exists>m. ip_mask_visit_map (Some (IpAddr_V4 base)) (Some c) = Inr m \<and> \<not> cidr_valid m
    \<and> (\<forall>ip. contains_ipv4 m ip = contains_ipv4 \<lparr> ipm_address = IpAddr_V4 base, ipm_cidr = c - 32 \<rparr> ip)"
  using assms mask32_alias[OF assms]
  by (simp add: ip_mask_visit_map_def cidr_valid_def contains_ipv4_def not_le)

theorem json_cidr_aliases_larger_subnet_witness:
  "\<exists>m. ip_mask_visit_map (Some (IpAddr_V4 0x0A000000)) (Some 40) = Inr m \<and> \<not> cidr_valid m
    \<and> (\<forall>ip. contains_ipv4 m ip = contains_ipv4 \<lparr> ipm_address = IpAddr_V4 0x0A000000, ipm_cidr = 8 \<rparr> ip)"
  using json_cidr_aliases_larger_subnet[of 40 "0x0A000000"] by simp

end
