(* ===== verification/Connection_Model.thy ===== *)
theory Connection_Model
  imports Env_Tag Wg_Addr
begin

text \<open>
  Connections (\<^verbatim>\<open>src/memory/connection/\<close>), the messages that announce them on the bus
  (\<^verbatim>\<open>src/zmq/message.rs\<close>) and the collection that holds them
  (\<^verbatim>\<open>src/memory/storage/connection.rs\<close>). The agents store a \<open>Base\<close>, the api a \<open>Conn\<close>, which is
  a \<open>Base\<close> with an environment: \<open>conn\<close> extends the record \<open>base_conn\<close>, and the operations of
  the shared trait are defined once on the extensible record.
\<close>

section \<open>Protocols\<close>

datatype proto =
    Proto_Wireguard wg_param
  | Proto_AmneziaWg wg_param
  | Proto_Shadowsocks string
  | Proto_Xray tag
  | Proto_Hysteria2 uuid
  | Proto_Mtproto string
  | Proto_AmneziaWgMobile wg_param

fun proto_tag :: "proto \<Rightarrow> tag" where
  "proto_tag (Proto_Wireguard _) = Tag_Wireguard"
| "proto_tag (Proto_AmneziaWg _) = Tag_AmneziaWg"
| "proto_tag (Proto_AmneziaWgMobile _) = Tag_AmneziaWgMobile"
| "proto_tag (Proto_Shadowsocks _) = Tag_Shadowsocks"
| "proto_tag (Proto_Hysteria2 _) = Tag_Hysteria2"
| "proto_tag (Proto_Xray tag) = tag"
| "proto_tag (Proto_Mtproto _) = Tag_Mtproto"

fun proto_token :: "proto \<Rightarrow> uuid option" where
  "proto_token (Proto_Hysteria2 token) = Some token"
| "proto_token _ = None"

fun proto_password :: "proto \<Rightarrow> string option" where
  "proto_password (Proto_Shadowsocks password) = Some password"
| "proto_password _ = None"

fun proto_wireguard :: "proto \<Rightarrow> wg_param option" where
  "proto_wireguard (Proto_Wireguard param) = Some param"
| "proto_wireguard _ = None"

fun proto_amneziawg :: "proto \<Rightarrow> wg_param option" where
  "proto_amneziawg (Proto_AmneziaWg param) = Some param"
| "proto_amneziawg (Proto_AmneziaWgMobile param) = Some param"
| "proto_amneziawg _ = None"

fun is_mtproto :: "proto \<Rightarrow> bool" where
  "is_mtproto (Proto_Mtproto _) = True"
| "is_mtproto _ = False"

section \<open>Connections\<close>

record base_conn =
  c_created_at :: datetime
  c_modified_at :: datetime
  c_expires_at :: "datetime option"
  c_proto :: proto
  c_subscription_id :: "uuid option"
  c_is_deleted :: bool

record conn = base_conn +
  c_env :: env

definition base_new :: "datetime \<Rightarrow> proto \<Rightarrow> datetime option \<Rightarrow> uuid option \<Rightarrow> base_conn" where
  "base_new now proto expires_at sid =
    \<lparr> c_created_at = now, c_modified_at = now, c_expires_at = expires_at, c_proto = proto,
      c_subscription_id = sid, c_is_deleted = False \<rparr>"

definition base_of_conn :: "conn \<Rightarrow> base_conn" where
  "base_of_conn c =
    \<lparr> c_created_at = c_created_at c, c_modified_at = c_modified_at c, c_expires_at = c_expires_at c,
      c_proto = c_proto c, c_subscription_id = c_subscription_id c, c_is_deleted = c_is_deleted c \<rparr>"

definition conn_new :: "datetime \<Rightarrow> env \<Rightarrow> uuid option \<Rightarrow> proto \<Rightarrow> datetime option \<Rightarrow> conn" where
  "conn_new now env subscription_id proto expires_at =
    \<lparr> c_created_at = now, c_modified_at = now, c_expires_at = expires_at, c_proto = proto,
      c_subscription_id = subscription_id, c_is_deleted = False, c_env = env \<rparr>"

text \<open>\<open>impl PartialEq for Conn\<close> ignores the three dates.\<close>

definition conn_eq :: "conn \<Rightarrow> conn \<Rightarrow> bool" where
  "conn_eq a b \<longleftrightarrow> c_subscription_id a = c_subscription_id b \<and> c_proto a = c_proto b
     \<and> c_is_deleted a = c_is_deleted b \<and> c_env a = c_env b"

definition set_modified_at :: "datetime \<Rightarrow> 'a base_conn_scheme \<Rightarrow> 'a base_conn_scheme" where
  "set_modified_at now c = c\<lparr>c_modified_at := now\<rparr>"

definition conn_set_expires_at :: "datetime option \<Rightarrow> 'a base_conn_scheme \<Rightarrow> 'a base_conn_scheme" where
  "conn_set_expires_at dt c = c\<lparr>c_expires_at := dt\<rparr>"

definition set_deleted :: "bool \<Rightarrow> 'a base_conn_scheme \<Rightarrow> 'a base_conn_scheme" where
  "set_deleted v c = c\<lparr>c_is_deleted := v\<rparr>"

definition set_subscription_id :: "uuid \<Rightarrow> 'a base_conn_scheme \<Rightarrow> 'a base_conn_scheme" where
  "set_subscription_id sid c = c\<lparr>c_subscription_id := Some sid\<rparr>"

definition get_password :: "'a base_conn_scheme \<Rightarrow> string option" where
  "get_password c = proto_password (c_proto c)"

definition get_token :: "'a base_conn_scheme \<Rightarrow> uuid option" where
  "get_token c = proto_token (c_proto c)"

definition get_wireguard :: "'a base_conn_scheme \<Rightarrow> wg_param option" where
  "get_wireguard c = proto_wireguard (c_proto c)"

definition get_amneziawg :: "'a base_conn_scheme \<Rightarrow> wg_param option" where
  "get_amneziawg c = proto_amneziawg (c_proto c)"

definition set_password :: "string option \<Rightarrow> 'a base_conn_scheme \<Rightarrow> error + 'a base_conn_scheme" where
  "set_password password c =
    (case (c_proto c, password) of
       (Proto_Shadowsocks _, Some new_pw) \<Rightarrow> Inr (c\<lparr>c_proto := Proto_Shadowsocks new_pw\<rparr>)
     | _ \<Rightarrow> Inl (Err_Custom ''Password update failed: not a Shadowsocks connection''))"

definition set_env :: "env \<Rightarrow> conn \<Rightarrow> conn" where
  "set_env env c = c\<lparr>c_env := env\<rparr>"

section \<open>Messages\<close>

record rkyv_datetime =
  rk_timestamp :: int
  rk_nanos :: int

definition rkyv_of_datetime :: "datetime \<Rightarrow> rkyv_datetime" where
  "rkyv_of_datetime t = \<lparr> rk_timestamp = t div nanos_per_sec, rk_nanos = t mod nanos_per_sec \<rparr>"

definition datetime_of_rkyv :: "rkyv_datetime \<Rightarrow> datetime" where
  "datetime_of_rkyv r = rk_timestamp r * nanos_per_sec + rk_nanos r"

lemma datetime_of_rkyv_inverse [simp]: "datetime_of_rkyv (rkyv_of_datetime t) = t"
  by (simp add: datetime_of_rkyv_def rkyv_of_datetime_def)

datatype action = Act_Create | Act_Update | Act_Delete | Act_ResetStat

record message =
  msg_conn_id :: uuid
  msg_action :: action
  msg_tag :: tag
  msg_wg :: "wg_param option"
  msg_password :: "string option"
  msg_token :: "uuid option"
  msg_expires_at :: "rkyv_datetime option"
  msg_subscription_id :: "uuid option"

text \<open>The parameter of any WireGuard-family protocol.\<close>

fun proto_any_wg :: "proto \<Rightarrow> wg_param option" where
  "proto_any_wg (Proto_Wireguard param) = Some param"
| "proto_any_wg (Proto_AmneziaWg param) = Some param"
| "proto_any_wg (Proto_AmneziaWgMobile param) = Some param"
| "proto_any_wg _ = None"

definition as_create_message :: "conn \<Rightarrow> uuid \<Rightarrow> message" where
  "as_create_message c conn_id =
    \<lparr> msg_conn_id = conn_id, msg_action = Act_Create, msg_tag = proto_tag (c_proto c),
      msg_wg = proto_any_wg (c_proto c), msg_password = proto_password (c_proto c),
      msg_token = proto_token (c_proto c),
      msg_expires_at = map_option rkyv_of_datetime (c_expires_at c),
      msg_subscription_id = c_subscription_id c \<rparr>"

definition as_update_message :: "conn \<Rightarrow> uuid \<Rightarrow> message" where
  "as_update_message c conn_id =
    \<lparr> msg_conn_id = conn_id, msg_action = Act_Update, msg_tag = proto_tag (c_proto c),
      msg_wg = proto_any_wg (c_proto c), msg_password = proto_password (c_proto c),
      msg_token = proto_token (c_proto c),
      msg_expires_at = map_option rkyv_of_datetime (c_expires_at c),
      msg_subscription_id = c_subscription_id c \<rparr>"

definition as_delete_message :: "conn \<Rightarrow> uuid \<Rightarrow> message" where
  "as_delete_message c conn_id =
    \<lparr> msg_conn_id = conn_id, msg_action = Act_Delete, msg_tag = proto_tag (c_proto c),
      msg_wg = proto_any_wg (c_proto c), msg_password = proto_password (c_proto c),
      msg_token = proto_token (c_proto c),
      msg_expires_at = map_option rkyv_of_datetime (c_expires_at c),
      msg_subscription_id = c_subscription_id c \<rparr>"

section \<open>The collection of connections\<close>

type_synonym 'a connections = "(uuid, 'a base_conn_scheme) hashmap"

definition validate_token :: "'a connections \<Rightarrow> uuid \<Rightarrow> uuid option" where
  "validate_token m token =
     map_option fst (List.find (\<lambda>(_, c). case c_proto c of Proto_Hysteria2 t \<Rightarrow> t = token | _ \<Rightarrow> False) m)"

definition conns_add :: "uuid \<Rightarrow> 'a base_conn_scheme \<Rightarrow> 'a connections \<Rightarrow> 'a connections \<times> status" where
  "conns_add conn_id new_conn m =
    (case map_of m conn_id of
       Some _ \<Rightarrow> (m, St_AlreadyExist conn_id)
     | None \<Rightarrow> (AList.update conn_id new_conn m, St_Ok conn_id))"

definition conns_remove :: "uuid \<Rightarrow> 'a connections \<Rightarrow> 'a connections \<times> (error + unit)" where
  "conns_remove conn_id m =
    (AList.delete conn_id m,
     (case map_of m conn_id of Some _ \<Rightarrow> Inr () | None \<Rightarrow> Inl (Err_Custom ''Conn not found'')))"

definition conns_get :: "'a connections \<Rightarrow> uuid \<Rightarrow> 'a base_conn_scheme option" where
  "conns_get m conn_id = map_of m conn_id"

definition none_if_empty :: "'a list \<Rightarrow> 'a list option" where
  "none_if_empty xs = (if xs = [] then None else Some xs)"

definition get_by_subscription_id :: "'a connections \<Rightarrow> uuid \<Rightarrow> (uuid \<times> 'a base_conn_scheme) list option" where
  "get_by_subscription_id m sid =
     none_if_empty (filter (\<lambda>(_, c). c_subscription_id c = Some sid) m)"

definition get_by_proto :: "'a connections \<Rightarrow> tag \<Rightarrow> (uuid \<times> 'a base_conn_scheme) list option" where
  "get_by_proto m tag = none_if_empty (filter (\<lambda>(_, c). proto_tag (c_proto c) = tag) m)"

text \<open>\<open>Iterator::max_by_key\<close>: the last element with the greatest key.\<close>

fun max_by_key :: "('a \<Rightarrow> 'b::linorder) \<Rightarrow> 'a list \<Rightarrow> 'a option" where
  "max_by_key f [] = None"
| "max_by_key f (x # xs) =
     (case max_by_key f xs of None \<Rightarrow> Some x | Some y \<Rightarrow> if f x > f y then Some x else Some y)"

definition conn_wg_param :: "'a base_conn_scheme \<Rightarrow> wg_param option" where
  "conn_wg_param c =
     (case get_wireguard c of Some p \<Rightarrow> Some p | None \<Rightarrow> get_amneziawg c)"

definition conn_addr_key :: "'a base_conn_scheme \<Rightarrow> 32 word" where
  "conn_addr_key c =
    (case conn_wg_param c of
       None \<Rightarrow> 0
     | Some wg \<Rightarrow> (case ipm_address (wg_address wg) of IpAddr_V4 ip \<Rightarrow> ip | IpAddr_V6 _ \<Rightarrow> 0))"

definition get_last_addr :: "'a connections \<Rightarrow> tag \<Rightarrow> ip_addr_mask option" where
  "get_last_addr m tag =
    (case max_by_key (\<lambda>(_, c). conn_addr_key c) (filter (\<lambda>(_, c). proto_tag (c_proto c) = tag) m) of
       None \<Rightarrow> None
     | Some (_, c) \<Rightarrow> map_option wg_address (conn_wg_param c))"

record conn_patch =
  patch_env :: "env option"
  patch_proto :: "proto option"
  patch_subscription_id :: "uuid option"
  patch_created_at :: "datetime option"
  patch_modified_at :: "datetime option"
  patch_expires_at :: "datetime option"
  patch_is_deleted :: "bool option"

text \<open>
  \<open>apply_update\<close> mutates its argument and returns a copy when something changed: the model
  returns the argument's final value next to the result.
\<close>

definition patch_field :: "'b option \<Rightarrow> ('c \<Rightarrow> 'b \<Rightarrow> bool) \<Rightarrow> ('b \<Rightarrow> 'c \<Rightarrow> 'c) \<Rightarrow> 'c \<times> bool \<Rightarrow> 'c \<times> bool" where
  "patch_field field differs upd st =
    (case field of
       None \<Rightarrow> st
     | Some v \<Rightarrow> if differs (fst st) v then (upd v (fst st), True) else st)"

definition apply_update :: "datetime \<Rightarrow> conn \<Rightarrow> conn_patch \<Rightarrow> conn \<times> conn option" where
  "apply_update now c patch =
    (if patch_is_deleted patch = None \<and> c_is_deleted c then (c, None)
     else if (case patch_proto patch of None \<Rightarrow> False | Some proto \<Rightarrow> c_proto c \<noteq> proto) then (c, None)
     else if get_password c \<noteq> None \<and> proto_tag (c_proto c) \<noteq> Tag_Shadowsocks \<and> patch_proto patch \<noteq> None
     then (c, None)
     else
       let st = patch_field (patch_is_deleted patch) (\<lambda>c v. c_is_deleted c \<noteq> v) set_deleted (c, False);
           st = patch_field (patch_env patch) (\<lambda>c v. c_env c \<noteq> v) set_env st;
           st = patch_field (patch_expires_at patch) (\<lambda>c v. c_expires_at c \<noteq> Some v)
                  (\<lambda>v. conn_set_expires_at (Some v)) st;
           st = patch_field (patch_subscription_id patch) (\<lambda>c v. c_subscription_id c \<noteq> Some v)
                  set_subscription_id st
       in if snd st then (set_modified_at now (fst st), Some (set_modified_at now (fst st)))
          else (fst st, None))"

section \<open>Contract of the collection\<close>

text \<open>
  The agents rely on this much of \<open>Connections\<close>: an insertion never overwrites, a removal touches
  its own key, and the status says which happened. \<open>entry_op\<close> is the sequence of calls an agent
  makes while it works through a batch.
\<close>

datatype ('k, 'v) entry_op = Entry_Add 'k 'v | Entry_Remove 'k

fun entry_step :: "'k \<Rightarrow> ('k, 'v) entry_op \<Rightarrow> 'v option \<Rightarrow> 'v option" where
  "entry_step k (Entry_Add k' v) x = (if k' = k \<and> x = None then Some v else x)"
| "entry_step k (Entry_Remove k') x = (if k' = k then None else x)"

locale entry_store =
  fixes wf :: "'s \<Rightarrow> bool"
    and get :: "'s \<Rightarrow> uuid \<Rightarrow> 'v option"
    and add :: "uuid \<Rightarrow> 'v \<Rightarrow> 's \<Rightarrow> 's \<times> status"
    and rm :: "uuid \<Rightarrow> 's \<Rightarrow> 's \<times> (error + unit)"
  assumes wf_add: "wf s \<Longrightarrow> wf (fst (add k v s))"
    and wf_rm: "wf s \<Longrightarrow> wf (fst (rm k s))"
    and get_add: "wf s \<Longrightarrow> get (fst (add k v s)) k' = (if k' = k \<and> get s k = None then Some v else get s k')"
    and status_add: "wf s \<Longrightarrow> snd (add k v s) = (if get s k = None then St_Ok k else St_AlreadyExist k)"
    and get_rm: "wf s \<Longrightarrow> get (fst (rm k s)) k' = (if k' = k then None else get s k')"
begin

fun run_op :: "(uuid, 'v) entry_op \<Rightarrow> 's \<Rightarrow> 's" where
  "run_op (Entry_Add k v) s = fst (add k v s)"
| "run_op (Entry_Remove k) s = fst (rm k s)"

lemma wf_run_op: "wf s \<Longrightarrow> wf (run_op op s)"
  by (cases op) (auto simp: wf_add wf_rm)

lemma wf_run_ops: "wf s \<Longrightarrow> wf (fold run_op ops s)"
  by (induction ops arbitrary: s) (auto simp: wf_run_op)

lemma get_run_op: "wf s \<Longrightarrow> get (run_op op s) k = entry_step k op (get s k)"
  by (cases op) (auto simp: get_add get_rm)

lemma get_run_ops: "wf s \<Longrightarrow> get (fold run_op ops s) k = fold (entry_step k) ops (get s k)"
  by (induction ops arbitrary: s) (auto simp: wf_run_op get_run_op)

lemma add_existing_unchanged:
  "wf s \<Longrightarrow> get s k = Some x \<Longrightarrow> get (fst (add k v s)) = get s \<and> snd (add k v s) = St_AlreadyExist k"
  by (auto simp: get_add status_add)

end

text \<open>A relation between values is kept by related sequences of calls, run twice.\<close>

definition op_rel :: "('v \<Rightarrow> 'v \<Rightarrow> bool) \<Rightarrow> ('k, 'v) entry_op \<Rightarrow> ('k, 'v) entry_op \<Rightarrow> bool" where
  "op_rel R a b =
    (case (a, b) of
       (Entry_Add k v, Entry_Add k' v') \<Rightarrow> k = k' \<and> R v v'
     | (Entry_Remove k, Entry_Remove k') \<Rightarrow> k = k'
     | _ \<Rightarrow> False)"

lemma entry_step_rel:
  "op_rel R a b \<Longrightarrow> rel_option R x y \<Longrightarrow> rel_option R (entry_step k a x) (entry_step k b y)"
  by (cases a; cases b; cases x; cases y) (auto simp: op_rel_def)

lemma fold_entry_rel:
  "list_all2 (op_rel R) as bs \<Longrightarrow> rel_option R x y \<Longrightarrow>
     rel_option R (fold (entry_step k) as x) (fold (entry_step k) bs y)"
  by (induction as bs arbitrary: x y rule: list_all2_induct) (auto intro: entry_step_rel)

lemma entry_step_Some_cases:
  "entry_step k op (Some x) = Some x \<or> (\<forall>y. entry_step k op y = None)"
  by (cases op) auto

text \<open>Either no call removes the key, and the value that is there stays, or the start is irrelevant.\<close>

lemma fold_entry_dichotomy:
  "(\<forall>x. fold (entry_step k) ops (Some x) = Some x) \<or>
   (\<forall>x y. fold (entry_step k) ops x = fold (entry_step k) ops y)"
proof (induction ops)
  case (Cons op ops)
  show ?case
  proof (cases "\<forall>y. entry_step k op y = None")
    case True
    then show ?thesis by simp
  next
    case False
    then have keep: "entry_step k op (Some x) = Some x" for x
      using entry_step_Some_cases[of k op x] by blast
    from Cons show ?thesis
      using keep by auto
  qed
qed simp

lemma fold_entry_replay:
  assumes rel: "list_all2 (op_rel R) as bs" and r: "\<And>v. R v v"
  shows "rel_option R (fold (entry_step k) as x) (fold (entry_step k) bs (fold (entry_step k) as x))"
proof (cases "fold (entry_step k) as x")
  case None
  have "rel_option R (fold (entry_step k) as x) (fold (entry_step k) bs x)"
    using rel by (rule fold_entry_rel) (simp add: option.rel_refl r)
  then have b: "fold (entry_step k) bs x = None" using None by simp
  have "fold (entry_step k) bs None = None"
    using fold_entry_dichotomy[of k bs] b by (cases x) (auto, metis)
  then show ?thesis by (simp add: None)
next
  case (Some v)
  show ?thesis
  proof (cases "\<forall>x. fold (entry_step k) bs (Some x) = Some x")
    case True
    then show ?thesis by (simp add: Some r)
  next
    case False
    then have "fold (entry_step k) bs (Some v) = fold (entry_step k) bs x"
      using fold_entry_dichotomy[of k bs] by blast
    moreover have "rel_option R (fold (entry_step k) as x) (fold (entry_step k) bs x)"
      using rel by (rule fold_entry_rel) (simp add: option.rel_refl r)
    ultimately show ?thesis by (simp add: Some)
  qed
qed

interpretation conns: entry_store "\<lambda>m. hm_wf m" conns_get conns_add conns_remove
  by unfold_locales
    (auto simp: conns_get_def conns_add_def conns_remove_def split: option.splits)

section \<open>Lookup and update lemmas\<close>

lemma max_by_key_None [simp]: "max_by_key f xs = None \<longleftrightarrow> xs = []"
  by (cases xs) (auto split: option.splits if_splits)

lemma max_by_key_Some: "max_by_key f xs = Some x \<Longrightarrow> x \<in> set xs \<and> (\<forall>y\<in>set xs. f y \<le> f x)"
proof (induction xs arbitrary: x)
  case (Cons a xs)
  show ?case
  proof (cases "max_by_key f xs")
    case None
    then show ?thesis using Cons.prems by simp
  next
    case (Some b)
    then show ?thesis
      using Cons.IH[OF Some] Cons.prems by (auto split: if_splits intro: order_trans less_imp_le)
  qed
qed simp

lemma get_last_addr_None: "get_last_addr m tag = None \<Longrightarrow> tag \<in> {Tag_Wireguard, Tag_AmneziaWg, Tag_AmneziaWgMobile}
   \<Longrightarrow> (\<And>k c. (k, c) \<in> set m \<Longrightarrow> \<forall>t. c_proto c \<noteq> Proto_Xray t) \<Longrightarrow>
   \<forall>(k, c) \<in> set m. proto_tag (c_proto c) \<noteq> tag"
proof -
  assume none: "get_last_addr m tag = None" and t: "tag \<in> {Tag_Wireguard, Tag_AmneziaWg, Tag_AmneziaWgMobile}"
    and x: "\<And>k c. (k, c) \<in> set m \<Longrightarrow> \<forall>t. c_proto c \<noteq> Proto_Xray t"
  let ?f = "filter (\<lambda>(_, c). proto_tag (c_proto c) = tag) m"
  show ?thesis
  proof (cases "max_by_key (\<lambda>(_, c). conn_addr_key c) ?f")
    case None
    then show ?thesis by (auto simp: filter_empty_conv)
  next
    case (Some kc)
    obtain k c where kc: "kc = (k, c)" by (cases kc)
    then have m: "(k, c) \<in> set m" "proto_tag (c_proto c) = tag"
      using max_by_key_Some[OF Some] by auto
    then have "conn_wg_param c \<noteq> None"
      using t x[OF m(1)] by (cases "c_proto c")
        (auto simp: conn_wg_param_def get_wireguard_def get_amneziawg_def)
    then show ?thesis using none Some kc by (simp add: get_last_addr_def)
  qed
qed

lemma get_last_addr_Some:
  assumes "get_last_addr m tag = Some a" "(k, c) \<in> set m" "proto_tag (c_proto c) = tag"
  shows "conn_addr_key c \<le> (case as_ipv4 a of Some ip \<Rightarrow> ip | None \<Rightarrow> 0)"
proof -
  let ?f = "filter (\<lambda>(_, c). proto_tag (c_proto c) = tag) m"
  obtain k' c' where mx: "max_by_key (\<lambda>(_, c). conn_addr_key c) ?f = Some (k', c')"
    using assms(1) by (auto simp: get_last_addr_def split: option.splits)
  then obtain wg where wg: "conn_wg_param c' = Some wg" "a = wg_address wg"
    using assms(1) by (auto simp: get_last_addr_def)
  have "conn_addr_key c \<le> conn_addr_key c'"
    using max_by_key_Some[OF mx] assms(2,3) by auto
  moreover have "conn_addr_key c' = (case as_ipv4 a of Some ip \<Rightarrow> ip | None \<Rightarrow> 0)"
    by (simp add: conn_addr_key_def wg as_ipv4_def split: ip_addr.splits)
  ultimately show ?thesis by simp
qed

lemma patch_field_fst:
  "fst (patch_field f d u st) =
     (case f of None \<Rightarrow> fst st | Some v \<Rightarrow> if d (fst st) v then u v (fst st) else fst st)"
  by (simp add: patch_field_def split: option.splits)

lemma patch_field_snd:
  "snd (patch_field f d u st) \<longleftrightarrow> snd st \<or> (\<exists>v. f = Some v \<and> d (fst st) v)"
  by (auto simp: patch_field_def split: option.splits)

definition patch_or :: "'b option \<Rightarrow> 'b \<Rightarrow> 'b" where
  "patch_or f d = (case f of None \<Rightarrow> d | Some v \<Rightarrow> v)"

text \<open>The connection a patch asks for, the modification date aside.\<close>

definition patched :: "conn_patch \<Rightarrow> conn \<Rightarrow> conn" where
  "patched patch c =
     c\<lparr>c_is_deleted := patch_or (patch_is_deleted patch) (c_is_deleted c),
       c_env := patch_or (patch_env patch) (c_env c),
       c_expires_at := (case patch_expires_at patch of None \<Rightarrow> c_expires_at c | Some v \<Rightarrow> Some v),
       c_subscription_id := (case patch_subscription_id patch of None \<Rightarrow> c_subscription_id c | Some v \<Rightarrow> Some v)\<rparr>"

definition patch_refused :: "conn_patch \<Rightarrow> conn \<Rightarrow> bool" where
  "patch_refused patch c \<longleftrightarrow>
     (patch_is_deleted patch = None \<and> c_is_deleted c) \<or>
     (\<exists>p. patch_proto patch = Some p \<and> p \<noteq> c_proto c)"

lemma password_is_shadowsocks: "get_password c \<noteq> None \<Longrightarrow> proto_tag (c_proto c) = Tag_Shadowsocks"
  by (cases "c_proto c") (auto simp: get_password_def)

lemmas patch_upd_defs = set_deleted_def set_env_def conn_set_expires_at_def set_subscription_id_def

text \<open>One guarded field update sets the flag exactly when it changes the connection.\<close>

lemma patch_field_eq:
  assumes "\<And>v. d c v \<longleftrightarrow> u v c \<noteq> c"
  shows "patch_field f d u (c, b) =
     (case f of None \<Rightarrow> c | Some v \<Rightarrow> u v c, b \<or> (case f of None \<Rightarrow> c | Some v \<Rightarrow> u v c) \<noteq> c)"
  using assms by (auto simp: patch_field_def split: option.splits)

lemma field_changes:
  "c_is_deleted c \<noteq> v \<longleftrightarrow> set_deleted v c \<noteq> c"
  "c_env k \<noteq> e \<longleftrightarrow> set_env e k \<noteq> k"
  "c_expires_at c \<noteq> Some x \<longleftrightarrow> conn_set_expires_at (Some x) c \<noteq> c"
  "c_subscription_id c \<noteq> Some s \<longleftrightarrow> set_subscription_id s c \<noteq> c"
     apply (cases c, simp add: set_deleted_def, blast)
    apply (cases k, simp add: set_env_def, blast)
   apply (cases c, simp add: conn_set_expires_at_def, blast)
  apply (cases c, simp add: set_subscription_id_def, blast)
  done

lemma apply_update_accepted:
  assumes "\<not> patch_refused patch c"
  shows "apply_update now c patch =
    (if patched patch c = c then (c, None)
     else (set_modified_at now (patched patch c), Some (set_modified_at now (patched patch c))))"
proof -
  have g: "\<not> (patch_is_deleted patch = None \<and> c_is_deleted c)"
    "\<not> (case patch_proto patch of None \<Rightarrow> False | Some proto \<Rightarrow> c_proto c \<noteq> proto)"
    "\<not> (get_password c \<noteq> None \<and> proto_tag (c_proto c) \<noteq> Tag_Shadowsocks \<and> patch_proto patch \<noteq> None)"
    using assms password_is_shadowsocks[of c] by (auto simp: patch_refused_def split: option.splits)
  define c1 where "c1 = (case patch_is_deleted patch of None \<Rightarrow> c | Some v \<Rightarrow> set_deleted v c)"
  define c2 where "c2 = (case patch_env patch of None \<Rightarrow> c1 | Some v \<Rightarrow> set_env v c1)"
  define c3 where "c3 = (case patch_expires_at patch of None \<Rightarrow> c2 | Some v \<Rightarrow> conn_set_expires_at (Some v) c2)"
  define c4 where "c4 = (case patch_subscription_id patch of None \<Rightarrow> c3 | Some v \<Rightarrow> set_subscription_id v c3)"
  have s: "patch_field (patch_is_deleted patch) (\<lambda>c v. c_is_deleted c \<noteq> v) set_deleted (c, False) = (c1, c1 \<noteq> c)"
    "patch_field (patch_env patch) (\<lambda>c v. c_env c \<noteq> v) set_env (c1, b) = (c2, b \<or> c2 \<noteq> c1)"
    "patch_field (patch_expires_at patch) (\<lambda>c v. c_expires_at c \<noteq> Some v)
       (\<lambda>v. conn_set_expires_at (Some v)) (c2, b) = (c3, b \<or> c3 \<noteq> c2)"
    "patch_field (patch_subscription_id patch) (\<lambda>c v. c_subscription_id c \<noteq> Some v)
       set_subscription_id (c3, b) = (c4, b \<or> c4 \<noteq> c3)" for b
    unfolding c1_def c2_def c3_def c4_def
    by (subst patch_field_eq, rule field_changes, simp)+
  have u: "apply_update now c patch =
     (if ((c1 \<noteq> c \<or> c2 \<noteq> c1) \<or> c3 \<noteq> c2) \<or> c4 \<noteq> c3
      then (set_modified_at now c4, Some (set_modified_at now c4)) else (c4, None))"
    unfolding apply_update_def if_not_P[OF g(1)] if_not_P[OF g(2)] if_not_P[OF g(3)] Let_def s
      fst_conv snd_conv by (rule refl)
  have p: "c4 = patched patch c"
    by (simp add: c4_def c3_def c2_def c1_def patched_def patch_or_def patch_upd_defs split: option.splits)
  have q: "c1 = c \<and> c2 = c1 \<and> c3 = c2 \<and> c4 = c3" if "c4 = c"
  proof -
    have "c_is_deleted c4 = c_is_deleted c1" "c_env c4 = c_env c2" "c_expires_at c4 = c_expires_at c3"
      by (simp_all add: c4_def c3_def c2_def patch_upd_defs split: option.splits)
    then have "c_is_deleted c1 = c_is_deleted c" "c_env c2 = c_env c" "c_expires_at c3 = c_expires_at c"
      using that by simp_all
    then have "c1 = c" by (simp add: c1_def set_deleted_def split: option.splits)
    moreover from this have "c2 = c1" using \<open>c_env c2 = c_env c\<close>
      by (simp add: c2_def set_env_def split: option.splits)
    moreover from calculation have "c3 = c2" using \<open>c_expires_at c3 = c_expires_at c\<close>
      by (simp add: c3_def conn_set_expires_at_def split: option.splits)
    ultimately show ?thesis using that by simp
  qed
  show ?thesis
    unfolding u p[symmetric] using q by auto
qed

lemma apply_update_refused: "patch_refused patch c \<Longrightarrow> apply_update now c patch = (c, None)"
  by (auto simp: apply_update_def patch_refused_def)

section \<open>Properties\<close>

text \<open>
  An update of a connection never changes its protocol or creation date. It is refused
  when the connection is deleted and the patch does not say otherwise, or when the patch names
  another protocol; then, and when the patch asks for nothing new, the connection stays as it is
  and nothing is reported. Otherwise the reported connection is the stored one, with exactly the
  patched fields and a new modification date.
\<close>

theorem apply_update_effect:
  "apply_update now c patch =
     (if patch_refused patch c \<or> patched patch c = c then (c, None)
      else (set_modified_at now (patched patch c), Some (set_modified_at now (patched patch c))))
   \<and> c_proto (fst (apply_update now c patch)) = c_proto c
   \<and> c_created_at (fst (apply_update now c patch)) = c_created_at c"
proof -
  have e: "apply_update now c patch =
     (if patch_refused patch c \<or> patched patch c = c then (c, None)
      else (set_modified_at now (patched patch c), Some (set_modified_at now (patched patch c))))"
    using apply_update_accepted[of patch c now] apply_update_refused[of patch c now]
    by (cases "patch_refused patch c") simp_all
  show ?thesis
    unfolding e by (auto simp: set_modified_at_def patched_def)
qed

text \<open>
  The address that \<open>get_last_addr\<close> reports is the greatest among the connections of its
  tag: no connection of that tag, deleted ones included, has a greater IPv4 address.
\<close>

theorem get_last_addr_greatest:
  assumes "get_last_addr m tag = Some a" "(k, c) \<in> set m" "proto_tag (c_proto c) = tag"
  shows "conn_addr_key c \<le> (case as_ipv4 a of Some ip \<Rightarrow> ip | None \<Rightarrow> 0)"
  using assms by (rule get_last_addr_Some)

definition sample_wg :: "32 word \<Rightarrow> conn" where
  "sample_wg ip = conn_new 0 Env_Dev None
     (Proto_Wireguard \<lparr> wg_keys = \<lparr> privkey = ''k'' \<rparr>,
        wg_address = \<lparr> ipm_address = IpAddr_V4 ip, ipm_cidr = 32 \<rparr> \<rparr>) None"

theorem get_last_addr_greatest_witness:
  "conn_addr_key (sample_wg 7) \<le> (9 :: 32 word)"
  using get_last_addr_greatest[of "[(1, sample_wg 7), (2, sample_wg 9)]" Tag_Wireguard
      "\<lparr> ipm_address = IpAddr_V4 9, ipm_cidr = 32 \<rparr>" 1 "sample_wg 7"]
  by (simp add: sample_wg_def conn_new_def get_last_addr_def conn_addr_key_def conn_wg_param_def
      get_wireguard_def as_ipv4_def)

end
