(* ===== verification/Agents.thy ===== *)
theory Agents
  imports Connection_Model
begin

text \<open>
  The two agents that follow the api over the bus: the auth service (\<^verbatim>\<open>src/bin/auth/tasks.rs\<close>,
  \<^verbatim>\<open>handlers.rs\<close>) and the node (\<^verbatim>\<open>src/bin/node/tasks.rs\<close>, \<^verbatim>\<open>snapshot_sync.rs\<close>), built with all
  protocol features. The WireGuard, AmneziaWG and Xray back ends are functions on an abstract
  world, given by the record \<open>node_clients\<close>. The futures of a batch are run in list order and the
  first error drops the rest, which is what \<open>try_join_all\<close> does when no lock is contended.
\<close>

section \<open>Topic filters\<close>

fun auth_accepts :: "uuid \<Rightarrow> topic \<Rightarrow> bool" where
  "auth_accepts node_uuid Topic_Auth = True"
| "auth_accepts node_uuid Topic_Metrics = False"
| "auth_accepts node_uuid (Topic_Updates _) = False"
| "auth_accepts node_uuid (Topic_Init u) = (u = node_uuid)"
| "auth_accepts node_uuid Topic_Entries = True"

fun node_accepts :: "uuid \<Rightarrow> env \<Rightarrow> topic \<Rightarrow> bool" where
  "node_accepts node_uuid node_env Topic_Auth = False"
| "node_accepts node_uuid node_env Topic_Metrics = False"
| "node_accepts node_uuid node_env (Topic_Init u) = (u = node_uuid)"
| "node_accepts node_uuid node_env (Topic_Updates env) = (env = node_env)"
| "node_accepts node_uuid node_env Topic_Entries = True"

section \<open>The auth service\<close>

type_synonym base_conns = "(uuid, base_conn) hashmap"

definition message_base :: "datetime \<Rightarrow> proto \<Rightarrow> message \<Rightarrow> base_conn" where
  "message_base now proto msg =
     base_new now proto (map_option datetime_of_rkyv (msg_expires_at msg)) (msg_subscription_id msg)"

fun auth_handle_message :: "datetime \<Rightarrow> message \<Rightarrow> base_conns \<Rightarrow> base_conns" where
  "auth_handle_message now msg mem =
    (case msg_action msg of
       Act_Create \<Rightarrow>
         (case msg_token msg of
            Some token \<Rightarrow> fst (conns_add (msg_conn_id msg) (message_base now (Proto_Hysteria2 token) msg) mem)
          | None \<Rightarrow> mem)
     | Act_Update \<Rightarrow>
         (case msg_token msg of
            Some token \<Rightarrow> fst (conns_add (msg_conn_id msg) (message_base now (Proto_Hysteria2 token) msg) mem)
          | None \<Rightarrow> mem)
     | Act_Delete \<Rightarrow> fst (conns_remove (msg_conn_id msg) mem)
     | Act_ResetStat \<Rightarrow> mem)"

definition auth_handle_messages_batch :: "datetime \<Rightarrow> message list \<Rightarrow> base_conns \<Rightarrow> base_conns" where
  "auth_handle_messages_batch now messages mem = fold (auth_handle_message now) messages mem"

definition auth_handler :: "base_conns \<Rightarrow> uuid \<Rightarrow> bool \<times> uuid option" where
  "auth_handler mem auth =
    (case validate_token mem auth of Some i \<Rightarrow> (True, Some i) | None \<Rightarrow> (False, None))"

section \<open>Full-sync bookkeeping of a node\<close>

record full_sync_state =
  fs_seen :: "uuid set"
  fs_expected :: "nat option"

type_synonym full_sync_tracker = "(tag, full_sync_state) hashmap"

definition full_sync_default :: full_sync_state where
  "full_sync_default = \<lparr> fs_seen = {}, fs_expected = None \<rparr>"

definition fs_arm :: "tag \<Rightarrow> full_sync_tracker \<Rightarrow> full_sync_tracker" where
  "fs_arm tag st = AList.update tag full_sync_default st"

definition fs_cancel :: "tag \<Rightarrow> full_sync_tracker \<Rightarrow> full_sync_tracker" where
  "fs_cancel tag st = AList.delete tag st"

definition fs_pending_tags :: "full_sync_tracker \<Rightarrow> tag set" where
  "fs_pending_tags st = set (map fst st)"

definition fs_record :: "tag \<Rightarrow> uuid \<Rightarrow> full_sync_tracker \<Rightarrow> full_sync_tracker" where
  "fs_record tag conn_id st =
    (case map_of st tag of
       None \<Rightarrow> st
     | Some s \<Rightarrow> AList.update tag (s\<lparr>fs_seen := insert conn_id (fs_seen s)\<rparr>) st)"

definition fs_finish :: "tag \<Rightarrow> nat \<Rightarrow> full_sync_tracker \<Rightarrow> full_sync_tracker \<times> uuid set option" where
  "fs_finish tag expected st =
    (case map_of st tag of
       None \<Rightarrow> (st, None)
     | Some s \<Rightarrow>
         if card (fs_seen s) \<ge> expected then (AList.delete tag st, Some (fs_seen s))
         else (AList.update tag (s\<lparr>fs_expected := Some expected\<rparr>) st, None))"

definition fs_is_ready :: "full_sync_state \<Rightarrow> bool" where
  "fs_is_ready s = (case fs_expected s of None \<Rightarrow> False | Some e \<Rightarrow> card (fs_seen s) \<ge> e)"

definition fs_take_ready :: "full_sync_tracker \<Rightarrow> full_sync_tracker \<times> (tag \<times> uuid set) list" where
  "fs_take_ready st =
    (let ready = filter (\<lambda>(_, s). fs_is_ready s) st
     in (fold AList.delete (map fst ready) st, map (\<lambda>(tag, s). (tag, fs_seen s)) ready))"

section \<open>The node\<close>

text \<open>
  Back ends. \<open>wg_*\<close> and \<open>awg_*\<close> act on the interface, \<open>xray_*\<close> on the Xray handler; each call
  returns the new world and a result. \<open>stats_reset\<close> resets the counters of one connection. The
  text that \<open>map_err\<close> wraps around an error of a back end is not kept. \<open>pubkey\<close> is \<open>Keys::pubkey\<close>, \<open>decode_pubkey\<close> the base64
  decoding of the AmneziaWG wrapper.
\<close>

record 'w wg_api =
  wg_is_exist :: "string \<Rightarrow> 'w \<Rightarrow> bool"
  wg_create :: "string \<Rightarrow> ip_addr_mask \<Rightarrow> 'w \<Rightarrow> 'w \<times> (error + unit)"
  wg_delete :: "string \<Rightarrow> 'w \<Rightarrow> 'w \<times> (error + unit)"

record 'w awg_api =
  awg_peers :: "'w \<Rightarrow> error + 8 word list list"
  awg_add_peer :: "8 word list \<Rightarrow> ip_addr_mask \<Rightarrow> 'w \<Rightarrow> 'w \<times> (error + unit)"
  awg_remove_peer :: "8 word list \<Rightarrow> 'w \<Rightarrow> 'w \<times> (error + unit)"

record 'w xray_api =
  xray_create :: "uuid \<Rightarrow> tag \<Rightarrow> string option \<Rightarrow> 'w \<Rightarrow> 'w \<times> (error + unit)"
  xray_remove :: "uuid \<Rightarrow> tag \<Rightarrow> string option \<Rightarrow> 'w \<Rightarrow> 'w \<times> (error + unit)"

record 'w node_clients =
  wg_client :: "'w wg_api option"
  awg_client :: "'w awg_api option"
  awg_mobile_client :: "'w awg_api option"
  handler_client :: "'w xray_api option"
  stats_reset :: "(uuid \<Rightarrow> 'w \<Rightarrow> 'w) option"
  pubkey :: "wg_keys \<Rightarrow> error + string"
  decode_pubkey :: "string \<Rightarrow> error + 8 word list"

record 'w node_state =
  nd_memory :: base_conns
  nd_world :: 'w
  nd_full_sync :: full_sync_tracker

definition nd_add :: "uuid \<Rightarrow> base_conn \<Rightarrow> 'w node_state \<Rightarrow> 'w node_state" where
  "nd_add conn_id c st = st\<lparr>nd_memory := fst (conns_add conn_id c (nd_memory st))\<rparr>"

definition nd_remove :: "uuid \<Rightarrow> 'w node_state \<Rightarrow> 'w node_state" where
  "nd_remove conn_id st = st\<lparr>nd_memory := fst (conns_remove conn_id (nd_memory st))\<rparr>"

definition select_awg :: "'w node_clients \<Rightarrow> tag \<Rightarrow> 'w awg_api option" where
  "select_awg cl tag = (if tag = Tag_AmneziaWgMobile then awg_mobile_client cl else awg_client cl)"

text \<open>Run a back-end call; on success continue with the new state, on failure report.\<close>

definition on_world ::
  "('w \<Rightarrow> 'w \<times> (error + unit)) \<Rightarrow> ('w node_state \<Rightarrow> 'w node_state) \<Rightarrow> 'w node_state \<Rightarrow> 'w node_state \<times> (error + unit)" where
  "on_world call k st =
    (case call (nd_world st) of
       (w, Inl e) \<Rightarrow> (st\<lparr>nd_world := w\<rparr>, Inl e)
     | (w, Inr _) \<Rightarrow> (k (st\<lparr>nd_world := w\<rparr>), Inr ()))"

definition handle_create_awg ::
  "'w node_clients \<Rightarrow> datetime \<Rightarrow> message \<Rightarrow> 'w node_state \<Rightarrow> 'w node_state \<times> (error + unit)" where
  "handle_create_awg cl now msg st =
    (case msg_wg msg of
       None \<Rightarrow> (st, Inl (Err_Custom ''Missing Amnezia WireGuard keys''))
     | Some awg \<Rightarrow>
         let proto = (if msg_tag msg = Tag_AmneziaWgMobile then Proto_AmneziaWgMobile awg
                      else Proto_AmneziaWg awg);
             st = nd_add (msg_conn_id msg) (message_base now proto msg) st
         in case select_awg cl (msg_tag msg) of
              None \<Rightarrow> (st, Inl (Err_Custom ''Amnezia WireGuard API is unavailable''))
            | Some api \<Rightarrow>
                (case pubkey cl (wg_keys awg) of
                   Inl e \<Rightarrow> (st, Inl e)
                 | Inr pk \<Rightarrow>
                     (case decode_pubkey cl pk of
                        Inl e \<Rightarrow> (st, Inl e)
                      | Inr pkb \<Rightarrow>
                          (case awg_peers api (nd_world st) of
                             Inl e \<Rightarrow> (st, Inl e)
                           | Inr peers \<Rightarrow>
                               if pkb \<in> set peers then (st, Inl (Err_Custom ''AWG user already exists''))
                               else on_world (awg_add_peer api pkb (wg_address awg)) (\<lambda>s. s) st))))"

definition handle_create_wg ::
  "'w node_clients \<Rightarrow> datetime \<Rightarrow> message \<Rightarrow> 'w node_state \<Rightarrow> 'w node_state \<times> (error + unit)" where
  "handle_create_wg cl now msg st =
    (case msg_wg msg of
       None \<Rightarrow> (st, Inl (Err_Custom ''Missing WireGuard keys''))
     | Some wg \<Rightarrow>
         let st = nd_add (msg_conn_id msg) (message_base now (Proto_Wireguard wg) msg) st
         in case wg_client cl of
              None \<Rightarrow> (st, Inl (Err_Custom ''WireGuard API is unavailable''))
            | Some api \<Rightarrow>
                (case pubkey cl (wg_keys wg) of
                   Inl _ \<Rightarrow> (st, Inr ())
                 | Inr pk \<Rightarrow>
                     if wg_is_exist api pk (nd_world st) then (st, Inl (Err_Custom ''WG User already exist''))
                     else on_world (wg_create api pk (wg_address wg)) (\<lambda>s. s) st))"

definition handle_create_xray ::
  "'w node_clients \<Rightarrow> datetime \<Rightarrow> message \<Rightarrow> 'w node_state \<Rightarrow> 'w node_state \<times> (error + unit)" where
  "handle_create_xray cl now msg st =
    (case handler_client cl of
       None \<Rightarrow> (st, Inl (Err_Custom ''Xray handler unavailable''))
     | Some client \<Rightarrow>
         on_world (xray_create client (msg_conn_id msg) (msg_tag msg) None)
           (nd_add (msg_conn_id msg) (message_base now (Proto_Xray (msg_tag msg)) msg)) st)"

definition handle_create_ss ::
  "'w node_clients \<Rightarrow> datetime \<Rightarrow> message \<Rightarrow> 'w node_state \<Rightarrow> 'w node_state \<times> (error + unit)" where
  "handle_create_ss cl now msg st =
    (case msg_password msg of
       None \<Rightarrow> (st, Inl (Err_Custom ''Password not provided for Shadowsocks user''))
     | Some password \<Rightarrow>
         (case handler_client cl of
            None \<Rightarrow> (st, Inl (Err_Custom ''Xray handler unavailable''))
          | Some client \<Rightarrow>
              on_world (xray_create client (msg_conn_id msg) (msg_tag msg) (Some password))
                (nd_add (msg_conn_id msg) (message_base now (Proto_Shadowsocks password) msg)) st))"

definition not_supported :: error where
  "not_supported = Err_Custom ''Is not supported, or built without support the proto''"

fun handle_create ::
  "'w node_clients \<Rightarrow> datetime \<Rightarrow> message \<Rightarrow> 'w node_state \<Rightarrow> 'w node_state \<times> (error + unit)" where
  "handle_create cl now msg st =
    (case msg_tag msg of
       Tag_AmneziaWg \<Rightarrow> handle_create_awg cl now msg st
     | Tag_AmneziaWgMobile \<Rightarrow> handle_create_awg cl now msg st
     | Tag_Wireguard \<Rightarrow> handle_create_wg cl now msg st
     | Tag_VlessTcpReality \<Rightarrow> handle_create_xray cl now msg st
     | Tag_VlessGrpcReality \<Rightarrow> handle_create_xray cl now msg st
     | Tag_VlessXhttpReality \<Rightarrow> handle_create_xray cl now msg st
     | Tag_VlessXhttpCdn \<Rightarrow> handle_create_xray cl now msg st
     | Tag_Vmess \<Rightarrow> handle_create_xray cl now msg st
     | Tag_Shadowsocks \<Rightarrow> handle_create_ss cl now msg st
     | Tag_Hysteria2 \<Rightarrow> (st, Inl not_supported)
     | Tag_Mtproto \<Rightarrow> (st, Inl not_supported))"

definition handle_delete_awg ::
  "'w node_clients \<Rightarrow> message \<Rightarrow> 'w node_state \<Rightarrow> 'w node_state \<times> (error + unit)" where
  "handle_delete_awg cl msg st =
    (case select_awg cl (msg_tag msg) of
       None \<Rightarrow> (st, Inl (Err_Custom ''AWG API is unavailable''))
     | Some api \<Rightarrow>
         (case msg_wg msg of
            None \<Rightarrow> (st, Inl (Err_Custom ''Missing AWG keys in message''))
          | Some wg \<Rightarrow>
              (case pubkey cl (wg_keys wg) of
                 Inl e \<Rightarrow> (st, Inl e)
               | Inr pk \<Rightarrow>
                   (case decode_pubkey cl pk of
                      Inl e \<Rightarrow> (st, Inl e)
                    | Inr pkb \<Rightarrow> on_world (awg_remove_peer api pkb) (nd_remove (msg_conn_id msg)) st))))"

definition handle_delete_wg ::
  "'w node_clients \<Rightarrow> message \<Rightarrow> 'w node_state \<Rightarrow> 'w node_state \<times> (error + unit)" where
  "handle_delete_wg cl msg st =
    (case wg_client cl of
       None \<Rightarrow> (st, Inl (Err_Custom ''WireGuard API is unavailable''))
     | Some api \<Rightarrow>
         (case msg_wg msg of
            None \<Rightarrow> (st, Inl (Err_Custom ''Missing WireGuard keys in message''))
          | Some wg \<Rightarrow>
              (case pubkey cl (wg_keys wg) of
                 Inl e \<Rightarrow> (st, Inl e)
               | Inr pk \<Rightarrow> on_world (wg_delete api pk) (nd_remove (msg_conn_id msg)) st)))"

definition handle_delete_xray ::
  "'w node_clients \<Rightarrow> message \<Rightarrow> 'w node_state \<Rightarrow> 'w node_state \<times> (error + unit)" where
  "handle_delete_xray cl msg st =
    (case handler_client cl of
       None \<Rightarrow> (st, Inl (Err_Custom ''Xray handler unavailable''))
     | Some client \<Rightarrow>
         on_world (xray_remove client (msg_conn_id msg) (msg_tag msg) (msg_password msg))
           (nd_remove (msg_conn_id msg)) st)"

fun handle_delete :: "'w node_clients \<Rightarrow> message \<Rightarrow> 'w node_state \<Rightarrow> 'w node_state \<times> (error + unit)" where
  "handle_delete cl msg st =
    (case msg_tag msg of
       Tag_AmneziaWg \<Rightarrow> handle_delete_awg cl msg st
     | Tag_AmneziaWgMobile \<Rightarrow> handle_delete_awg cl msg st
     | Tag_Wireguard \<Rightarrow> handle_delete_wg cl msg st
     | Tag_Hysteria2 \<Rightarrow> (st, Inl not_supported)
     | Tag_Mtproto \<Rightarrow> (st, Inl not_supported)
     | _ \<Rightarrow> handle_delete_xray cl msg st)"

definition handle_message ::
  "'w node_clients \<Rightarrow> datetime \<Rightarrow> message \<Rightarrow> 'w node_state \<Rightarrow> 'w node_state \<times> (error + unit)" where
  "handle_message cl now msg st =
    (case msg_action msg of
       Act_Create \<Rightarrow> handle_create cl now msg st
     | Act_Update \<Rightarrow> handle_create cl now msg st
     | Act_Delete \<Rightarrow> handle_delete cl msg st
     | Act_ResetStat \<Rightarrow>
         (case stats_reset cl of
            None \<Rightarrow> (st, Inr ())
          | Some reset \<Rightarrow> (st\<lparr>nd_world := reset (msg_conn_id msg) (nd_world st)\<rparr>, Inr ())))"

text \<open>\<open>try_join_all\<close>.\<close>

fun handle_all ::
  "'w node_clients \<Rightarrow> datetime \<Rightarrow> message list \<Rightarrow> 'w node_state \<Rightarrow> 'w node_state \<times> (error + unit)" where
  "handle_all cl now [] st = (st, Inr ())"
| "handle_all cl now (msg # msgs) st =
    (case handle_message cl now msg st of
       (st', Inl e) \<Rightarrow> (st', Inl e)
     | (st', Inr _) \<Rightarrow> handle_all cl now msgs st')"

text \<open>Delete messages are built from the stored connection for the tag that is pruned.\<close>

definition prune_message :: "tag \<Rightarrow> uuid \<times> base_conn \<Rightarrow> message" where
  "prune_message tag kc =
    (let c = snd kc in
     \<lparr> msg_conn_id = fst kc, msg_action = Act_Delete, msg_tag = tag,
       msg_wg = (if tag = Tag_Wireguard then get_wireguard c else get_amneziawg c),
       msg_password = get_password c, msg_token = get_token c,
       msg_expires_at = map_option rkyv_of_datetime (c_expires_at c),
       msg_subscription_id = c_subscription_id c \<rparr>)"

definition prune_stale :: "tag \<Rightarrow> uuid set \<Rightarrow> base_conns \<Rightarrow> message list" where
  "prune_stale tag keep mem =
     map (prune_message tag) (filter (\<lambda>(k, c). proto_tag (c_proto c) = tag \<and> k \<notin> keep) mem)"

fun prune_run ::
  "'w node_clients \<Rightarrow> datetime \<Rightarrow> message list \<Rightarrow> 'w node_state \<times> nat \<Rightarrow> 'w node_state \<times> nat" where
  "prune_run cl now [] acc = acc"
| "prune_run cl now (msg # msgs) (st, removed) =
    (case handle_message cl now msg st of
       (st', Inr _) \<Rightarrow> prune_run cl now msgs (st', removed + 1)
     | (st', Inl _) \<Rightarrow> prune_run cl now msgs (st', removed))"

definition prune_tag ::
  "'w node_clients \<Rightarrow> datetime \<Rightarrow> tag \<Rightarrow> uuid set \<Rightarrow> 'w node_state \<Rightarrow> 'w node_state \<times> nat" where
  "prune_tag cl now tag keep st = prune_run cl now (prune_stale tag keep (nd_memory st)) (st, 0)"

text \<open>
  The split of a batch: creations of connections that are already in memory while a full sync of
  their tag is pending are only tracked.
\<close>

fun split_batch ::
  "tag set \<Rightarrow> (tag \<times> uuid) set \<Rightarrow> message list \<Rightarrow> message list \<times> (tag \<times> uuid) list" where
  "split_batch full_tags existing [] = ([], [])"
| "split_batch full_tags existing (msg # msgs) =
    (let (to_apply, tracked) = split_batch full_tags existing msgs;
         entry = (msg_tag msg, msg_conn_id msg)
     in if msg_action msg = Act_Create \<or> msg_action msg = Act_Update then
          if msg_action msg = Act_Create \<and> msg_tag msg \<in> full_tags \<and> entry \<in> existing
          then (to_apply, entry # tracked)
          else (msg # to_apply, entry # tracked)
        else (msg # to_apply, tracked))"

definition node_handle_messages_batch ::
  "'w node_clients \<Rightarrow> datetime \<Rightarrow> message list \<Rightarrow> 'w node_state \<Rightarrow> 'w node_state \<times> (error + unit)" where
  "node_handle_messages_batch cl now messages st =
    (let full_tags = fs_pending_tags (nd_full_sync st);
         existing = set (map (\<lambda>(k, c). (proto_tag (c_proto c), k)) (nd_memory st));
         (to_apply, tracked) = split_batch full_tags existing messages
     in case handle_all cl now to_apply st of
          (st, Inl e) \<Rightarrow>
            (st\<lparr>nd_full_sync := fold (\<lambda>(tag, _). fs_cancel tag) tracked (nd_full_sync st)\<rparr>, Inl e)
        | (st, Inr _) \<Rightarrow>
            let fs = fold (\<lambda>(tag, i). fs_record tag i) tracked (nd_full_sync st);
                (fs, to_prune) = fs_take_ready fs;
                st = st\<lparr>nd_full_sync := fs\<rparr>
            in (fold (\<lambda>(tag, keep) s. fst (prune_tag cl now tag keep s)) to_prune st, Inr ()))"

section \<open>Runs of the full-sync bookkeeping\<close>

datatype fs_event = Fs_Arm tag | Fs_Cancel tag | Fs_Record tag uuid | Fs_Finish tag nat | Fs_Take

fun fs_apply :: "fs_event \<Rightarrow> full_sync_tracker \<Rightarrow> full_sync_tracker \<times> (tag \<times> uuid set) list" where
  "fs_apply (Fs_Arm tag) st = (fs_arm tag st, [])"
| "fs_apply (Fs_Cancel tag) st = (fs_cancel tag st, [])"
| "fs_apply (Fs_Record tag i) st = (fs_record tag i st, [])"
| "fs_apply (Fs_Finish tag n) st =
     (case fs_finish tag n st of (st', None) \<Rightarrow> (st', []) | (st', Some keep) \<Rightarrow> (st', [(tag, keep)]))"
| "fs_apply Fs_Take st = fs_take_ready st"

text \<open>Reachable bookkeeping states, with the events that led there, the latest first.\<close>

inductive fs_reach :: "fs_event list \<Rightarrow> full_sync_tracker \<Rightarrow> bool" where
  fs_init: "fs_reach [] []"
| fs_step: "fs_reach es st \<Longrightarrow> fs_reach (e # es) (fst (fs_apply e st))"

inductive_cases fs_reach_consE: "fs_reach (e # es) st"

text \<open>The ids recorded for a tag since it was last armed.\<close>

fun recorded :: "tag \<Rightarrow> fs_event list \<Rightarrow> uuid set" where
  "recorded tag [] = {}"
| "recorded tag (Fs_Arm tag' # es) = (if tag' = tag then {} else recorded tag es)"
| "recorded tag (Fs_Record tag' i # es) = (if tag' = tag then insert i (recorded tag es) else recorded tag es)"
| "recorded tag (_ # es) = recorded tag es"

section \<open>Lemmas on the auth service\<close>

definition same_conn :: "'a base_conn_scheme \<Rightarrow> 'a base_conn_scheme \<Rightarrow> bool" where
  "same_conn a b \<longleftrightarrow> c_proto a = c_proto b \<and> c_expires_at a = c_expires_at b
     \<and> c_subscription_id a = c_subscription_id b \<and> c_is_deleted a = c_is_deleted b"

lemma same_conn_refl [simp]: "same_conn a a"
  by (simp add: same_conn_def)

definition auth_ops :: "datetime \<Rightarrow> message \<Rightarrow> (uuid, base_conn) entry_op list" where
  "auth_ops now msg =
    (case msg_action msg of
       Act_Delete \<Rightarrow> [Entry_Remove (msg_conn_id msg)]
     | Act_ResetStat \<Rightarrow> []
     | _ \<Rightarrow> (case msg_token msg of
              None \<Rightarrow> []
            | Some token \<Rightarrow> [Entry_Add (msg_conn_id msg) (message_base now (Proto_Hysteria2 token) msg)]))"

lemma auth_handle_message_ops:
  "auth_handle_message now msg mem = fold conns.run_op (auth_ops now msg) mem"
  by (simp add: auth_ops_def split: action.splits option.splits)

lemma auth_batch_ops:
  "auth_handle_messages_batch now msgs mem = fold conns.run_op (concat (map (auth_ops now) msgs)) mem"
  unfolding auth_handle_messages_batch_def
  by (induction msgs arbitrary: mem) (simp_all add: auth_handle_message_ops del: auth_handle_message.simps)

lemma auth_batch_wf: "hm_wf mem \<Longrightarrow> hm_wf (auth_handle_messages_batch now msgs mem)"
  unfolding auth_batch_ops by (rule conns.wf_run_ops)

lemma auth_ops_rel: "list_all2 (op_rel same_conn) (auth_ops now1 msg) (auth_ops now2 msg)"
  by (simp add: auth_ops_def op_rel_def message_base_def base_new_def same_conn_def
      split: action.splits option.splits)

lemma auth_ops_rel_all:
  "list_all2 (op_rel same_conn) (concat (map (auth_ops now1) msgs)) (concat (map (auth_ops now2) msgs))"
  by (induction msgs) (auto intro: list_all2_appendI auth_ops_rel)

lemma find_Some_mem: "List.find P m = Some x \<Longrightarrow> x \<in> set m \<and> P x"
  by (induction m) (auto split: if_splits)

lemma validate_token_Some:
  "hm_wf m \<Longrightarrow> validate_token m t = Some i \<Longrightarrow> \<exists>c. map_of m i = Some c \<and> c_proto c = Proto_Hysteria2 t"
proof -
  assume wf: "hm_wf m" and v: "validate_token m t = Some i"
  let ?P = "\<lambda>(_ :: uuid, c :: 'a base_conn_scheme). case c_proto c of Proto_Hysteria2 u \<Rightarrow> u = t | _ \<Rightarrow> False"
  obtain x where x: "List.find ?P m = Some x" "fst x = i"
    using v unfolding validate_token_def by (cases "List.find ?P m") auto
  then have m: "(i, snd x) \<in> set m" and p: "?P x" using find_Some_mem[OF x(1)] by auto
  have "map_of m i = Some (snd x)" using wf m by (rule map_of_is_SomeI)
  moreover have "c_proto (snd x) = Proto_Hysteria2 t"
    using p by (cases x; cases "c_proto (snd x)") simp_all
  ultimately show ?thesis by blast
qed

lemma validate_token_None:
  "validate_token m t = None \<longleftrightarrow> (\<forall>(i, c) \<in> set m. c_proto c \<noteq> Proto_Hysteria2 t)"
  by (auto simp: validate_token_def find_None_iff split: proto.splits)

section \<open>Lemmas on the node\<close>

lemmas handle_create_defs =
  handle_create_awg_def handle_create_wg_def handle_create_xray_def handle_create_ss_def

lemmas handle_delete_defs = handle_delete_awg_def handle_delete_wg_def handle_delete_xray_def

lemma on_world_Inl: "on_world call k st = (st', Inl e) \<Longrightarrow> nd_memory st' = nd_memory st \<and> nd_full_sync st' = nd_full_sync st"
  by (auto simp: on_world_def split: prod.splits sum.splits)

lemma on_world_remove:
  "on_world call (nd_remove i) st = (st', Inr u) \<Longrightarrow>
     nd_memory st' = AList.delete i (nd_memory st) \<and> nd_full_sync st' = nd_full_sync st"
  by (auto simp: on_world_def nd_remove_def conns_remove_def split: prod.splits sum.splits)

lemma on_world_add:
  "on_world call (nd_add i c) st = (st', Inr u) \<Longrightarrow>
     nd_memory st' = fst (conns_add i c (nd_memory st)) \<and> nd_full_sync st' = nd_full_sync st"
  by (auto simp: on_world_def nd_add_def split: prod.splits sum.splits)

lemma on_world_id:
  "on_world call (\<lambda>s. s) st = (st', r) \<Longrightarrow> nd_memory st' = nd_memory st \<and> nd_full_sync st' = nd_full_sync st"
  by (auto simp: on_world_def split: prod.splits sum.splits)

text \<open>What a deletion does to the memory: nothing on failure, its own key on success.\<close>

definition delete_effect :: "uuid \<Rightarrow> 'w node_state \<Rightarrow> 'w node_state \<times> (error + unit) \<Rightarrow> bool" where
  "delete_effect i st res \<longleftrightarrow>
     nd_memory (fst res) = (case snd res of Inl _ \<Rightarrow> nd_memory st | Inr _ \<Rightarrow> AList.delete i (nd_memory st))
     \<and> nd_full_sync (fst res) = nd_full_sync st"

lemma delete_effect_err [simp]: "delete_effect i st (st, Inl e)"
  by (simp add: delete_effect_def)

lemma delete_effect_world [simp]: "delete_effect i st (on_world call (nd_remove i) st)"
  by (simp add: delete_effect_def on_world_def nd_remove_def conns_remove_def split: prod.splits sum.splits)

lemma delete_effect_awg: "delete_effect (msg_conn_id msg) st (handle_delete_awg cl msg st)"
  by (simp add: handle_delete_awg_def split: option.splits sum.splits)

lemma delete_effect_wg: "delete_effect (msg_conn_id msg) st (handle_delete_wg cl msg st)"
  by (simp add: handle_delete_wg_def split: option.splits sum.splits)

lemma delete_effect_xray: "delete_effect (msg_conn_id msg) st (handle_delete_xray cl msg st)"
  by (simp add: handle_delete_xray_def split: option.splits)

lemma handle_delete_effect: "delete_effect (msg_conn_id msg) st (handle_delete cl msg st)"
  by (cases "msg_tag msg") (simp_all add: delete_effect_awg delete_effect_wg delete_effect_xray)

text \<open>What a creation does: it can only add the connection of its message.\<close>

definition create_effect :: "uuid \<Rightarrow> base_conn \<Rightarrow> 'w node_state \<Rightarrow> 'w node_state \<times> (error + unit) \<Rightarrow> bool" where
  "create_effect i c st res \<longleftrightarrow>
     nd_full_sync (fst res) = nd_full_sync st \<and>
     (case snd res of
        Inr _ \<Rightarrow> nd_memory (fst res) = fst (conns_add i c (nd_memory st))
      | Inl _ \<Rightarrow> nd_memory (fst res) \<in> {nd_memory st, fst (conns_add i c (nd_memory st))})"

lemma create_effect_err [simp]:
  "create_effect i c st (st, Inl e)" "create_effect i c st (nd_add i c st, Inl e)"
  "create_effect i c st (nd_add i c st, Inr u)"
  by (simp_all add: create_effect_def nd_add_def)

lemma create_effect_world [simp]:
  "create_effect i c st (on_world call (nd_add i c) st)"
  "create_effect i c st (on_world call (\<lambda>s. s) (nd_add i c st))"
  by (auto simp: create_effect_def on_world_def nd_add_def split: prod.splits sum.splits)

text \<open>Case rules that walk through the handlers.\<close>

lemma create_effect_option:
  "create_effect i c st a \<Longrightarrow> (\<And>x. create_effect i c st (f x)) \<Longrightarrow>
     create_effect i c st (case y of None \<Rightarrow> a | Some x \<Rightarrow> f x)"
  by (cases y) auto

lemma create_effect_sum:
  "(\<And>x. create_effect i c st (f x)) \<Longrightarrow> (\<And>x. create_effect i c st (g x)) \<Longrightarrow>
     create_effect i c st (case y of Inl x \<Rightarrow> f x | Inr x \<Rightarrow> g x)"
  by (cases y) auto

lemma create_effect_if:
  "create_effect i c st a \<Longrightarrow> create_effect i c st b \<Longrightarrow> create_effect i c st (if x then a else b)"
  by simp

lemmas effect_intros = create_effect_option create_effect_sum create_effect_if create_effect_err create_effect_world

text \<open>The protocol a node reads off a message.\<close>

fun message_proto :: "message \<Rightarrow> proto option" where
  "message_proto msg =
    (case msg_tag msg of
       Tag_AmneziaWg \<Rightarrow> map_option Proto_AmneziaWg (msg_wg msg)
     | Tag_AmneziaWgMobile \<Rightarrow> map_option Proto_AmneziaWgMobile (msg_wg msg)
     | Tag_Wireguard \<Rightarrow> map_option Proto_Wireguard (msg_wg msg)
     | Tag_Shadowsocks \<Rightarrow> map_option Proto_Shadowsocks (msg_password msg)
     | Tag_Hysteria2 \<Rightarrow> None
     | Tag_Mtproto \<Rightarrow> None
     | tag \<Rightarrow> Some (Proto_Xray tag))"

lemma create_awg_effect:
  assumes "msg_wg msg = Some awg"
  shows "create_effect (msg_conn_id msg)
     (message_base now (if msg_tag msg = Tag_AmneziaWgMobile then Proto_AmneziaWgMobile awg else Proto_AmneziaWg awg) msg)
     st (handle_create_awg cl now msg st)"
  unfolding handle_create_awg_def assms option.case Let_def
  by (intro effect_intros)

lemma create_wg_effect:
  assumes "msg_wg msg = Some wg"
  shows "create_effect (msg_conn_id msg) (message_base now (Proto_Wireguard wg) msg) st (handle_create_wg cl now msg st)"
  unfolding handle_create_wg_def assms option.case Let_def
  by (intro effect_intros)

lemma create_xray_effect:
  "create_effect (msg_conn_id msg) (message_base now (Proto_Xray (msg_tag msg)) msg) st (handle_create_xray cl now msg st)"
  unfolding handle_create_xray_def by (intro effect_intros)

lemma create_ss_effect:
  assumes "msg_password msg = Some pw"
  shows "create_effect (msg_conn_id msg) (message_base now (Proto_Shadowsocks pw) msg) st (handle_create_ss cl now msg st)"
  unfolding handle_create_ss_def assms option.case by (intro effect_intros)

lemma handle_create_effect:
  assumes "message_proto msg = Some p"
  shows "create_effect (msg_conn_id msg) (message_base now p msg) st (handle_create cl now msg st)"
proof (cases "msg_tag msg")
  case Tag_AmneziaWg
  then obtain wg where "msg_wg msg = Some wg" "p = Proto_AmneziaWg wg" using assms by auto
  then show ?thesis using create_awg_effect[of msg wg now st cl] Tag_AmneziaWg by simp
next
  case Tag_AmneziaWgMobile
  then obtain wg where "msg_wg msg = Some wg" "p = Proto_AmneziaWgMobile wg" using assms by auto
  then show ?thesis using create_awg_effect[of msg wg now st cl] Tag_AmneziaWgMobile by simp
next
  case Tag_Wireguard
  then obtain wg where "msg_wg msg = Some wg" "p = Proto_Wireguard wg" using assms by auto
  then show ?thesis using create_wg_effect[of msg wg now st cl] Tag_Wireguard by simp
next
  case Tag_Shadowsocks
  then obtain pw where "msg_password msg = Some pw" "p = Proto_Shadowsocks pw" using assms by auto
  then show ?thesis using create_ss_effect[of msg pw now st cl] Tag_Shadowsocks by simp
qed (use assms create_xray_effect[of msg now st cl] in auto)

lemma handle_create_unreadable:
  assumes "message_proto msg = None"
  shows "\<exists>e. handle_create cl now msg st = (st, Inl e)"
  using assms by (cases "msg_tag msg") (auto simp: handle_create_awg_def handle_create_wg_def handle_create_ss_def)

lemma handle_message_wf:
  assumes "hm_wf (nd_memory st)"
  shows "hm_wf (nd_memory (fst (handle_message cl now msg st)))"
proof -
  have c: "hm_wf (nd_memory (fst (handle_create cl now msg st)))"
  proof (cases "message_proto msg")
    case None
    then show ?thesis using handle_create_unreadable[of msg cl now st] assms by auto
  next
    case (Some p)
    then show ?thesis
      using handle_create_effect[OF Some, of now st cl] assms conns.wf_add[OF assms]
      by (auto simp: create_effect_def simp del: handle_create.simps split: sum.splits)
  qed
  have d: "hm_wf (nd_memory (fst (handle_delete cl msg st)))"
    using handle_delete_effect[of msg st cl] assms
    by (auto simp: delete_effect_def simp del: handle_delete.simps split: sum.splits)
  show ?thesis
    using c d assms by (simp add: handle_message_def del: handle_create.simps handle_delete.simps
        split: action.split option.split)
qed

lemma handle_message_delete:
  "msg_action msg = Act_Delete \<Longrightarrow> delete_effect (msg_conn_id msg) st (handle_message cl now msg st)"
  using handle_delete_effect[of msg st cl] by (simp add: handle_message_def del: handle_delete.simps)

lemma prune_run_frame:
  assumes "list_all (\<lambda>m. msg_action m = Act_Delete) msgs" "k \<notin> msg_conn_id ` set msgs"
  shows "map_of (nd_memory (fst (prune_run cl now msgs (st, n)))) k = map_of (nd_memory st) k"
  using assms
proof (induction msgs arbitrary: st n)
  case (Cons msg msgs)
  obtain st' r where h: "handle_message cl now msg st = (st', r)" by fastforce
  have "delete_effect (msg_conn_id msg) st (handle_message cl now msg st)"
    using Cons.prems by (intro handle_message_delete) simp
  then have "map_of (nd_memory st') k = map_of (nd_memory st) k"
    using Cons.prems(2) by (auto simp: h delete_effect_def split: sum.splits)
  then show ?case
    using Cons.IH[of st'] Cons.prems by (simp add: h split: sum.split)
qed simp

lemma prune_tag_frame:
  assumes "hm_wf (nd_memory st)" "\<And>c. map_of (nd_memory st) k = Some c \<Longrightarrow> proto_tag (c_proto c) \<noteq> tag \<or> k \<in> keep"
  shows "map_of (nd_memory (fst (prune_tag cl now tag keep st))) k = map_of (nd_memory st) k"
  unfolding prune_tag_def
proof (rule prune_run_frame)
  show "list_all (\<lambda>m. msg_action m = Act_Delete) (prune_stale tag keep (nd_memory st))"
    by (auto simp: prune_stale_def prune_message_def Let_def list_all_iff)
  show "k \<notin> msg_conn_id ` set (prune_stale tag keep (nd_memory st))"
    using assms by (auto simp: prune_stale_def prune_message_def Let_def hm_mem_iff)
qed

text \<open>The protocols a node can serve, and the message that carries them.\<close>

fun node_serves :: "proto \<Rightarrow> bool" where
  "node_serves (Proto_Xray tag) =
     (tag \<in> {Tag_VlessTcpReality, Tag_VlessGrpcReality, Tag_VlessXhttpReality, Tag_VlessXhttpCdn, Tag_Vmess})"
| "node_serves (Proto_Hysteria2 _) = False"
| "node_serves (Proto_Mtproto _) = False"
| "node_serves _ = True"

lemma message_proto_create: "node_serves (c_proto c) \<Longrightarrow> message_proto (as_create_message c i) = Some (c_proto c)"
  by (cases "c_proto c") (auto simp: as_create_message_def)

lemma handle_message_create_ok:
  assumes "node_serves (c_proto c)" "hm_wf (nd_memory st)" "map_of (nd_memory st) i = None"
    and "handle_message cl now (as_create_message c i) st = (st', Inr u)"
  shows "nd_memory st' = AList.update i (message_base now (c_proto c) (as_create_message c i)) (nd_memory st)"
proof -
  have "create_effect i (message_base now (c_proto c) (as_create_message c i)) st
      (handle_create cl now (as_create_message c i) st)"
    using handle_create_effect[OF message_proto_create[OF assms(1), of i], of now st cl]
    by (simp add: as_create_message_def del: handle_create.simps)
  moreover have "handle_create cl now (as_create_message c i) st = (st', Inr u)"
    using assms(4) by (simp add: handle_message_def as_create_message_def del: handle_create.simps)
  ultimately show ?thesis
    using assms(3) by (simp add: create_effect_def conns_add_def)
qed

lemma fs_take_ready_get:
  assumes "hm_wf st"
  shows "map_of (fst (fs_take_ready st)) tag =
     (case map_of st tag of None \<Rightarrow> None | Some s \<Rightarrow> if fs_is_ready s then None else Some s)"
proof -
  have "tag \<in> fst ` set (filter (\<lambda>(_, s). fs_is_ready s) st) \<longleftrightarrow> (\<exists>s. map_of st tag = Some s \<and> fs_is_ready s)"
    using assms by (force simp: hm_mem_iff)
  then show ?thesis
    using assms by (auto simp: fs_take_ready_def Let_def hm.get_fold_del split: option.split)
qed

lemma fs_take_ready_wf: "hm_wf st \<Longrightarrow> hm_wf (fst (fs_take_ready st))"
  by (simp add: fs_take_ready_def Let_def hm.wf_fold_del)

lemma fs_apply_wf: "hm_wf st \<Longrightarrow> hm_wf (fst (fs_apply e st))"
  by (cases e) (auto simp: fs_arm_def fs_cancel_def fs_record_def fs_finish_def fs_take_ready_wf
      split: option.splits)

lemma fs_reach_wf: "fs_reach es st \<Longrightarrow> hm_wf st"
  by (induction rule: fs_reach.induct) (auto intro: fs_apply_wf)

lemma fs_reach_seen:
  "fs_reach es st \<Longrightarrow> map_of st tag = Some s \<Longrightarrow>
     fs_seen s = recorded tag es \<and> (\<forall>n. fs_expected s = Some n \<longrightarrow> Fs_Finish tag n \<in> set es)"
proof (induction arbitrary: s rule: fs_reach.induct)
  case (fs_step es st e)
  note wf = fs_reach_wf[OF fs_step.hyps]
  show ?case
  proof (cases e)
    case Fs_Take
    then have "map_of st tag = Some s"
      using fs_step.prems fs_take_ready_get[OF wf, of tag] by (auto split: option.splits if_splits)
    then show ?thesis using fs_step.IH Fs_Take by auto
  qed (use fs_step in \<open>auto simp: fs_arm_def fs_cancel_def fs_record_def fs_finish_def full_sync_default_def
        split: option.splits if_splits\<close>)
qed simp

section \<open>Properties\<close>

text \<open>
  C25: The bus may deliver a batch more than once: applying the same batch of messages to the
  auth service a second time, at whatever time, leaves for every connection id the same token,
  expiry and owner as applying it once.
\<close>

theorem auth_batch_replay_idempotent:
  assumes "hm_wf mem"
  shows "rel_option same_conn
     (conns_get (auth_handle_messages_batch now1 msgs mem) k)
     (conns_get (auth_handle_messages_batch now2 msgs (auth_handle_messages_batch now1 msgs mem)) k)"
  using fold_entry_replay[OF auth_ops_rel_all same_conn_refl]
  by (simp add: auth_batch_ops conns.get_run_ops conns.wf_run_ops assms)

definition sample_msg :: "action \<Rightarrow> message" where
  "sample_msg a = \<lparr> msg_conn_id = 5, msg_action = a, msg_tag = Tag_Hysteria2, msg_wg = None,
     msg_password = None, msg_token = Some 77, msg_expires_at = None, msg_subscription_id = Some 3 \<rparr>"

theorem auth_batch_replay_idempotent_witness:
  "rel_option same_conn
     (conns_get (auth_handle_messages_batch 10 [sample_msg Act_Delete, sample_msg Act_Create] []) 5)
     (conns_get (auth_handle_messages_batch 20 [sample_msg Act_Delete, sample_msg Act_Create]
        (auth_handle_messages_batch 10 [sample_msg Act_Delete, sample_msg Act_Create] [])) 5)"
  by (rule auth_batch_replay_idempotent) simp

text \<open>
  C26: The auth service admits a Hysteria2 token exactly while its connection is announced:
  once a connection's creation message is applied to a memory without that token and id, the
  token is admitted under that connection's id; once its deletion message follows, the token
  is refused.
\<close>

theorem auth_admits_announced_token:
  assumes "hm_wf mem" "map_of mem i = None" "validate_token mem t = None" "c_proto c = Proto_Hysteria2 t"
  shows "auth_handler (auth_handle_messages_batch now [as_create_message c i] mem) t = (True, Some i)
       \<and> auth_handler (auth_handle_messages_batch now [as_create_message c i, as_delete_message c i] mem) t
           = (False, None)"
proof -
  let ?b = "message_base now (Proto_Hysteria2 t) (as_create_message c i)"
  have add: "auth_handle_messages_batch now [as_create_message c i] mem = AList.update i ?b mem"
    using assms by (simp add: auth_handle_messages_batch_def as_create_message_def conns_add_def)
  have del: "auth_handle_messages_batch now [as_create_message c i, as_delete_message c i] mem
      = AList.delete i (AList.update i ?b mem)"
    using assms by (simp add: auth_handle_messages_batch_def as_create_message_def as_delete_message_def
        conns_add_def conns_remove_def)
  have old: "map_of mem j = Some d \<Longrightarrow> c_proto d \<noteq> Proto_Hysteria2 t" for j d
    using assms(1,3) by (auto simp: validate_token_None hm_mem_iff)
  have "validate_token (AList.update i ?b mem) t \<noteq> None"
    using assms(1) by (auto simp: validate_token_None hm_mem_iff message_base_def base_new_def
        intro!: bexI[of _ "(i, ?b)"])
  then obtain j where j: "validate_token (AList.update i ?b mem) t = Some j" by blast
  then have "j = i"
    using validate_token_Some[OF hm_wf_update[OF assms(1)] j] old by (auto split: if_splits)
  moreover have "validate_token (AList.delete i (AList.update i ?b mem)) t = None"
    unfolding validate_token_None using assms(1) old by (auto simp: hm_mem_iff split: if_splits)
  ultimately show ?thesis
    unfolding add del auth_handler_def using j by simp
qed

theorem auth_admits_announced_token_witness:
  "auth_handler (auth_handle_messages_batch 10
      [as_create_message (conn_new 0 Env_Dev None (Proto_Hysteria2 77) None) 5] []) 77 = (True, Some 5)"
  using auth_admits_announced_token[of "[]" 5 77 "conn_new 0 Env_Dev None (Proto_Hysteria2 77) None" 10]
  by (simp add: validate_token_def conn_new_def)



text \<open>
  C37: The announced count is compared with the number of recorded ids, not with the ids
  themselves: when the api announced the connections \<open>a\<close> and \<open>b\<close>, an unrelated update for \<open>c\<close>
  completes the sync, and \<open>b\<close>, which the api did list, is no longer protected from the prune.
\<close>

theorem full_sync_completed_by_foreign_id:
  assumes "a \<noteq> b" "b \<noteq> c" "a \<noteq> c"
  shows "\<exists>st. fs_reach [Fs_Record tag c, Fs_Record tag a, Fs_Finish tag (card {a, b}), Fs_Arm tag] st
     \<and> (\<exists>keep. (tag, keep) \<in> set (snd (fs_apply Fs_Take st)) \<and> b \<notin> keep)"
proof -
  let ?st = "fst (fs_apply (Fs_Record tag c) (fst (fs_apply (Fs_Record tag a)
     (fst (fs_apply (Fs_Finish tag (card {a, b})) (fst (fs_apply (Fs_Arm tag) [])))))))"
  have "fs_reach [Fs_Record tag c, Fs_Record tag a, Fs_Finish tag (card {a, b}), Fs_Arm tag] ?st"
    by (intro fs_step fs_init)
  moreover have "(tag, {c, a}) \<in> set (snd (fs_apply Fs_Take ?st))"
    using assms by (simp add: fs_arm_def fs_record_def fs_finish_def fs_take_ready_def
        full_sync_default_def fs_is_ready_def)
  moreover have "b \<notin> {c, a}" using assms by auto
  ultimately show ?thesis by blast
qed

theorem full_sync_completed_by_foreign_id_witness:
  "\<exists>st. fs_reach [Fs_Record Tag_Vmess 3, Fs_Record Tag_Vmess 1, Fs_Finish Tag_Vmess (card {1 :: uuid, 2}), Fs_Arm Tag_Vmess] st
     \<and> (\<exists>keep. (Tag_Vmess, keep) \<in> set (snd (fs_apply Fs_Take st)) \<and> 2 \<notin> keep)"
  by (rule full_sync_completed_by_foreign_id) simp_all


definition sample_clients :: "unit node_clients" where
  "sample_clients =
    \<lparr> wg_client = Some \<lparr> wg_is_exist = (\<lambda>_ _. False), wg_create = (\<lambda>_ _ w. (w, Inr ())),
        wg_delete = (\<lambda>_ w. (w, Inr ())) \<rparr>,
      awg_client = None, awg_mobile_client = None,
      handler_client = Some \<lparr> xray_create = (\<lambda>_ _ _ w. (w, Inl Err_Conflict)), xray_remove = (\<lambda>_ _ _ w. (w, Inr ())) \<rparr>,
      stats_reset = None, pubkey = (\<lambda>k. Inr (privkey k)), decode_pubkey = (\<lambda>_. Inr []) \<rparr>"

definition sample_node :: "unit node_state" where
  "sample_node = \<lparr> nd_memory = [], nd_world = (), nd_full_sync = [] \<rparr>"


text \<open>
  A failed Xray or Shadowsocks creation, and any failed deletion, leave the node's memory
  as it was, because the back end is called first.
\<close>

theorem node_failure_keeps_memory:
  assumes "handle_message cl now msg st = (st', Inl e)"
    and "msg_action msg = Act_Delete \<or> msg_tag msg \<notin> {Tag_Wireguard, Tag_AmneziaWg, Tag_AmneziaWgMobile}"
  shows "nd_memory st' = nd_memory st"
proof (cases "msg_action msg = Act_Delete")
  case True
  then show ?thesis
    using handle_message_delete[OF True, of st cl now] assms(1) by (simp add: delete_effect_def)
next
  case False
  then have t: "msg_tag msg \<notin> {Tag_Wireguard, Tag_AmneziaWg, Tag_AmneziaWgMobile}" using assms(2) by blast
  have "handle_create cl now msg st = (st', Inl e)"
    using assms(1) False by (auto simp: handle_message_def split: action.splits option.splits
        simp del: handle_create.simps)
  then show ?thesis
    using t by (cases "msg_tag msg")
      (auto simp: handle_create_xray_def handle_create_ss_def split: option.splits dest: on_world_Inl)
qed

theorem node_failure_keeps_memory_witness:
  "nd_memory (fst (handle_message sample_clients 4
      (as_create_message (conn_new 0 Env_Dev None (Proto_Xray Tag_Vmess) None) 1) sample_node)) = nd_memory sample_node"
proof (rule node_failure_keeps_memory)
  show "handle_message sample_clients 4
      (as_create_message (conn_new 0 Env_Dev None (Proto_Xray Tag_Vmess) None) 1) sample_node =
    (fst (handle_message sample_clients 4
      (as_create_message (conn_new 0 Env_Dev None (Proto_Xray Tag_Vmess) None) 1) sample_node), Inl Err_Conflict)"
    by (simp add: handle_message_def as_create_message_def conn_new_def sample_clients_def
        sample_node_def handle_create_xray_def on_world_def)
qed (simp add: as_create_message_def conn_new_def)

text \<open>
  A WireGuard creation writes the memory first. When the interface is unavailable the
  error is returned and the connection nevertheless stays in memory; a creation message for it
  that arrives with a later full sync is then only counted and never applied.
\<close>

theorem wg_create_failure_leaves_entry:
  assumes "wg_client cl = None" "map_of (nd_memory st) i = None" "c_proto c = Proto_Wireguard wg"
  shows "\<exists>st'. handle_message cl now (as_create_message c i) st = (st', Inl (Err_Custom ''WireGuard API is unavailable''))
     \<and> conns_get (nd_memory st') i \<noteq> None
     \<and> split_batch {Tag_Wireguard} (set (map (\<lambda>(k, c). (proto_tag (c_proto c), k)) (nd_memory st')))
          [as_create_message c i] = ([], [(Tag_Wireguard, i)])"
proof -
  let ?b = "message_base now (Proto_Wireguard wg) (as_create_message c i)"
  have h: "handle_message cl now (as_create_message c i) st
      = (nd_add i ?b st, Inl (Err_Custom ''WireGuard API is unavailable''))"
    using assms(1,3) by (simp add: handle_message_def as_create_message_def handle_create_wg_def)
  have g: "map_of (nd_memory (nd_add i ?b st)) i = Some ?b"
    using assms(2) by (simp add: nd_add_def conns_add_def)
  then have "(i, ?b) \<in> set (nd_memory (nd_add i ?b st))" by (rule map_of_SomeD)
  then have "(Tag_Wireguard, i) \<in> set (map (\<lambda>(k, c). (proto_tag (c_proto c), k)) (nd_memory (nd_add i ?b st)))"
    by (force simp: message_base_def base_new_def)
  then show ?thesis
    using h g assms(3) by (intro exI[of _ "nd_add i ?b st"]) (simp add: conns_get_def as_create_message_def)
qed

theorem wg_create_failure_leaves_entry_witness:
  "\<exists>st'. handle_message (sample_clients\<lparr>wg_client := None\<rparr>) 4 (as_create_message (sample_wg 9) 1) sample_node
        = (st', Inl (Err_Custom ''WireGuard API is unavailable'')) \<and> conns_get (nd_memory st') 1 \<noteq> None"
  using wg_create_failure_leaves_entry[of "sample_clients\<lparr>wg_client := None\<rparr>" sample_node 1 "sample_wg 9" _ 4]
  by (auto simp: sample_node_def sample_wg_def conn_new_def)

text \<open>
  C27: Pruning after a full sync removes at most what the api did not list: a connection of
  another tag, or one whose id is in the released set, is still there afterwards, unchanged.
\<close>

theorem prune_keeps_listed:
  assumes "hm_wf (nd_memory st)" "map_of (nd_memory st) k = Some c" "proto_tag (c_proto c) \<noteq> tag \<or> k \<in> keep"
  shows "conns_get (nd_memory (fst (prune_tag cl now tag keep st))) k = Some c"
  using prune_tag_frame[OF assms(1), of k tag keep cl now] assms(2,3) by (simp add: conns_get_def)

theorem prune_keeps_listed_witness:
  "conns_get (nd_memory (fst (prune_tag sample_clients 4 Tag_Wireguard {1}
      (sample_node\<lparr>nd_memory := [(1, base_of_conn (sample_wg 9)), (2, base_of_conn (sample_wg 8))]\<rparr>)))) 1
     = Some (base_of_conn (sample_wg 9))"
  by (rule prune_keeps_listed) simp_all

end
