(* ===== verification/Alerts.thy ===== *)
theory Alerts
  imports Fcore_Prelude
begin

text \<open>
  The alert rules (\<^verbatim>\<open>src/bin/api/alerts.rs\<close>). An \<open>Instant\<close> is a natural number of nanoseconds, so
  that \<open>duration_since\<close> of an earlier instant is 0 as in the source; wall-clock milliseconds are
  integers. The percentages and uptimes are reals: only comparisons and one subtraction are made.
  The unused field \<open>last_online\<close> is left out.
\<close>

section \<open>Configuration, state and decisions\<close>

type_synonym instant = nat

definition secs :: "nat \<Rightarrow> nat" where
  "secs n = n * 1000000000"

definition as_secs :: "nat \<Rightarrow> nat" where
  "as_secs d = d div 1000000000"

text \<open>Integer division of \<open>i64\<close> values rounds towards zero.\<close>

definition tdiv :: "int \<Rightarrow> int \<Rightarrow> int" where
  "tdiv a b = sgn a * sgn b * (\<bar>a\<bar> div \<bar>b\<bar>)"

record alerts_config =
  cfg_offline_threshold_sec :: nat
  cfg_recovery_grace_sec :: nat
  cfg_new_node_grace_sec :: nat
  cfg_throttle_sec :: nat
  cfg_flap_gap_sec :: nat
  cfg_flap_window_sec :: nat
  cfg_flap_threshold :: nat
  cfg_offline_long_sec :: nat
  cfg_cpu_threshold_pct :: real
  cfg_cpu_hold_sec :: nat
  cfg_cpu_reset_pct :: real
  cfg_disk_threshold_pct :: real
  cfg_disk_hold_sec :: nat
  cfg_disk_reset_pct :: real

definition alerts_config_default :: alerts_config where
  "alerts_config_default =
    \<lparr> cfg_offline_threshold_sec = 600, cfg_recovery_grace_sec = 120, cfg_new_node_grace_sec = 600,
      cfg_throttle_sec = 1800, cfg_flap_gap_sec = 120, cfg_flap_window_sec = 3600,
      cfg_flap_threshold = 3, cfg_offline_long_sec = 3600, cfg_cpu_threshold_pct = 85,
      cfg_cpu_hold_sec = 600, cfg_cpu_reset_pct = 70, cfg_disk_threshold_pct = 90,
      cfg_disk_hold_sec = 900, cfg_disk_reset_pct = 85 \<rparr>"

definition can_deliver :: "bool \<Rightarrow> string option \<Rightarrow> string option \<Rightarrow> bool" where
  "can_deliver enabled telegram_bot_token telegram_chat_id \<longleftrightarrow>
     enabled \<and> telegram_bot_token \<noteq> None \<and> telegram_chat_id \<noteq> None"

datatype alert_kind =
    NodeOffline | NodeRecovered | NodeOfflineLong | NodeFlapping | NodeCpuHigh | NodeDiskHigh

fun alert_kind_as_str :: "alert_kind \<Rightarrow> string" where
  "alert_kind_as_str NodeOffline = ''node_offline''"
| "alert_kind_as_str NodeOfflineLong = ''node_offline_long''"
| "alert_kind_as_str NodeRecovered = ''node_recovered''"
| "alert_kind_as_str NodeFlapping = ''node_flapping''"
| "alert_kind_as_str NodeCpuHigh = ''node_cpu_high''"
| "alert_kind_as_str NodeDiskHigh = ''node_disk_high''"

text \<open>The host and environment names of a decision are copied from the call; \<open>detail\<close> is kept as data.\<close>

datatype alert_detail = Detail_Disk string real | Detail_Restarts nat

datatype decision = Idle | Fire alert_kind uuid string string int "alert_detail option"

record node_track =
  nt_first_seen :: instant
  nt_offline_since :: "instant option"
  nt_ok_since :: "instant option"
  nt_alerted :: bool
  nt_transitions :: "instant list"
  nt_flap_alerted :: bool
  nt_hiccup_active :: bool
  nt_long_alerted :: bool
  nt_last_sent :: "(string, instant) hashmap"

definition node_track_new :: "instant \<Rightarrow> node_track" where
  "node_track_new now =
    \<lparr> nt_first_seen = now, nt_offline_since = None, nt_ok_since = None, nt_alerted = False,
      nt_transitions = [], nt_flap_alerted = False, nt_hiccup_active = False,
      nt_long_alerted = False, nt_last_sent = [] \<rparr>"

record cpu_track =
  ct_high_since :: instant
  ct_alerted :: bool

record restart_track =
  rt_last_uptime :: real
  rt_count :: nat
  rt_window_start :: instant
  rt_alerted :: bool

record alerts_engine =
  ae_cfg :: alerts_config
  ae_nodes :: "(uuid, node_track) hashmap"
  ae_cpu :: "(uuid, cpu_track) hashmap"
  ae_disks :: "(uuid \<times> string, cpu_track) hashmap"
  ae_restarts :: "(uuid, restart_track) hashmap"

definition engine_new :: "alerts_config \<Rightarrow> alerts_engine" where
  "engine_new cfg = \<lparr> ae_cfg = cfg, ae_nodes = [], ae_cpu = [], ae_disks = [], ae_restarts = [] \<rparr>"

definition throttled :: "node_track \<Rightarrow> alert_kind \<Rightarrow> instant \<Rightarrow> nat \<Rightarrow> bool" where
  "throttled track kind now throttle_sec =
    (case map_of (nt_last_sent track) (alert_kind_as_str kind) of
       None \<Rightarrow> False
     | Some sent \<Rightarrow> as_secs (now - sent) < throttle_sec)"

section \<open>The silence rules\<close>

text \<open>\<open>while let Some(front)\<close>: drop the transitions that left the window.\<close>

fun pop_old :: "instant \<Rightarrow> nat \<Rightarrow> instant list \<Rightarrow> instant list" where
  "pop_old now window [] = []"
| "pop_old now window (front # rest) =
     (if now - front > window then pop_old now window rest else front # rest)"

text \<open>
  The flapping part of \<open>observe\<close>: the updated track and, when the rule fires, the number of
  transitions.
\<close>

definition observe_flap :: "alerts_config \<Rightarrow> instant \<Rightarrow> bool \<Rightarrow> int \<Rightarrow> node_track \<Rightarrow> node_track \<times> nat option" where
  "observe_flap cfg now new_node silence_sec track =
    (let flap_window = secs (cfg_flap_window_sec cfg);
         flap_threshold = max (cfg_flap_threshold cfg) 2;
         flap_gap_sec = int (max (cfg_flap_gap_sec cfg) 60)
     in if silence_sec \<ge> flap_gap_sec then
          if \<not> nt_hiccup_active track then
            let transitions = pop_old now flap_window (nt_transitions track @ [now]);
                flap_alerted = (if length transitions < flap_threshold then False else nt_flap_alerted track);
                track = track\<lparr>nt_hiccup_active := True, nt_transitions := transitions,
                              nt_flap_alerted := flap_alerted\<rparr>
            in if length transitions \<ge> flap_threshold \<and> \<not> flap_alerted \<and> \<not> new_node
               then (track\<lparr>nt_flap_alerted := True\<rparr>, Some (length transitions))
               else (track, None)
          else (track, None)
        else if silence_sec * 2 < flap_gap_sec then (track\<lparr>nt_hiccup_active := False\<rparr>, None)
        else (track, None))"

definition get_or_insert :: "'a option \<Rightarrow> 'a \<Rightarrow> 'a" where
  "get_or_insert slot x = (case slot of None \<Rightarrow> x | Some y \<Rightarrow> y)"

text \<open>The rest of \<open>observe\<close>: the kind and duration of the decision, if any.\<close>

definition observe_silence ::
  "alerts_config \<Rightarrow> instant \<Rightarrow> bool \<Rightarrow> int \<Rightarrow> node_track \<Rightarrow> node_track \<times> (alert_kind \<times> int) option" where
  "observe_silence cfg now new_node silence_sec track =
    (if silence_sec \<ge> int (cfg_offline_threshold_sec cfg) then
       let since = get_or_insert (nt_offline_since track) now;
           track = track\<lparr>nt_ok_since := None, nt_offline_since := Some since\<rparr>;
           offline_for = int (as_secs (now - since));
           silence = max silence_sec offline_for
       in if nt_alerted track \<and> \<not> nt_long_alerted track \<and> \<not> new_node
             \<and> silence \<ge> int (max (cfg_offline_long_sec cfg) 600)
          then (track\<lparr>nt_long_alerted := True\<rparr>, Some (NodeOfflineLong, silence))
          else if nt_alerted track \<or> new_node then (track, None)
          else if throttled track NodeOffline now (cfg_throttle_sec cfg) then (track, None)
          else (track\<lparr>nt_alerted := True,
                      nt_last_sent := AList.update (alert_kind_as_str NodeOffline) now (nt_last_sent track)\<rparr>,
                Some (NodeOffline, max silence_sec offline_for))
     else
       let track = track\<lparr>nt_offline_since := None\<rparr>
       in if \<not> nt_alerted track then (track, None)
          else
            let ok_since = get_or_insert (nt_ok_since track) now;
                track = track\<lparr>nt_ok_since := Some ok_since\<rparr>;
                stable_for = as_secs (now - ok_since)
            in if stable_for < cfg_recovery_grace_sec cfg then (track, None)
               else (track\<lparr>nt_alerted := False, nt_long_alerted := False, nt_ok_since := None\<rparr>,
                     Some (NodeRecovered, int stable_for)))"

definition observe_track ::
  "alerts_config \<Rightarrow> instant \<Rightarrow> int option \<Rightarrow> int \<Rightarrow> node_track \<Rightarrow> node_track \<times> (alert_kind \<times> int) option" where
  "observe_track cfg now last_heartbeat_ms now_ms track =
    (let seen_for = now - nt_first_seen track;
         new_node = seen_for < secs (cfg_new_node_grace_sec cfg)
     in case last_heartbeat_ms of
          None \<Rightarrow> (track, None)
        | Some last_ms \<Rightarrow>
            let silence_sec = tdiv (now_ms - last_ms) 1000
            in case observe_flap cfg now new_node silence_sec track of
                 (track, Some count) \<Rightarrow> (track, Some (NodeFlapping, int count))
               | (track, None) \<Rightarrow> observe_silence cfg now new_node silence_sec track)"

definition observe ::
  "instant \<Rightarrow> uuid \<Rightarrow> string \<Rightarrow> string \<Rightarrow> int option \<Rightarrow> int \<Rightarrow> alerts_engine \<Rightarrow> alerts_engine \<times> decision" where
  "observe now node_id hostname env last_heartbeat_ms now_ms e =
    (let track = (case map_of (ae_nodes e) node_id of None \<Rightarrow> node_track_new now | Some t \<Rightarrow> t);
         (track, fired) = observe_track (ae_cfg e) now last_heartbeat_ms now_ms track
     in (e\<lparr>ae_nodes := AList.update node_id track (ae_nodes e)\<rparr>,
         (case fired of
            None \<Rightarrow> Idle
          | Some (kind, duration) \<Rightarrow> Fire kind node_id hostname env duration None)))"

section \<open>CPU, disk and restart rules\<close>

definition hold_step :: "instant \<Rightarrow> nat \<Rightarrow> cpu_track option \<Rightarrow> cpu_track \<times> nat option" where
  "hold_step now hold entry =
    (let track = (case entry of None \<Rightarrow> \<lparr> ct_high_since = now, ct_alerted = False \<rparr> | Some t \<Rightarrow> t)
     in if ct_alerted track then (track, None)
        else if now - ct_high_since track \<ge> hold
        then (track\<lparr>ct_alerted := True\<rparr>, Some (as_secs (now - ct_high_since track)))
        else (track, None))"

definition observe_cpu ::
  "instant \<Rightarrow> uuid \<Rightarrow> string \<Rightarrow> string \<Rightarrow> real option \<Rightarrow> alerts_engine \<Rightarrow> alerts_engine \<times> decision" where
  "observe_cpu now node_id hostname env cpu_pct e =
    (case cpu_pct of
       None \<Rightarrow> (e, Idle)
     | Some cpu \<Rightarrow>
         let hold = secs (max (cfg_cpu_hold_sec (ae_cfg e)) 60);
             threshold = cfg_cpu_threshold_pct (ae_cfg e);
             reset = min (cfg_cpu_reset_pct (ae_cfg e)) (threshold - 1)
         in if cpu \<ge> threshold then
              let (track, fired) = hold_step now hold (map_of (ae_cpu e) node_id);
                  e = e\<lparr>ae_cpu := AList.update node_id track (ae_cpu e)\<rparr>
              in (e, (case fired of None \<Rightarrow> Idle | Some held \<Rightarrow> Fire NodeCpuHigh node_id hostname env (int held) None))
            else if cpu < reset then (e\<lparr>ae_cpu := AList.delete node_id (ae_cpu e)\<rparr>, Idle)
            else (e, Idle))"

fun observe_disks ::
  "instant \<Rightarrow> nat \<Rightarrow> real \<Rightarrow> real \<Rightarrow> uuid \<Rightarrow> string \<Rightarrow> string \<Rightarrow> (string \<times> real) list \<Rightarrow>
   (uuid \<times> string, cpu_track) hashmap \<Rightarrow> decision option \<Rightarrow>
   (uuid \<times> string, cpu_track) hashmap \<times> decision option" where
  "observe_disks now hold threshold reset node_id hostname env [] disks fire = (disks, fire)"
| "observe_disks now hold threshold reset node_id hostname env ((mount, pct) # rest) disks fire =
    (if pct \<ge> threshold then
       let (track, fired) = hold_step now hold (map_of disks (node_id, mount));
           disks = AList.update (node_id, mount) track disks
       in observe_disks now hold threshold reset node_id hostname env rest disks
            (case fired of
               None \<Rightarrow> fire
             | Some held \<Rightarrow> Some (Fire NodeDiskHigh node_id hostname env (int held) (Some (Detail_Disk mount pct))))
     else if pct < reset then
       observe_disks now hold threshold reset node_id hostname env rest (AList.delete (node_id, mount) disks) fire
     else observe_disks now hold threshold reset node_id hostname env rest disks fire)"

definition observe_disk ::
  "instant \<Rightarrow> uuid \<Rightarrow> string \<Rightarrow> string \<Rightarrow> (string \<times> real) list \<Rightarrow> alerts_engine \<Rightarrow> alerts_engine \<times> decision option" where
  "observe_disk now node_id hostname env disks e =
    (let hold = secs (max (cfg_disk_hold_sec (ae_cfg e)) 60);
         threshold = cfg_disk_threshold_pct (ae_cfg e);
         reset = min (cfg_disk_reset_pct (ae_cfg e)) (threshold - 1);
         (d, fire) = observe_disks now hold threshold reset node_id hostname env disks (ae_disks e) None
     in (e\<lparr>ae_disks := d\<rparr>, fire))"

definition observe_restarts ::
  "instant \<Rightarrow> uuid \<Rightarrow> string \<Rightarrow> string \<Rightarrow> real option \<Rightarrow> alerts_engine \<Rightarrow> alerts_engine \<times> decision" where
  "observe_restarts now node_id hostname env uptime_sec e =
    (case uptime_sec of
       None \<Rightarrow> (e, Idle)
     | Some uptime \<Rightarrow>
         let window = secs (cfg_flap_window_sec (ae_cfg e)); threshold = max (cfg_flap_threshold (ae_cfg e)) 2
         in case map_of (ae_restarts e) node_id of
              None \<Rightarrow>
                (e\<lparr>ae_restarts := AList.update node_id
                     \<lparr> rt_last_uptime = uptime, rt_count = 0, rt_window_start = now, rt_alerted = False \<rparr>
                     (ae_restarts e)\<rparr>, Idle)
            | Some track \<Rightarrow>
                let restarted = (uptime + 5 < rt_last_uptime track);
                    track = track\<lparr>rt_last_uptime := uptime\<rparr>
                in if \<not> restarted then (e\<lparr>ae_restarts := AList.update node_id track (ae_restarts e)\<rparr>, Idle)
                   else
                     let track = (if now - rt_window_start track > window
                                  then track\<lparr>rt_count := 0, rt_window_start := now, rt_alerted := False\<rparr>
                                  else track);
                         track = track\<lparr>rt_count := rt_count track + 1\<rparr>
                     in if rt_alerted track \<or> rt_count track < threshold
                        then (e\<lparr>ae_restarts := AList.update node_id track (ae_restarts e)\<rparr>, Idle)
                        else (e\<lparr>ae_restarts := AList.update node_id (track\<lparr>rt_alerted := True\<rparr>) (ae_restarts e)\<rparr>,
                              Fire NodeFlapping node_id hostname env (int (rt_count track))
                                (Some (Detail_Restarts (rt_count track)))))"

section \<open>Seeding and cleaning up\<close>

definition checked_sub :: "nat \<Rightarrow> nat \<Rightarrow> nat option" where
  "checked_sub a b = (if b \<le> a then Some (a - b) else None)"

definition seed :: "instant \<Rightarrow> uuid \<Rightarrow> bool \<Rightarrow> alerts_engine \<Rightarrow> alerts_engine" where
  "seed now node_id already_alerted e =
    (let grace = secs (cfg_new_node_grace_sec (ae_cfg e));
         track = (case map_of (ae_nodes e) node_id of None \<Rightarrow> node_track_new now | Some t \<Rightarrow> t);
         track = track\<lparr>nt_first_seen := (case checked_sub now grace of None \<Rightarrow> now | Some t \<Rightarrow> t),
                       nt_alerted := already_alerted\<rparr>;
         track = (if already_alerted then track\<lparr>nt_offline_since := Some now\<rparr> else track)
     in e\<lparr>ae_nodes := AList.update node_id track (ae_nodes e)\<rparr>)"

definition is_alerted :: "alerts_engine \<Rightarrow> uuid \<Rightarrow> bool" where
  "is_alerted e node_id = (case map_of (ae_nodes e) node_id of None \<Rightarrow> False | Some t \<Rightarrow> nt_alerted t)"

definition retain_nodes :: "uuid list \<Rightarrow> alerts_engine \<Rightarrow> alerts_engine" where
  "retain_nodes alive e = e\<lparr>ae_nodes := filter (\<lambda>(i, _). i \<in> set alive) (ae_nodes e)\<rparr>"

section \<open>Runs of the silence rules\<close>

text \<open>One entry per call of \<open>observe\<close>: when, for which node, and what was decided.\<close>

type_synonym observation = "instant \<times> uuid \<times> decision"

inductive engine_run :: "alerts_config \<Rightarrow> observation list \<Rightarrow> alerts_engine \<Rightarrow> bool" for cfg where
  run_start: "engine_run cfg [] (engine_new cfg)"
| run_observe: "engine_run cfg obs e \<Longrightarrow> observe now n host env hb ms e = (e', d) \<Longrightarrow>
    engine_run cfg ((now, n, d) # obs) e'"
| run_cpu: "engine_run cfg obs e \<Longrightarrow> engine_run cfg obs (fst (observe_cpu now n host env pct e))"
| run_disk: "engine_run cfg obs e \<Longrightarrow> engine_run cfg obs (fst (observe_disk now n host env ds e))"
| run_restarts: "engine_run cfg obs e \<Longrightarrow> engine_run cfg obs (fst (observe_restarts now n host env up e))"

fun fired_kind :: "decision \<Rightarrow> alert_kind option" where
  "fired_kind Idle = None"
| "fired_kind (Fire k _ _ _ _ _) = Some k"

text \<open>
  The open episode of a node, read off the decisions (the latest first): whether an offline alert
  awaits its recovery, and whether it was escalated.
\<close>

fun episode :: "uuid \<Rightarrow> observation list \<Rightarrow> bool \<times> bool" where
  "episode n [] = (False, False)"
| "episode n ((_, m, d) # obs) =
    (if m \<noteq> n then episode n obs
     else case fired_kind d of
            Some NodeOffline \<Rightarrow> (True, False)
          | Some NodeRecovered \<Rightarrow> (False, False)
          | Some NodeOfflineLong \<Rightarrow> (fst (episode n obs), True)
          | _ \<Rightarrow> episode n obs)"

fun last_offline_alert :: "uuid \<Rightarrow> observation list \<Rightarrow> instant option" where
  "last_offline_alert n [] = None"
| "last_offline_alert n ((now, m, d) # obs) =
    (if m = n \<and> fired_kind d = Some NodeOffline then Some now else last_offline_alert n obs)"

fun first_observed :: "uuid \<Rightarrow> observation list \<Rightarrow> instant option" where
  "first_observed n [] = None"
| "first_observed n ((now, m, d) # obs) =
    (case first_observed n obs of Some t \<Rightarrow> Some t | None \<Rightarrow> if m = n then Some now else None)"

definition track_agrees :: "node_track option \<Rightarrow> uuid \<Rightarrow> observation list \<Rightarrow> bool" where
  "track_agrees tr n obs =
    (case tr of
       None \<Rightarrow> episode n obs = (False, False) \<and> last_offline_alert n obs = None \<and> first_observed n obs = None
     | Some t \<Rightarrow>
         episode n obs = (nt_alerted t, nt_long_alerted t)
         \<and> last_offline_alert n obs = map_of (nt_last_sent t) (alert_kind_as_str NodeOffline)
         \<and> first_observed n obs = Some (nt_first_seen t)
         \<and> (nt_long_alerted t \<longrightarrow> nt_alerted t))"

text \<open>The flapping rule leaves alone what the other rules read.\<close>

lemma observe_flap_frame:
  "observe_flap cfg now nn s t = (t', r) \<Longrightarrow>
     nt_alerted t' = nt_alerted t \<and> nt_long_alerted t' = nt_long_alerted t \<and>
     nt_last_sent t' = nt_last_sent t \<and> nt_first_seen t' = nt_first_seen t"
  by (auto simp: observe_flap_def Let_def split: if_splits)

lemma observe_flap_fires: "observe_flap cfg now nn s t = (t', Some c) \<Longrightarrow> \<not> nn"
  by (auto simp: observe_flap_def Let_def split: if_splits)

text \<open>The outcomes of one silence step.\<close>

lemma observe_silence_cases:
  assumes "observe_silence cfg now nn s t = (t', r)"
  obtains
    (quiet) "r = None" "nt_alerted t' = nt_alerted t" "nt_long_alerted t' = nt_long_alerted t"
      "nt_last_sent t' = nt_last_sent t" "nt_first_seen t' = nt_first_seen t"
  | (offline) d where "r = Some (NodeOffline, d)" "\<not> nt_alerted t" "nt_alerted t'" "\<not> nn"
      "nt_long_alerted t' = nt_long_alerted t" "nt_first_seen t' = nt_first_seen t"
      "nt_last_sent t' = AList.update (alert_kind_as_str NodeOffline) now (nt_last_sent t)"
      "\<not> throttled t NodeOffline now (cfg_throttle_sec cfg)"
  | (long) d where "r = Some (NodeOfflineLong, d)" "nt_alerted t" "\<not> nt_long_alerted t" "nt_alerted t'" "\<not> nn"
      "nt_long_alerted t'" "nt_last_sent t' = nt_last_sent t" "nt_first_seen t' = nt_first_seen t"
  | (recovered) d where "r = Some (NodeRecovered, d)" "nt_alerted t" "\<not> nt_alerted t'" "\<not> nt_long_alerted t'"
      "nt_last_sent t' = nt_last_sent t" "nt_first_seen t' = nt_first_seen t"
  using assms by (auto simp: observe_silence_def Let_def throttled_def split: if_splits)

text \<open>The track that \<open>observe\<close> works on: the stored one or a fresh one.\<close>

definition current_track :: "instant \<Rightarrow> node_track option \<Rightarrow> node_track" where
  "current_track now tr = (case tr of None \<Rightarrow> node_track_new now | Some t \<Rightarrow> t)"

definition current_agrees :: "instant \<Rightarrow> node_track \<Rightarrow> uuid \<Rightarrow> observation list \<Rightarrow> bool" where
  "current_agrees now t n obs \<longleftrightarrow>
     episode n obs = (nt_alerted t, nt_long_alerted t)
     \<and> last_offline_alert n obs = map_of (nt_last_sent t) (alert_kind_as_str NodeOffline)
     \<and> (case first_observed n obs of Some f \<Rightarrow> f | None \<Rightarrow> now) = nt_first_seen t
     \<and> (nt_long_alerted t \<longrightarrow> nt_alerted t)"

lemma current_agreesI: "track_agrees tr n obs \<Longrightarrow> current_agrees now (current_track now tr) n obs"
  by (cases tr) (auto simp: track_agrees_def current_agrees_def current_track_def node_track_new_def)

text \<open>The outcomes of one call, from the rules' outcomes.\<close>

lemma observe_track_agrees:
  assumes "current_agrees now t n obs" "observe_track cfg now hb ms t = (t', r)" "fired_kind d = map_option fst r"
  shows "track_agrees (Some t') n ((now, n, d) # obs)"
proof (cases hb)
  case None
  then show ?thesis
    using assms by (auto simp: observe_track_def Let_def track_agrees_def current_agrees_def split: option.splits)
next
  case (Some last_ms)
  define nn where "nn = (now - nt_first_seen t < secs (cfg_new_node_grace_sec cfg))"
  define s where "s = tdiv (ms - last_ms) 1000"
  obtain t1 f where flap: "observe_flap cfg now nn s t = (t1, f)" by fastforce
  note frame = observe_flap_frame[OF flap]
  have a1: "current_agrees now t1 n obs" using assms(1) frame by (simp add: current_agrees_def)
  show ?thesis
  proof (cases f)
    case (Some c)
    then have "t' = t1" "r = Some (NodeFlapping, int c)"
      using assms(2) flap by (auto simp: observe_track_def Let_def \<open>hb = Some last_ms\<close> nn_def s_def)
    then show ?thesis
      using a1 assms(3) by (auto simp: track_agrees_def current_agrees_def split: option.splits)
  next
    case None
    then have "observe_silence cfg now nn s t1 = (t', r)"
      using assms(2) flap by (auto simp: observe_track_def Let_def \<open>hb = Some last_ms\<close> nn_def s_def)
    then show ?thesis
      by (cases rule: observe_silence_cases)
        (use a1 assms(3) in \<open>auto simp: track_agrees_def current_agrees_def split: option.splits\<close>)
  qed
qed

text \<open>What the track says when a rule fires.\<close>

lemma observe_track_kinds:
  assumes "observe_track cfg now hb ms t = (t', r)"
  shows "case map_option fst r of
       Some NodeOffline \<Rightarrow> \<not> nt_alerted t \<and> \<not> throttled t NodeOffline now (cfg_throttle_sec cfg)
         \<and> secs (cfg_new_node_grace_sec cfg) \<le> now - nt_first_seen t
     | Some NodeRecovered \<Rightarrow> nt_alerted t
     | Some NodeOfflineLong \<Rightarrow> nt_alerted t \<and> \<not> nt_long_alerted t
         \<and> secs (cfg_new_node_grace_sec cfg) \<le> now - nt_first_seen t
     | Some NodeFlapping \<Rightarrow> secs (cfg_new_node_grace_sec cfg) \<le> now - nt_first_seen t
     | Some _ \<Rightarrow> False
     | None \<Rightarrow> True"
proof (cases hb)
  case None
  then show ?thesis using assms by (simp add: observe_track_def Let_def)
next
  case (Some last_ms)
  define nn where "nn = (now - nt_first_seen t < secs (cfg_new_node_grace_sec cfg))"
  define s where "s = tdiv (ms - last_ms) 1000"
  obtain t1 f where flap: "observe_flap cfg now nn s t = (t1, f)" by fastforce
  note frame = observe_flap_frame[OF flap]
  show ?thesis
  proof (cases f)
    case (Some c)
    then have "r = Some (NodeFlapping, int c)"
      using assms flap by (auto simp: observe_track_def Let_def \<open>hb = Some last_ms\<close> nn_def s_def)
    moreover have "\<not> nn" using observe_flap_fires flap Some by blast
    ultimately show ?thesis by (simp add: nn_def)
  next
    case None
    then have "observe_silence cfg now nn s t1 = (t', r)"
      using assms flap by (auto simp: observe_track_def Let_def \<open>hb = Some last_ms\<close> nn_def s_def)
    then show ?thesis
      by (cases rule: observe_silence_cases) (use frame in \<open>auto simp: nn_def throttled_def\<close>)
  qed
qed

lemma observe_eq:
  assumes "observe now n host env hb ms e = (e', d)"
  obtains t' r where "observe_track (ae_cfg e) now hb ms (current_track now (map_of (ae_nodes e) n)) = (t', r)"
    "ae_nodes e' = AList.update n t' (ae_nodes e)" "ae_cfg e' = ae_cfg e"
    "d = (case r of None \<Rightarrow> Idle | Some (k, dur) \<Rightarrow> Fire k n host env dur None)"
  using assms by (auto simp: observe_def Let_def current_track_def split: prod.splits)

lemma other_rules_frame:
  "ae_nodes (fst (observe_cpu now n host env pct e)) = ae_nodes e"
  "ae_cfg (fst (observe_cpu now n host env pct e)) = ae_cfg e"
  "ae_nodes (fst (observe_disk now n host env ds e)) = ae_nodes e"
  "ae_cfg (fst (observe_disk now n host env ds e)) = ae_cfg e"
  "ae_nodes (fst (observe_restarts now n host env up e)) = ae_nodes e"
  "ae_cfg (fst (observe_restarts now n host env up e)) = ae_cfg e"
  by (auto simp: observe_cpu_def observe_disk_def observe_restarts_def Let_def
      split: option.splits prod.splits)

lemma fired_kind_case:
  "fired_kind (case r of None \<Rightarrow> Idle | Some (k, dur) \<Rightarrow> Fire k n h v dur x) = map_option fst r"
  by (auto split: option.splits)

lemma engine_run_agrees:
  "engine_run cfg obs e \<Longrightarrow> ae_cfg e = cfg \<and> (\<forall>n. track_agrees (map_of (ae_nodes e) n) n obs)"
proof (induction rule: engine_run.induct)
  case run_start
  then show ?case by (simp add: engine_new_def track_agrees_def)
next
  case (run_observe obs e now n host env hb ms e' d)
  from run_observe.hyps(2) obtain t' r where o:
    "observe_track (ae_cfg e) now hb ms (current_track now (map_of (ae_nodes e) n)) = (t', r)"
    "ae_nodes e' = AList.update n t' (ae_nodes e)" "ae_cfg e' = ae_cfg e"
    "d = (case r of None \<Rightarrow> Idle | Some (k, dur) \<Rightarrow> Fire k n host env dur None)"
    by (rule observe_eq)
  have "track_agrees (Some t') n ((now, n, d) # obs)"
    using observe_track_agrees[OF current_agreesI o(1)] run_observe.IH fired_kind_case o(4) by blast
  moreover have "track_agrees (map_of (ae_nodes e) m) m ((now, n, d) # obs)" if "m \<noteq> n" for m
  proof -
    have "track_agrees (map_of (ae_nodes e) m) m obs" using run_observe.IH by blast
    then show ?thesis
      using that by (cases "map_of (ae_nodes e) m") (simp_all add: track_agrees_def)
  qed
  ultimately show ?case using run_observe.IH o(2,3) by simp
qed (simp_all add: other_rules_frame)

section \<open>Properties\<close>





definition flap_call :: "nat \<Rightarrow> bool \<Rightarrow> alerts_engine \<Rightarrow> alerts_engine \<times> decision" where
  "flap_call sec silent e =
     observe (secs sec) 1 ''n1'' ''ru'' (Some (if silent then 0 else 150000)) 150000 e"

fun flap_calls :: "(nat \<times> bool) list \<Rightarrow> alerts_engine \<Rightarrow> (nat \<times> alert_kind option) list" where
  "flap_calls [] e = []"
| "flap_calls ((sec, silent) # rest) e =
     (case flap_call sec silent e of (e', d) \<Rightarrow> (sec, fired_kind d) # flap_calls rest e')"

text \<open>
  The throttle covers offline alerts only. With the default settings there is a run in
  which the same node gets two flapping alerts 404 seconds apart, although the module's
  description limits every kind of alert per node to one in 1800 seconds.
\<close>

theorem flapping_not_throttled:
  "flap_calls [(0, False), (1000, True), (1200, False), (1400, True), (1600, False), (4600, True),
      (4700, False), (5001, True), (5002, False), (5004, True)] (engine_new alerts_config_default)
   = [(0, None), (1000, None), (1200, None), (1400, None), (1600, None), (4600, Some NodeFlapping),
      (4700, None), (5001, None), (5002, None), (5004, Some NodeFlapping)]"
  by (simp add: flap_call_def observe_def engine_new_def observe_track_def observe_flap_def observe_silence_def
      alerts_config_default_def node_track_new_def tdiv_def Let_def secs_def as_secs_def throttled_def get_or_insert_def)

end
