(* ===== verification/Ascii_Text.thy ===== *)
theory Ascii_Text
  imports Fcore_Prelude
begin

text \<open>
  The parts of Rust's text handling that the models use: printing and parsing of decimal numbers,
  splitting at a character, lines, and the dotted form of an IPv4 address. Strings are ASCII.
\<close>

section \<open>Decimal numbers\<close>

fun show_nat :: "nat \<Rightarrow> string" where
  "show_nat n = (if n < 10 then [char_of (48 + n)] else show_nat (n div 10) @ [char_of (48 + n mod 10)])"

declare show_nat.simps [simp del]

definition show_int :: "int \<Rightarrow> string" where
  "show_int i = (if i < 0 then CHR ''-'' # show_nat (nat (- i)) else show_nat (nat i))"

definition is_digit :: "char \<Rightarrow> bool" where
  "is_digit c \<longleftrightarrow> 48 \<le> (of_char c :: nat) \<and> (of_char c :: nat) \<le> 57"

definition digits_value :: "string \<Rightarrow> nat" where
  "digits_value s = foldl (\<lambda>v c. 10 * v + (of_char c - 48)) 0 s"

lemma of_char_digit: "n < 10 \<Longrightarrow> (of_char (char_of (48 + n)) :: nat) = 48 + n"
  by simp

lemma digits_value_snoc: "digits_value (s @ [c]) = 10 * digits_value s + (of_char c - 48)"
  by (simp add: digits_value_def)

lemma digits_value_show_nat [simp]: "digits_value (show_nat n) = n"
proof (induction n rule: show_nat.induct)
  case (1 n)
  show ?case
  proof (cases "n < 10")
    case True
    then show ?thesis by (subst show_nat.simps) (simp add: digits_value_def of_char_digit)
  next
    case False
    then have "digits_value (show_nat (n div 10)) = n div 10" using "1.IH" by simp
    then show ?thesis
      using False by (subst show_nat.simps) (simp add: digits_value_snoc of_char_digit del: of_char_of)
  qed
qed

lemma show_nat_inj: "show_nat m = show_nat n \<Longrightarrow> m = n"
  using digits_value_show_nat by metis

lemma show_nat_digits: "\<forall>c \<in> set (show_nat n). is_digit c"
proof (induction n rule: show_nat.induct)
  case (1 n)
  have d: "is_digit (char_of (48 + k))" if "k < 10" for k :: nat
    using that of_char_digit[OF that] by (simp add: is_digit_def)
  show ?case
  proof (cases "n < 10")
    case True
    then show ?thesis using d by (subst show_nat.simps) simp
  next
    case False
    then show ?thesis using d[of "n mod 10"] "1.IH" by (subst show_nat.simps) simp
  qed
qed

lemma show_nat_nonempty [simp]: "show_nat n \<noteq> []"
  by (subst show_nat.simps) simp

text \<open>A number of \<open>w\<close> digits prints as \<open>w\<close> characters, the first of which is not zero.\<close>

lemma length_show_nat: "10 ^ w \<le> n \<Longrightarrow> n < 10 ^ Suc w \<Longrightarrow> length (show_nat n) = Suc w"
proof (induction w arbitrary: n)
  case 0
  then show ?case by (subst show_nat.simps) simp
next
  case (Suc w)
  have "(10::nat) \<le> 10 ^ Suc w" using self_le_power[of "10::nat" "Suc w"] by simp
  then have "\<not> n < 10" using Suc.prems(1) by linarith
  moreover have "10 ^ w \<le> n div 10" "n div 10 < 10 ^ Suc w"
    using Suc.prems by (simp_all add: less_eq_div_iff_mult_less_eq div_less_iff_less_mult mult.commute)
  ultimately show ?case using Suc.IH[of "n div 10"] by (subst show_nat.simps) simp
qed

lemma hd_show_nat: "0 < n \<Longrightarrow> hd (show_nat n) \<noteq> CHR ''0''"
proof (induction n rule: show_nat.induct)
  case (1 n)
  show ?case
  proof (cases "n < 10")
    case True
    have "(of_char (char_of (48 + n)) :: nat) \<noteq> of_char CHR ''0''"
      using of_char_digit[OF True] "1.prems" by simp
    then show ?thesis using True by (subst show_nat.simps) (metis list.sel(1))
  next
    case False
    then have "hd (show_nat (n div 10)) \<noteq> CHR ''0''" using "1.IH" by simp
    then show ?thesis using False by (subst show_nat.simps) simp
  qed
qed

lemma not_digit_minus: "\<not> is_digit CHR ''-''" "\<not> is_digit CHR 0x0A"
  by (simp_all add: is_digit_def)

lemma show_int_inj: "show_int i = show_int j \<Longrightarrow> i = j"
proof -
  have m: "CHR ''-'' # s \<noteq> show_nat n" for s n
    using show_nat_digits[of n] not_digit_minus(1) by (metis list.set_intros(1))
  assume eq: "show_int i = show_int j"
  then have "i < 0 \<longleftrightarrow> j < 0" using m unfolding show_int_def by (metis (full_types))
  then show ?thesis using eq show_nat_inj unfolding show_int_def by (cases "i < 0") fastforce+
qed

lemma show_int_no_newline: "CHR 0x0A \<notin> set (show_int i)"
  using show_nat_digits not_digit_minus(2) by (auto simp: show_int_def)

section \<open>Lines\<close>

abbreviation newline :: char where
  "newline \<equiv> CHR 0x0A"

fun join_lines :: "string list \<Rightarrow> string" where
  "join_lines [] = []"
| "join_lines [x] = x"
| "join_lines (x # y # rest) = x @ newline # join_lines (y # rest)"

definition one_line :: "string \<Rightarrow> bool" where
  "one_line s \<longleftrightarrow> newline \<notin> set s"

lemma one_line_show_int [simp]: "one_line (show_int i)"
  by (simp add: one_line_def show_int_no_newline)

lemma join_lines_split:
  assumes "one_line x"
  shows "takeWhile (\<lambda>c. c \<noteq> newline) (join_lines (x # xs)) = x"
    and "dropWhile (\<lambda>c. c \<noteq> newline) (join_lines (x # xs)) = (if xs = [] then [] else newline # join_lines xs)"
proof -
  have "\<forall>c \<in> set x. c \<noteq> newline" using assms unfolding one_line_def by blast
  then show "takeWhile (\<lambda>c. c \<noteq> newline) (join_lines (x # xs)) = x"
    and "dropWhile (\<lambda>c. c \<noteq> newline) (join_lines (x # xs)) = (if xs = [] then [] else newline # join_lines xs)"
    by (cases xs; simp add: takeWhile_eq_all_conv dropWhile_eq_Nil_conv takeWhile_append2 dropWhile_append2)+
qed

text \<open>Texts without line breaks are recovered from their joined lines.\<close>

lemma join_lines_inj:
  assumes "join_lines xs = join_lines ys" "xs \<noteq> []" "ys \<noteq> []"
    and "\<forall>x \<in> set xs. one_line x" "\<forall>y \<in> set ys. one_line y"
  shows "xs = ys"
  using assms
proof (induction xs arbitrary: ys)
  case (Cons x xs)
  then obtain y ys' where ys: "ys = y # ys'" by (cases ys) auto
  have one: "one_line x" "one_line y" using Cons.prems ys by auto
  have "x = y" and d: "(if xs = [] then [] else newline # join_lines xs) = (if ys' = [] then [] else newline # join_lines ys')"
    using join_lines_split[OF one(1), of xs] join_lines_split[OF one(2), of ys'] Cons.prems(1) ys by metis+
  show ?case
  proof (cases "xs = []")
    case True
    then show ?thesis using d ys \<open>x = y\<close> by (auto split: if_splits)
  next
    case False
    then have "ys' \<noteq> []" "join_lines xs = join_lines ys'" using d by (auto split: if_splits)
    then show ?thesis using Cons.IH[of ys'] Cons.prems ys False \<open>x = y\<close> by auto
  qed
qed simp

section \<open>Parsing numbers\<close>

text \<open>
  \<open>str::parse\<close> for an unsigned type with the largest value \<open>m\<close>: an optional plus sign and at
  least one digit.
\<close>

definition parse_unsigned :: "nat \<Rightarrow> string \<Rightarrow> nat option" where
  "parse_unsigned m s =
    (let t = (case s of [] \<Rightarrow> [] | c # r \<Rightarrow> if c = CHR ''+'' then r else s)
     in if t = [] \<or> \<not> list_all is_digit t \<or> m < digits_value t then None else Some (digits_value t))"

definition parse_u16 :: "string \<Rightarrow> 16 word option" where
  "parse_u16 s = map_option of_nat (parse_unsigned 65535 s)"

definition parse_u8 :: "string \<Rightarrow> 8 word option" where
  "parse_u8 s = map_option of_nat (parse_unsigned 255 s)"

definition show_word :: "'a::len word \<Rightarrow> string" where
  "show_word w = show_nat (unat w)"

lemma not_digit_plus: "\<not> is_digit CHR ''+''"
  by (simp add: is_digit_def)

lemma parse_unsigned_show_nat: "n \<le> m \<Longrightarrow> parse_unsigned m (show_nat n) = Some n"
proof -
  assume n: "n \<le> m"
  obtain c r where s: "show_nat n = c # r" by (cases "show_nat n") auto
  have dig: "list_all is_digit (show_nat n)" using show_nat_digits by (simp add: list_all_iff)
  then have "c \<noteq> CHR ''+''" using s not_digit_plus by auto
  then show ?thesis using n dig s digits_value_show_nat[of n] by (auto simp: parse_unsigned_def)
qed

lemma parse_u16_show [simp]: "parse_u16 (show_word w) = Some (w :: 16 word)"
proof -
  have "unat w < 2 ^ LENGTH(16)" by (rule unsigned_less)
  then have "unat w \<le> 65535" by simp
  then show ?thesis by (simp add: parse_u16_def show_word_def parse_unsigned_show_nat)
qed

lemma parse_u8_show [simp]: "parse_u8 (show_word w) = Some (w :: 8 word)"
proof -
  have "unat w < 2 ^ LENGTH(8)" by (rule unsigned_less)
  then have "unat w \<le> 255" by simp
  then show ?thesis by (simp add: parse_u8_def show_word_def parse_unsigned_show_nat)
qed

section \<open>Splitting\<close>

text \<open>\<open>str::split\<close> at a character: always at least one piece.\<close>

fun split_on :: "char \<Rightarrow> string \<Rightarrow> string list" where
  "split_on d [] = [[]]"
| "split_on d (c # s) =
     (if c = d then [] # split_on d s
      else case split_on d s of [] \<Rightarrow> [[c]] | p # ps \<Rightarrow> (c # p) # ps)"

fun join_with :: "string \<Rightarrow> string list \<Rightarrow> string" where
  "join_with d [] = []"
| "join_with d [x] = x"
| "join_with d (x # y # rest) = x @ d @ join_with d (y # rest)"

lemma split_on_nonempty [simp]: "split_on d s \<noteq> []"
  by (induction s) (auto split: list.splits)

lemma split_on_none: "d \<notin> set s \<Longrightarrow> split_on d s = [s]"
  by (induction s) auto

lemma split_on_append: "d \<notin> set s \<Longrightarrow> split_on d (s @ d # t) = s # split_on d t"
  by (induction s) (auto split: list.splits)

lemma split_on_join: "xs \<noteq> [] \<Longrightarrow> \<forall>x \<in> set xs. d \<notin> set x \<Longrightarrow> split_on d (join_with [d] xs) = xs"
proof (induction xs)
  case (Cons x xs)
  then show ?case by (cases xs) (simp_all add: split_on_none split_on_append)
qed simp

lemma split_on_pieces: "\<forall>p \<in> set (split_on d s). d \<notin> set p"
  by (induction s) (auto split: list.splits)

lemma join_split_on: "join_with [d] (split_on d s) = s"
proof (induction s)
  case (Cons c s)
  then show ?case
    by (cases "split_on d s"; cases "tl (split_on d s)") auto
qed simp

text \<open>
  \<open>str::lines\<close>: a line ends at a line feed, with the carriage return before it if there is one;
  the text after the last line feed is a line when it is not empty.
\<close>

definition strip_cr :: "string \<Rightarrow> string" where
  "strip_cr s = (if s \<noteq> [] \<and> last s = CHR 0x0D then butlast s else s)"

definition text_lines :: "string \<Rightarrow> string list" where
  "text_lines s =
    (let ps = split_on newline s
     in map strip_cr (butlast ps) @ (if last ps = [] then [] else [last ps]))"

definition end_lines :: "string list \<Rightarrow> string" where
  "end_lines ls = concat (map (\<lambda>l. l @ [newline]) ls)"

definition plain_line :: "string \<Rightarrow> bool" where
  "plain_line l \<longleftrightarrow> newline \<notin> set l \<and> (l = [] \<or> last l \<noteq> CHR 0x0D)"

lemma strip_cr_plain: "plain_line l \<Longrightarrow> strip_cr l = l"
  by (auto simp: strip_cr_def plain_line_def)

lemma end_lines_Cons: "end_lines (l # ls) = l @ newline # end_lines ls"
  by (simp add: end_lines_def)

lemma end_lines_append: "end_lines (ls @ ks) = end_lines ls @ end_lines ks"
  by (simp add: end_lines_def)

lemma split_end_lines: "\<forall>l \<in> set ls. plain_line l \<Longrightarrow> split_on newline (end_lines ls) = ls @ [[]]"
  by (induction ls) (auto simp: end_lines_def split_on_append plain_line_def)

lemma text_lines_end_lines: "\<forall>l \<in> set ls. plain_line l \<Longrightarrow> text_lines (end_lines ls) = ls"
  by (simp add: text_lines_def split_end_lines strip_cr_plain map_idI)

section \<open>IPv4 addresses\<close>

definition octets :: "32 word \<Rightarrow> nat list" where
  "octets a = (let n = unat a in [n div 2 ^ 24, (n div 2 ^ 16) mod 256, (n div 2 ^ 8) mod 256, n mod 256])"

definition show_ipv4 :: "32 word \<Rightarrow> string" where
  "show_ipv4 a = join_with ''.'' (map show_nat (octets a))"

definition parse_octet :: "string \<Rightarrow> nat option" where
  "parse_octet s =
    (if s = [] \<or> 3 < length s \<or> \<not> list_all is_digit s \<or> (hd s = CHR ''0'' \<and> 1 < length s)
        \<or> 255 < digits_value s
     then None else Some (digits_value s))"

definition parse_ipv4 :: "string \<Rightarrow> 32 word option" where
  "parse_ipv4 s =
    (case map parse_octet (split_on (CHR ''.'') s) of
       [Some a, Some b, Some c, Some d] \<Rightarrow> Some (of_nat (a * 2 ^ 24 + b * 2 ^ 16 + c * 2 ^ 8 + d))
     | _ \<Rightarrow> None)"

lemma length_show_nat_255: "n \<le> 255 \<Longrightarrow> length (show_nat n) \<le> 3"
proof -
  assume n: "n \<le> 255"
  consider "n < 10" | "10 \<le> n" "n < 100" | "100 \<le> n" by linarith
  then show ?thesis
  proof cases
    case 1
    then show ?thesis by (subst show_nat.simps) simp
  next
    case 2
    then show ?thesis using length_show_nat[of 1 n] by simp
  next
    case 3
    then show ?thesis using length_show_nat[of 2 n] n by simp
  qed
qed

lemma parse_octet_show: "n \<le> 255 \<Longrightarrow> parse_octet (show_nat n) = Some n"
proof -
  assume n: "n \<le> 255"
  have z: "\<not> (hd (show_nat n) = CHR ''0'' \<and> 1 < length (show_nat n))"
  proof (cases "n = 0")
    case True
    then show ?thesis by (subst (2) show_nat.simps) simp
  next
    case False
    then show ?thesis using hd_show_nat by blast
  qed
  have d: "list_all is_digit (show_nat n)" using show_nat_digits by (simp add: list_all_iff)
  show ?thesis
    unfolding parse_octet_def using z d n length_show_nat_255[OF n] by auto
qed

lemma not_digit_dot: "\<not> is_digit CHR ''.''"
  by (simp add: is_digit_def)

lemma octets_sum: "(case octets a of [x, y, z, w] \<Rightarrow> x * 2 ^ 24 + y * 2 ^ 16 + z * 2 ^ 8 + w | _ \<Rightarrow> 0) = unat a"
proof -
  define n q r where "n = unat a" and "q = n div 256" and "r = q div 256"
  have d: "n div 2 ^ 24 = r div 256" "n div 2 ^ 16 = r" "n div 2 ^ 8 = q"
    by (simp_all add: q_def r_def div_mult2_eq[symmetric])
  have "n = 256 * q + n mod 256" "q = 256 * r + q mod 256" "r = 256 * (r div 256) + r mod 256"
    unfolding q_def r_def by simp_all
  then have "r div 256 * 16777216 + r mod 256 * 65536 + q mod 256 * 256 + n mod 256 = n" by linarith
  then show ?thesis unfolding octets_def Let_def n_def[symmetric] list.case d by simp
qed

lemma octets_bound: "\<forall>n \<in> set (octets a). n \<le> 255"
proof -
  have "unat a < 2 ^ LENGTH(32)" by (rule unsigned_less)
  then have "unat a div 2 ^ 24 \<le> 255" by simp
  then show ?thesis by (auto simp: octets_def Let_def less_Suc_eq_le[symmetric])
qed

lemma parse_show_ipv4 [simp]: "parse_ipv4 (show_ipv4 a) = Some a"
proof -
  obtain x y z w where o: "octets a = [x, y, z, w]" by (simp add: octets_def Let_def)
  have b: "x \<le> 255" "y \<le> 255" "z \<le> 255" "w \<le> 255" using octets_bound[of a] o by auto
  have nodot: "\<forall>p \<in> set (map show_nat (octets a)). CHR ''.'' \<notin> set p"
    using show_nat_digits not_digit_dot by auto
  have "split_on (CHR ''.'') (show_ipv4 a) = map show_nat (octets a)"
    unfolding show_ipv4_def using nodot by (intro split_on_join) (simp_all add: o)
  then have "parse_ipv4 (show_ipv4 a) = Some (of_nat (x * 2 ^ 24 + y * 2 ^ 16 + z * 2 ^ 8 + w))"
    unfolding parse_ipv4_def using o b by (simp add: parse_octet_show)
  moreover have "x * 2 ^ 24 + y * 2 ^ 16 + z * 2 ^ 8 + w = unat a"
    using octets_sum[of a] unfolding o list.case .
  ultimately show ?thesis by (simp only: of_nat_unat unsigned_ucast_eq ucast_id)
qed

end
