(* ===== verification/Mesh_Common.thy ===== *)
theory Mesh_Common
  imports Ascii_Text
begin

text \<open>
  What the two mesh relays, \<^verbatim>\<open>src/mesh/mod.rs\<close> and \<^verbatim>\<open>src/bin/mesh/store.rs\<close>, share: the
  freshness check of a signed timestamp, the
  signature check, and the contract of a mailbox. The hexadecimal and Base64 decoders and the
  Ed25519 primitives belong to other packages and are parameters.
\<close>

section \<open>Freshness of a timestamp\<close>

definition TS_SKEW_SECS :: int where "TS_SKEW_SECS = 300"
definition SLOT_TTL_SECS :: int where "SLOT_TTL_SECS = 7 * 24 * 3600"
definition ONLINE_WINDOW_SECS :: int where "ONLINE_WINDOW_SECS = 300"

text \<open>Both relays have the same \<open>check_ts\<close>; \<open>ts\<close> is any \<open>i64\<close> the client sends.\<close>

definition check_ts :: "int \<Rightarrow> int \<Rightarrow> bool" where
  "check_ts ts now \<longleftrightarrow> \<not> wrap64 \<bar>wrap64 (now - ts)\<bar> > TS_SKEW_SECS"

section \<open>Signatures\<close>

record mesh_crypto =
  hex_decode :: "string \<Rightarrow> byte list option"
  b64_decode :: "string \<Rightarrow> byte list option"
  vk_from_bytes :: "byte list \<Rightarrow> bool"
  vk_verify :: "byte list \<Rightarrow> string \<Rightarrow> byte list \<Rightarrow> bool"

section \<open>Mailboxes\<close>

text \<open>
  A relay seen from outside: a step of the relay at a given time puts messages, each with the
  time at which it expires, into the boxes of their destinations, or takes a whole box out.
\<close>

datatype ('d, 'm) mail_event = Mail_Stored 'd 'm int | Mail_Taken 'd "'m list"

fun mail_box :: "'d \<Rightarrow> ('d, 'm) mail_event \<Rightarrow> ('m \<times> int) list \<Rightarrow> ('m \<times> int) list" where
  "mail_box d (Mail_Stored d' m x) box = (if d' = d then box @ [(m, x)] else box)"
| "mail_box d (Mail_Taken d' ms) box = (if d' = d then [] else box)"

definition live :: "int \<Rightarrow> ('m \<times> int) list \<Rightarrow> ('m \<times> int) list" where
  "live t box = filter (\<lambda>(m, x). t < x) box"

text \<open>What was stored for a destination since it was last emptied.\<close>

definition undelivered :: "'d \<Rightarrow> (int \<times> ('d, 'm) mail_event list) list \<Rightarrow> ('m \<times> int) list" where
  "undelivered d h = fold (mail_box d) (concat (map snd h)) []"

text \<open>A run of a relay: its history of timed steps, oldest first, and the last time.\<close>

inductive mail_run ::
  "('s \<Rightarrow> int \<Rightarrow> ('d, 'm) mail_event list \<Rightarrow> 's \<Rightarrow> bool) \<Rightarrow> 's \<Rightarrow>
   (int \<times> ('d, 'm) mail_event list) list \<Rightarrow> 's \<Rightarrow> int \<Rightarrow> bool"
  for step start where
  run_start: "mail_run step start [] start t"
| run_step: "mail_run step start h s t \<Longrightarrow> t \<le> now \<Longrightarrow> step s now evs s' \<Longrightarrow>
     mail_run step start (h @ [(now, evs)]) s' now"

lemma live_append [simp]: "live t (xs @ ys) = live t xs @ live t ys"
  by (simp add: live_def)

lemma live_Nil [simp]: "live t [] = []"
  by (simp add: live_def)

lemma live_live: "t \<le> t' \<Longrightarrow> live t' (live t xs) = live t' xs"
  by (auto simp: live_def intro!: filter_cong)

lemma live_later: "live t xs = live t ys \<Longrightarrow> t \<le> t' \<Longrightarrow> live t' xs = live t' ys"
  by (metis live_live)

lemma length_live_later: "t \<le> t' \<Longrightarrow> length (live t' xs) \<le> length (live t xs)"
  using live_live[of t t' xs] by (metis length_filter_le live_def)

lemma live_mail_box: "live t b = live t b' \<Longrightarrow> live t (mail_box d e b) = live t (mail_box d e b')"
  by (cases e) simp_all

lemma live_fold_mail_box:
  "live t b = live t b' \<Longrightarrow> live t (fold (mail_box d) es b) = live t (fold (mail_box d) es b')"
proof (induction es arbitrary: b b')
  case (Cons e es)
  show ?case using Cons.IH[OF live_mail_box[OF Cons.prems]] by simp
qed simp

lemma undelivered_snoc:
  "undelivered d (h @ [(now, evs)]) = fold (mail_box d) evs (undelivered d h)"
  by (simp add: undelivered_def)

text \<open>
  The contract: a step changes the unexpired contents of every box as its events say, what it
  takes out is the unexpired contents, and no box ever holds more than \<open>cap\<close> unexpired messages.
\<close>

locale mailbox =
  fixes inv :: "'s \<Rightarrow> bool"
    and slots_of :: "'s \<Rightarrow> 'd \<Rightarrow> ('m \<times> int) list"
    and step :: "'s \<Rightarrow> int \<Rightarrow> ('d, 'm) mail_event list \<Rightarrow> 's \<Rightarrow> bool"
    and start :: 's
    and cap :: nat
  assumes start_inv: "inv start"
    and start_slots: "slots_of start d = []"
    and step_inv: "inv s \<Longrightarrow> step s now evs s' \<Longrightarrow> inv s'"
    and step_slots: "inv s \<Longrightarrow> step s now evs s' \<Longrightarrow>
          live now (slots_of s' d) = live now (fold (mail_box d) evs (slots_of s d))"
    and step_taken: "inv s \<Longrightarrow> step s now evs s' \<Longrightarrow> Mail_Taken d ms \<in> set evs \<Longrightarrow>
          ms = map fst (live now (slots_of s d))"
    and step_cap: "inv s \<Longrightarrow> step s now evs s' \<Longrightarrow> length (live now (slots_of s d)) \<le> cap \<Longrightarrow>
          length (live now (slots_of s' d)) \<le> cap"
begin

lemma run_inv: "mail_run step start h s t \<Longrightarrow> inv s"
  by (induction rule: mail_run.induct) (auto intro: start_inv step_inv)

lemma run_slots: "mail_run step start h s t \<Longrightarrow> live t (slots_of s d) = live t (undelivered d h)"
proof (induction rule: mail_run.induct)
  case (run_start t)
  then show ?case by (simp add: start_slots undelivered_def)
next
  case (run_step h s t now evs s')
  have "live now (slots_of s d) = live now (undelivered d h)"
    using run_step.IH run_step.hyps(2) by (rule live_later)
  then show ?case
    unfolding undelivered_snoc step_slots[OF run_inv[OF run_step.hyps(1)] run_step.hyps(3)]
    by (rule live_fold_mail_box)
qed

lemma run_taken:
  assumes "mail_run step start h s t" "t \<le> now" "step s now evs s'" "Mail_Taken d ms \<in> set evs"
  shows "ms = map fst (live now (undelivered d h))"
  using step_taken[OF run_inv[OF assms(1)] assms(3,4)] live_later[OF run_slots[OF assms(1)] assms(2)] by simp

lemma run_cap: "mail_run step start h s t \<Longrightarrow> length (live t (slots_of s d)) \<le> cap"
proof (induction rule: mail_run.induct)
  case (run_start t)
  then show ?case by (simp add: start_slots)
next
  case (run_step h s t now evs s')
  have "length (live now (slots_of s d)) \<le> cap"
    using run_step.IH length_live_later[OF run_step.hyps(2)] le_trans by blast
  then show ?case by (rule step_cap[OF run_inv[OF run_step.hyps(1)] run_step.hyps(3)])
qed

end

section \<open>Properties\<close>

lemma wrap64_over: "2 ^ 63 \<le> x \<Longrightarrow> x < 2 ^ 64 + 2 ^ 63 \<Longrightarrow> wrap64 x = x - 2 ^ 64"
proof -
  assume "2 ^ 63 \<le> x" "x < 2 ^ 64 + 2 ^ 63"
  then have "(x + 2 ^ 63 - 2 ^ 64) mod 2 ^ 64 = x + 2 ^ 63 - 2 ^ 64" by (intro mod_pos_pos_trivial) simp_all
  moreover have "(x + 2 ^ 63) mod 2 ^ 64 = (x + 2 ^ 63 - 2 ^ 64) mod 2 ^ 64" by (rule minus_mod_self2[symmetric])
  ultimately show ?thesis unfolding wrap64_def by simp
qed

text \<open>
  A signed timestamp is accepted exactly when it is within five minutes of the server's
  clock, with one exception: the subtraction and the absolute value wrap around, so the
  timestamp that lies 2 to the 63 seconds in the past is accepted too.
\<close>

theorem check_ts_exact:
  assumes "in_i64 ts" "0 \<le> now" "now < 2 ^ 62"
  shows "check_ts ts now \<longleftrightarrow> \<bar>now - ts\<bar> \<le> 300 \<or> ts = now - 2 ^ 63"
proof (cases "in_i64 (now - ts)")
  case True
  have "in_i64 \<bar>now - ts\<bar>" using True assms by (auto simp: in_i64_def)
  moreover have "ts \<noteq> now - 2 ^ 63" using True by (auto simp: in_i64_def)
  ultimately show ?thesis using True by (simp add: check_ts_def wrap64_id TS_SKEW_SECS_def not_less)
next
  case False
  then have over: "2 ^ 63 \<le> now - ts" using assms by (auto simp: in_i64_def)
  have w: "wrap64 (now - ts) = now - ts - 2 ^ 64" using over assms by (intro wrap64_over) (auto simp: in_i64_def)
  show ?thesis
  proof (cases "now - ts = 2 ^ 63")
    case True
    then have "wrap64 \<bar>wrap64 (now - ts)\<bar> = - (2 ^ 63)" using w wrap64_over[of "2 ^ 63"] by simp
    then show ?thesis using True by (simp add: check_ts_def TS_SKEW_SECS_def)
  next
    case False
    then have "wrap64 \<bar>wrap64 (now - ts)\<bar> = 2 ^ 64 - (now - ts)"
      unfolding w using over assms by (subst wrap64_id) (auto simp: in_i64_def)
    then show ?thesis using over assms False by (auto simp: check_ts_def TS_SKEW_SECS_def in_i64_def)
  qed
qed

theorem check_ts_exact_witness:
  "check_ts 1000 1300 \<and> \<not> check_ts 1000 1301 \<and> check_ts (1000 - 2 ^ 63) 1000"
  using check_ts_exact[of 1000 1300] check_ts_exact[of 1000 1301] check_ts_exact[of "1000 - 2 ^ 63" 1000]
  by (simp add: in_i64_def)

end
