(* ===== verification/Mesh_Registry.thy ===== *)
theory Mesh_Registry
  imports Mesh_Common
begin

text \<open>
  The in-memory mesh relay of \<^verbatim>\<open>src/mesh/mod.rs\<close>: the registry of device keys, the sealed
  inbox, the periodic collection of expired slots and the snapshot of the registry.
  \<open>Utc::now().timestamp()\<close> is the argument \<open>now\<close>; the numbers drawn by \<open>rng\<close> are a list.
\<close>

section \<open>Model\<close>

definition MAX_SLOTS_PER_USER :: nat where "MAX_SLOTS_PER_USER = 100"

record mesh_identity =
  mi_uin :: string
  mi_noise_pubkey :: string
  mi_signing_pubkey :: string
  mi_created_at :: int
  mi_last_seen :: int

record mesh_slot =
  ms_from_uin :: string
  ms_ciphertext :: string
  ms_expires_at :: int

datatype mesh_error =
    MeshErr_BadInput string | MeshErr_UnknownUin | MeshErr_BadSignature | MeshErr_BadTimestamp | MeshErr_InboxFull

record mesh_registry =
  by_uin :: "(string, mesh_identity) hashmap"
  by_noise :: "(string, string) hashmap"
  inbox :: "(string, mesh_slot list) hashmap"

definition registry_new :: mesh_registry where
  "registry_new = \<lparr> by_uin = [], by_noise = [], inbox = [] \<rparr>"

text \<open>The loop of \<open>generate_uin\<close> takes the next draw until one is free; with no draw left it has not returned.\<close>

fun generate_uin :: "nat list \<Rightarrow> mesh_registry \<Rightarrow> string option" where
  "generate_uin [] reg = None"
| "generate_uin (n # draws) reg =
     (if map_of (by_uin reg) (show_nat n) = None then Some (show_nat n) else generate_uin draws reg)"

definition registry_insert :: "mesh_identity \<Rightarrow> mesh_registry \<Rightarrow> mesh_registry" where
  "registry_insert identity reg =
     reg\<lparr>by_uin := AList.update (mi_uin identity) identity (by_uin reg),
         by_noise := AList.update (mi_noise_pubkey identity) (mi_uin identity) (by_noise reg)\<rparr>"

definition registry_register ::
  "int \<Rightarrow> nat list \<Rightarrow> string \<Rightarrow> string \<Rightarrow> mesh_registry \<Rightarrow> (mesh_registry \<times> mesh_identity) option" where
  "registry_register now draws noise_pubkey signing_pubkey reg =
    (case (case map_of (by_noise reg) noise_pubkey of
             None \<Rightarrow> None
           | Some uin \<Rightarrow> map_of (by_uin reg) uin) of
       Some entry \<Rightarrow>
         (let entry' = entry\<lparr>mi_last_seen := now\<rparr>;
              uin = the (map_of (by_noise reg) noise_pubkey)
          in Some (reg\<lparr>by_uin := AList.update uin entry' (by_uin reg)\<rparr>, entry'))
     | None \<Rightarrow>
         (case generate_uin draws reg of
            None \<Rightarrow> None
          | Some uin \<Rightarrow>
              (let identity = \<lparr> mi_uin = uin, mi_noise_pubkey = noise_pubkey,
                     mi_signing_pubkey = signing_pubkey, mi_created_at = now, mi_last_seen = now \<rparr>
               in Some (registry_insert identity reg, identity))))"

definition registry_lookup :: "string \<Rightarrow> mesh_registry \<Rightarrow> mesh_identity option" where
  "registry_lookup uin reg = map_of (by_uin reg) uin"

definition is_online :: "int \<Rightarrow> mesh_identity \<Rightarrow> bool" where
  "is_online now identity \<longleftrightarrow> now - mi_last_seen identity \<le> ONLINE_WINDOW_SECS"

definition touch :: "int \<Rightarrow> string \<Rightarrow> mesh_registry \<Rightarrow> mesh_registry" where
  "touch now uin reg =
    (case map_of (by_uin reg) uin of
       None \<Rightarrow> reg
     | Some entry \<Rightarrow> reg\<lparr>by_uin := AList.update uin (entry\<lparr>mi_last_seen := now\<rparr>) (by_uin reg)\<rparr>)"

definition verify_ed25519 :: "mesh_crypto \<Rightarrow> string \<Rightarrow> string \<Rightarrow> string \<Rightarrow> mesh_error + unit" where
  "verify_ed25519 cr signing_pubkey_hex msg sig_b64 =
    (case hex_decode cr signing_pubkey_hex of
       None \<Rightarrow> Inl (MeshErr_BadInput ''signing_pubkey must be hex'')
     | Some pk \<Rightarrow>
         if length pk \<noteq> 32 then Inl (MeshErr_BadInput ''signing_pubkey must be 32 bytes'')
         else if \<not> vk_from_bytes cr pk then Inl MeshErr_BadSignature
         else (case b64_decode cr sig_b64 of
             None \<Rightarrow> Inl (MeshErr_BadInput ''sig must be base64'')
           | Some sig \<Rightarrow>
               if length sig \<noteq> 64 then Inl (MeshErr_BadInput ''sig must be 64 bytes'')
               else if vk_verify cr pk msg sig then Inr () else Inl MeshErr_BadSignature))"

definition normalize_pubkey_hex :: "mesh_crypto \<Rightarrow> string \<Rightarrow> mesh_error + string" where
  "normalize_pubkey_hex cr raw =
    (let normalized = to_lowercase (trim raw) in
     case hex_decode cr normalized of
       None \<Rightarrow> Inl (MeshErr_BadInput ''pubkey must be hex'')
     | Some bytes \<Rightarrow>
         if length bytes \<noteq> 32 then Inl (MeshErr_BadInput ''pubkey must be 32 bytes (64 hex chars)'')
         else Inr normalized)"

definition send_message :: "string \<Rightarrow> int \<Rightarrow> string \<Rightarrow> string" where
  "send_message to_uin ts ciphertext =
     ''send'' @ newline # to_uin @ newline # show_int ts @ newline # ciphertext"

definition pull_message :: "string \<Rightarrow> int \<Rightarrow> string" where
  "pull_message uin ts = ''pull'' @ newline # uin @ newline # show_int ts"

definition unexpired :: "int \<Rightarrow> mesh_slot list \<Rightarrow> mesh_slot list" where
  "unexpired now slots = filter (\<lambda>s. ms_expires_at s > now) slots"

definition entry_or_default :: "(string, mesh_slot list) hashmap \<Rightarrow> string \<Rightarrow> mesh_slot list" where
  "entry_or_default m k = (case map_of m k of None \<Rightarrow> [] | Some v \<Rightarrow> v)"

text \<open>\<open>entry(..).or_default()\<close> leaves the entry in the map, also when the inbox turns out to be full.\<close>

definition registry_send ::
  "mesh_crypto \<Rightarrow> int \<Rightarrow> string \<Rightarrow> string \<Rightarrow> string \<Rightarrow> int \<Rightarrow> string \<Rightarrow> mesh_registry \<Rightarrow>
   mesh_registry \<times> (mesh_error + unit)" where
  "registry_send cr now from_uin to_uin ciphertext ts sig_b64 reg =
    (if \<not> check_ts ts now then (reg, Inl MeshErr_BadTimestamp)
     else case map_of (by_uin reg) from_uin of
       None \<Rightarrow> (reg, Inl MeshErr_UnknownUin)
     | Some sender \<Rightarrow>
         if map_of (by_uin reg) to_uin = None then (reg, Inl MeshErr_UnknownUin)
         else case verify_ed25519 cr (mi_signing_pubkey sender) (send_message to_uin ts ciphertext) sig_b64 of
           Inl e \<Rightarrow> (reg, Inl e)
         | Inr _ \<Rightarrow>
             let entry = unexpired now (entry_or_default (inbox reg) to_uin)
             in if length entry \<ge> MAX_SLOTS_PER_USER
                then (reg\<lparr>inbox := AList.update to_uin entry (inbox reg)\<rparr>, Inl MeshErr_InboxFull)
                else
                  let slot = \<lparr> ms_from_uin = from_uin, ms_ciphertext = ciphertext,
                               ms_expires_at = now + SLOT_TTL_SECS \<rparr>
                  in (touch now from_uin
                        (reg\<lparr>inbox := AList.update to_uin (entry @ [slot]) (inbox reg)\<rparr>), Inr ()))"

definition registry_pull ::
  "mesh_crypto \<Rightarrow> int \<Rightarrow> string \<Rightarrow> int \<Rightarrow> string \<Rightarrow> mesh_registry \<Rightarrow>
   mesh_registry \<times> (mesh_error + mesh_slot list)" where
  "registry_pull cr now uin ts sig_b64 reg =
    (if \<not> check_ts ts now then (reg, Inl MeshErr_BadTimestamp)
     else case map_of (by_uin reg) uin of
       None \<Rightarrow> (reg, Inl MeshErr_UnknownUin)
     | Some identity \<Rightarrow>
         case verify_ed25519 cr (mi_signing_pubkey identity) (pull_message uin ts) sig_b64 of
           Inl e \<Rightarrow> (reg, Inl e)
         | Inr _ \<Rightarrow>
             let slots = unexpired now (entry_or_default (inbox reg) uin)
             in (touch now uin (reg\<lparr>inbox := AList.delete uin (inbox reg)\<rparr>), Inr slots))"

definition registry_gc :: "int \<Rightarrow> mesh_registry \<Rightarrow> mesh_registry" where
  "registry_gc now reg =
     reg\<lparr>inbox := filter (\<lambda>(_, slots). slots \<noteq> []) (map (\<lambda>(u, slots). (u, unexpired now slots)) (inbox reg))\<rparr>"

definition save_snapshot :: "mesh_registry \<Rightarrow> mesh_identity list" where
  "save_snapshot reg = hm_values (by_uin reg)"

definition load_snapshot :: "mesh_identity list \<Rightarrow> mesh_registry" where
  "load_snapshot identities = fold registry_insert identities registry_new"

section \<open>Steps and invariant\<close>

definition slot_mail :: "mesh_slot \<Rightarrow> (string \<times> string) \<times> int" where
  "slot_mail s = ((ms_from_uin s, ms_ciphertext s), ms_expires_at s)"

definition registry_slots :: "mesh_registry \<Rightarrow> string \<Rightarrow> ((string \<times> string) \<times> int) list" where
  "registry_slots reg uin = map slot_mail (entry_or_default (inbox reg) uin)"

text \<open>The atomic steps of the relay; a send or a pull that fails stores and takes nothing.\<close>

inductive registry_step ::
  "mesh_crypto \<Rightarrow> mesh_registry \<Rightarrow> int \<Rightarrow> (string, string \<times> string) mail_event list \<Rightarrow> mesh_registry \<Rightarrow> bool"
  for cr where
  step_register: "registry_register now draws noise signing reg = Some (reg', identity) \<Longrightarrow> registry_step cr reg now [] reg'"
| step_send: "registry_send cr now from_uin to_uin ciphertext ts sig reg = (reg', Inr ()) \<Longrightarrow>
     registry_step cr reg now [Mail_Stored to_uin (from_uin, ciphertext) (now + SLOT_TTL_SECS)] reg'"
| step_send_err: "registry_send cr now from_uin to_uin ciphertext ts sig reg = (reg', Inl e) \<Longrightarrow> registry_step cr reg now [] reg'"
| step_pull: "registry_pull cr now uin ts sig reg = (reg', Inr slots) \<Longrightarrow>
     registry_step cr reg now [Mail_Taken uin (map (fst \<circ> slot_mail) slots)] reg'"
| step_pull_err: "registry_pull cr now uin ts sig reg = (reg', Inl e) \<Longrightarrow> registry_step cr reg now [] reg'"
| step_touch: "registry_step cr reg now [] (touch now uin reg)"
| step_gc: "registry_step cr reg now [] (registry_gc now reg)"

text \<open>
  The two indexes agree, every mailbox belongs to a registered UIN and none exceeds its cap.
\<close>

definition keys_ok :: "mesh_registry \<Rightarrow> bool" where
  "keys_ok reg \<longleftrightarrow> hm_wf (by_uin reg) \<and> hm_wf (by_noise reg)
    \<and> (\<forall>u i. map_of (by_uin reg) u = Some i \<longrightarrow> mi_uin i = u \<and> map_of (by_noise reg) (mi_noise_pubkey i) = Some u)
    \<and> (\<forall>n u. map_of (by_noise reg) n = Some u \<longrightarrow> (\<exists>i. map_of (by_uin reg) u = Some i \<and> mi_noise_pubkey i = n))"

definition inbox_ok :: "mesh_registry \<Rightarrow> bool" where
  "inbox_ok reg \<longleftrightarrow> hm_wf (inbox reg)
    \<and> (\<forall>u slots. map_of (inbox reg) u = Some slots \<longrightarrow>
         map_of (by_uin reg) u \<noteq> None \<and> length slots \<le> MAX_SLOTS_PER_USER)"

definition registry_ok :: "mesh_registry \<Rightarrow> bool" where
  "registry_ok reg \<longleftrightarrow> keys_ok reg \<and> inbox_ok reg"

lemma live_slot_mail: "live now (map slot_mail slots) = map slot_mail (unexpired now slots)"
  by (simp add: live_def unexpired_def filter_map slot_mail_def comp_def)

lemma keys_okD:
  assumes "keys_ok reg"
  shows "map_of (by_uin reg) u = Some i \<Longrightarrow> mi_uin i = u"
    and "map_of (by_uin reg) u = Some i \<Longrightarrow> map_of (by_noise reg) (mi_noise_pubkey i) = Some u"
    and "map_of (by_noise reg) n = Some u \<Longrightarrow> \<exists>i. map_of (by_uin reg) u = Some i \<and> mi_noise_pubkey i = n"
  using assms unfolding keys_ok_def by blast+

lemma map_of_rev_distinct: "hm_wf m \<Longrightarrow> map_of (rev m) = map_of m"
  by (rule map_of_inject_set[THEN iffD2]) (simp_all add: rev_map[symmetric])

lemma touch_fields [simp]:
  "inbox (touch now u reg) = inbox reg" "by_noise (touch now u reg) = by_noise reg"
  "map_of (by_uin (touch now u reg)) u' = None \<longleftrightarrow> map_of (by_uin reg) u' = None"
  by (auto simp: touch_def split: option.splits)

lemma keys_ok_inbox [simp]: "keys_ok (reg\<lparr>inbox := b\<rparr>) = keys_ok reg"
  by (simp add: keys_ok_def)

lemma keys_ok_refresh:
  assumes "keys_ok reg" "map_of (by_uin reg) u = Some i"
  shows "keys_ok (reg\<lparr>by_uin := AList.update u (i\<lparr>mi_last_seen := t\<rparr>) (by_uin reg)\<rparr>)"
proof -
  have i: "mi_uin i = u" "map_of (by_noise reg) (mi_noise_pubkey i) = Some u"
    using assms unfolding keys_ok_def by blast+
  moreover have "mi_noise_pubkey i = n" if "map_of (by_noise reg) n = Some u" for n
    using assms that unfolding keys_ok_def by fastforce
  ultimately show ?thesis using assms unfolding keys_ok_def by simp
qed

lemma keys_ok_touch [simp]: "keys_ok reg \<Longrightarrow> keys_ok (touch now u reg)"
  by (auto simp: touch_def keys_ok_refresh split: option.splits)

lemma inbox_ok_cong:
  "inbox reg' = inbox reg \<Longrightarrow> (\<And>u. map_of (by_uin reg) u \<noteq> None \<Longrightarrow> map_of (by_uin reg') u \<noteq> None) \<Longrightarrow>
   inbox_ok reg \<Longrightarrow> inbox_ok reg'"
  unfolding inbox_ok_def by metis

lemma inbox_ok_touch [simp]: "inbox_ok reg \<Longrightarrow> inbox_ok (touch now u reg)"
  by (rule inbox_ok_cong) simp_all

lemma inbox_ok_update:
  "inbox_ok reg \<Longrightarrow> map_of (by_uin reg) u \<noteq> None \<Longrightarrow> length b \<le> MAX_SLOTS_PER_USER \<Longrightarrow>
   inbox_ok (reg\<lparr>inbox := AList.update u b (inbox reg)\<rparr>)"
  by (auto simp: inbox_ok_def split: if_splits)

lemma inbox_ok_delete: "inbox_ok reg \<Longrightarrow> inbox_ok (reg\<lparr>inbox := AList.delete u (inbox reg)\<rparr>)"
  by (auto simp: inbox_ok_def split: if_splits)

lemma length_unexpired: "length (unexpired now b) \<le> length b"
  by (simp add: unexpired_def)

lemma entry_or_default_cap: "inbox_ok reg \<Longrightarrow> length (entry_or_default (inbox reg) u) \<le> MAX_SLOTS_PER_USER"
  by (auto simp: inbox_ok_def entry_or_default_def split: option.splits)

text \<open>The outcomes of a send and of a pull.\<close>

lemma registry_sendE:
  assumes "registry_send cr now from to ct ts sig reg = (reg', r)"
  obtains (rejected) e where "reg' = reg" "r = Inl e"
  | (full) "map_of (by_uin reg) to \<noteq> None" "r = Inl MeshErr_InboxFull"
      "reg' = reg\<lparr>inbox := AList.update to (unexpired now (entry_or_default (inbox reg) to)) (inbox reg)\<rparr>"
  | (stored) slot where "map_of (by_uin reg) to \<noteq> None" "r = Inr ()"
      "slot_mail slot = ((from, ct), now + SLOT_TTL_SECS)"
      "length (unexpired now (entry_or_default (inbox reg) to)) < MAX_SLOTS_PER_USER"
      "reg' = touch now from (reg\<lparr>inbox := AList.update to
         (unexpired now (entry_or_default (inbox reg) to) @ [slot]) (inbox reg)\<rparr>)"
proof -
  let ?box = "unexpired now (entry_or_default (inbox reg) to)"
  let ?slot = "\<lparr> ms_from_uin = from, ms_ciphertext = ct, ms_expires_at = now + SLOT_TTL_SECS \<rparr>"
  have "(\<exists>e. registry_send cr now from to ct ts sig reg = (reg, Inl e))
    \<or> map_of (by_uin reg) to \<noteq> None \<and> MAX_SLOTS_PER_USER \<le> length ?box \<and>
      registry_send cr now from to ct ts sig reg = (reg\<lparr>inbox := AList.update to ?box (inbox reg)\<rparr>, Inl MeshErr_InboxFull)
    \<or> map_of (by_uin reg) to \<noteq> None \<and> length ?box < MAX_SLOTS_PER_USER \<and>
      registry_send cr now from to ct ts sig reg =
         (touch now from (reg\<lparr>inbox := AList.update to (?box @ [?slot]) (inbox reg)\<rparr>), Inr ())"
    unfolding registry_send_def Let_def by (simp split: option.split sum.split add: not_le)
  then show thesis
  proof (elim disjE exE conjE)
    fix e
    assume "registry_send cr now from to ct ts sig reg = (reg, Inl e)"
    then show thesis using rejected assms by simp
  next
    assume "map_of (by_uin reg) to \<noteq> None"
      "registry_send cr now from to ct ts sig reg = (reg\<lparr>inbox := AList.update to ?box (inbox reg)\<rparr>, Inl MeshErr_InboxFull)"
    then show thesis using full assms by simp
  next
    assume "map_of (by_uin reg) to \<noteq> None" "length ?box < MAX_SLOTS_PER_USER"
      "registry_send cr now from to ct ts sig reg =
         (touch now from (reg\<lparr>inbox := AList.update to (?box @ [?slot]) (inbox reg)\<rparr>), Inr ())"
    then show thesis using stored[of ?slot] assms by (simp add: slot_mail_def)
  qed
qed

lemma registry_pullE:
  assumes "registry_pull cr now u ts sig reg = (reg', r)"
  obtains (rejected) e where "reg' = reg" "r = Inl e"
  | (taken) "r = Inr (unexpired now (entry_or_default (inbox reg) u))"
      "reg' = touch now u (reg\<lparr>inbox := AList.delete u (inbox reg)\<rparr>)"
proof -
  let ?box = "unexpired now (entry_or_default (inbox reg) u)"
  have "(\<exists>e. registry_pull cr now u ts sig reg = (reg, Inl e))
    \<or> registry_pull cr now u ts sig reg = (touch now u (reg\<lparr>inbox := AList.delete u (inbox reg)\<rparr>), Inr ?box)"
    unfolding registry_pull_def Let_def by (simp split: option.split sum.split)
  then show thesis
  proof (elim disjE exE)
    fix e
    assume "registry_pull cr now u ts sig reg = (reg, Inl e)"
    then have "reg' = reg" "r = Inl e" using assms by simp_all
    then show thesis by (rule rejected)
  next
    assume "registry_pull cr now u ts sig reg = (touch now u (reg\<lparr>inbox := AList.delete u (inbox reg)\<rparr>), Inr ?box)"
    then have "r = Inr ?box" "reg' = touch now u (reg\<lparr>inbox := AList.delete u (inbox reg)\<rparr>)" using assms by simp_all
    then show thesis by (rule taken)
  qed
qed

lemma registry_registerE:
  assumes "registry_register now draws noise signing reg = Some (reg', identity)"
  obtains (known) u i where "map_of (by_noise reg) noise = Some u" "map_of (by_uin reg) u = Some i"
      "identity = i\<lparr>mi_last_seen := now\<rparr>" "reg' = reg\<lparr>by_uin := AList.update u identity (by_uin reg)\<rparr>"
  | (fresh) "\<And>u. map_of (by_noise reg) noise = Some u \<Longrightarrow> map_of (by_uin reg) u = None"
      "generate_uin draws reg = Some (mi_uin identity)" "mi_noise_pubkey identity = noise"
      "reg' = registry_insert identity reg"
  using assms unfolding registry_register_def
  by (auto simp: Let_def split: option.splits)

lemma generate_uin_free: "generate_uin draws reg = Some u \<Longrightarrow> map_of (by_uin reg) u = None"
  by (induction draws) (auto split: if_splits)

lemma generate_uin_drawn: "generate_uin draws reg = Some u \<Longrightarrow> \<exists>n \<in> set draws. u = show_nat n"
  by (induction draws) (auto split: if_splits)

lemma generate_uin_returns:
  "n \<in> set draws \<Longrightarrow> map_of (by_uin reg) (show_nat n) = None \<Longrightarrow> \<exists>u. generate_uin draws reg = Some u"
  by (induction draws) auto

lemma keys_ok_insert:
  assumes "keys_ok reg" "map_of (by_uin reg) (mi_uin i) = None" "map_of (by_noise reg) (mi_noise_pubkey i) = None"
  shows "keys_ok (registry_insert i reg)"
proof -
  have "u \<noteq> mi_uin i" "mi_noise_pubkey j \<noteq> mi_noise_pubkey i" if "map_of (by_uin reg) u = Some j" for u j
    using assms that unfolding keys_ok_def by (metis option.distinct(1))+
  moreover have "n \<noteq> mi_noise_pubkey i" "u \<noteq> mi_uin i" if "map_of (by_noise reg) n = Some u" for n u
    using assms that unfolding keys_ok_def by (metis option.distinct(1))+
  ultimately show ?thesis using assms unfolding keys_ok_def registry_insert_def by auto
qed

lemma keys_ok_register:
  assumes "keys_ok reg" "registry_register now draws noise signing reg = Some (reg', identity)"
  shows "keys_ok reg'"
  using assms(2)
proof (cases rule: registry_registerE)
  case (known u i)
  then show ?thesis using keys_ok_refresh[OF assms(1)] by simp
next
  case fresh
  have "map_of (by_noise reg) noise = None"
    using fresh(1) assms(1) unfolding keys_ok_def by (metis not_None_eq)
  then show ?thesis
    using fresh keys_ok_insert[OF assms(1)] generate_uin_free[OF fresh(2)] by simp
qed

lemma inbox_ok_register:
  assumes "inbox_ok reg" "registry_register now draws noise signing reg = Some (reg', identity)"
  shows "inbox_ok reg'" "inbox reg' = inbox reg"
proof -
  have "inbox reg' = inbox reg \<and> (\<forall>u. map_of (by_uin reg) u \<noteq> None \<longrightarrow> map_of (by_uin reg') u \<noteq> None)"
    using assms(2) by (cases rule: registry_registerE) (simp_all add: registry_insert_def)
  then show "inbox reg' = inbox reg" "inbox_ok reg'" using inbox_ok_cong assms(1) by blast+
qed

lemma gc_entry:
  assumes "hm_wf m"
  shows "map_of (filter (\<lambda>(_, s). s \<noteq> []) (map (\<lambda>(u, s). (u, f s)) m)) u =
    (case map_of m u of None \<Rightarrow> None | Some s \<Rightarrow> if f s = [] then None else Some (f s))"
proof -
  have "hm_wf (map (\<lambda>(u, s). (u, f s)) m)" using assms by (simp add: comp_def case_prod_beta)
  then show ?thesis by (simp add: map_of_filter_hm map_of_map split: option.split)
qed

lemma gc_wf: "hm_wf m \<Longrightarrow> hm_wf (filter (\<lambda>(_, s). s \<noteq> []) (map (\<lambda>(u, s). (u, f s)) m))"
  by (rule hm_wf_filter) (simp add: comp_def case_prod_beta)

lemma inbox_ok_gc: "inbox_ok reg \<Longrightarrow> inbox_ok (registry_gc now reg)"
  unfolding inbox_ok_def registry_gc_def
  using length_unexpired le_trans by (fastforce simp: gc_entry gc_wf split: option.splits if_splits)

lemma entry_or_default_gc:
  assumes "inbox_ok reg"
  shows "entry_or_default (inbox (registry_gc now reg)) u = unexpired now (entry_or_default (inbox reg) u)"
proof -
  have "hm_wf (inbox reg)" using assms by (simp add: inbox_ok_def)
  then show ?thesis
    by (simp add: entry_or_default_def registry_gc_def gc_entry unexpired_def split: option.split)
qed

lemma unexpired_idem [simp]: "unexpired now (unexpired now b) = unexpired now b"
  by (simp add: unexpired_def)

lemma unexpired_Nil [simp]: "unexpired now [] = []"
  by (simp add: unexpired_def)

lemma unexpired_append [simp]: "unexpired now (a @ b) = unexpired now a @ unexpired now b"
  by (simp add: unexpired_def)

lemma entry_or_default_update [simp]:
  "entry_or_default (AList.update k v m) k' = (if k' = k then v else entry_or_default m k')"
  by (simp add: entry_or_default_def)

lemma entry_or_default_delete [simp]:
  "entry_or_default (AList.delete k m) k' = (if k' = k then [] else entry_or_default m k')"
  by (simp add: entry_or_default_def)

lemma live_stored: "live now [(m, now + SLOT_TTL_SECS)] = [(m, now + SLOT_TTL_SECS)]"
  by (simp add: live_def SLOT_TTL_SECS_def)

lemma unexpired_stored: "slot_mail s = (m, now + SLOT_TTL_SECS) \<Longrightarrow> unexpired now [s] = [s]"
  by (simp add: unexpired_def slot_mail_def SLOT_TTL_SECS_def)

lemma registry_step_ok:
  assumes "registry_ok reg" "registry_step cr reg now evs reg'"
  shows "registry_ok reg'"
proof -
  have k: "keys_ok reg" and i: "inbox_ok reg" using assms(1) by (simp_all add: registry_ok_def)
  have cap: "length (unexpired now (entry_or_default (inbox reg) u)) \<le> MAX_SLOTS_PER_USER" for u
    using length_unexpired entry_or_default_cap[OF i] le_trans by blast
  have send: "registry_ok reg'" if "registry_send cr now f t c ts sg reg = (reg', r)" for f t c ts sg r
    using that by (cases rule: registry_sendE) (simp_all add: assms(1) registry_ok_def k i cap inbox_ok_update)
  have pull: "registry_ok reg'" if "registry_pull cr now u ts sg reg = (reg', r)" for u ts sg r
    using that by (cases rule: registry_pullE) (simp_all add: assms(1) registry_ok_def k i inbox_ok_delete)
  show ?thesis using assms(2)
  proof cases
    case (step_register draws noise signing identity)
    then show ?thesis
      using keys_ok_register[OF k] inbox_ok_register(1)[OF i] unfolding registry_ok_def by blast
  next
    case step_gc
    then show ?thesis using inbox_ok_gc[OF i] k by (simp add: registry_ok_def registry_gc_def)
  next
    case (step_touch u)
    then show ?thesis by (simp add: registry_ok_def k i)
  qed (blast intro: send pull)+
qed

lemma registry_step_effect:
  assumes ok: "registry_ok reg" and step: "registry_step cr reg now evs reg'"
  shows "live now (registry_slots reg' d) = live now (fold (mail_box d) evs (registry_slots reg d))"
    and "Mail_Taken d ms \<in> set evs \<Longrightarrow> ms = map fst (live now (registry_slots reg d))"
    and "length (live now (registry_slots reg d)) \<le> MAX_SLOTS_PER_USER \<Longrightarrow>
         length (live now (registry_slots reg' d)) \<le> MAX_SLOTS_PER_USER"
proof -
  have i: "inbox_ok reg" and i': "inbox_ok reg'"
    using ok registry_step_ok[OF ok step] by (simp_all add: registry_ok_def)
  have u: "live now (registry_slots r d) = map slot_mail (unexpired now (entry_or_default (inbox r) d))" for r
    by (simp add: registry_slots_def live_slot_mail)
  show "live now (registry_slots reg' d) = live now (fold (mail_box d) evs (registry_slots reg d))"
    using step
  proof cases
    case (step_send f t c ts sg)
    from step_send(2) show ?thesis
      by (cases rule: registry_sendE)
        (simp_all add: step_send(1) u live_stored unexpired_stored)
  next
    case (step_send_err f t c ts sg e)
    from step_send_err(2) show ?thesis by (cases rule: registry_sendE) (simp_all add: step_send_err(1) u)
  next
    case (step_pull n ts sg slots)
    from step_pull(2) show ?thesis by (cases rule: registry_pullE) (simp_all add: step_pull(1) u)
  next
    case (step_pull_err n ts sg e)
    from step_pull_err(2) show ?thesis by (cases rule: registry_pullE) (simp_all add: step_pull_err(1) u)
  qed (simp_all add: u entry_or_default_gc[OF i] inbox_ok_register(2)[OF i])
  show "ms = map fst (live now (registry_slots reg d))" if "Mail_Taken d ms \<in> set evs"
    using step that
  proof cases
    case (step_pull n ts sg slots)
    from step_pull(2) show ?thesis
    proof (cases rule: registry_pullE)
      case taken
      then show ?thesis using step_pull(1) that unfolding u by (simp add: comp_def)
    qed simp
  qed simp_all
  show "length (live now (registry_slots reg' d)) \<le> MAX_SLOTS_PER_USER"
    using le_trans[OF length_unexpired entry_or_default_cap[OF i']] by (simp add: u)
qed

lemma registry_new_ok: "registry_ok registry_new"
  by (simp add: registry_ok_def keys_ok_def inbox_ok_def registry_new_def)

interpretation registry_mail: mailbox registry_ok registry_slots "registry_step cr" registry_new MAX_SLOTS_PER_USER for cr
proof
  show "registry_slots registry_new d = []" for d
    by (simp add: registry_slots_def registry_new_def entry_or_default_def)
qed (fact registry_new_ok registry_step_ok registry_step_effect)+

section \<open>Keys over a run\<close>

lemma registry_step_keys:
  assumes "registry_step cr reg now evs reg'" "map_of (by_noise reg) n = Some u" "registry_ok reg"
  shows "map_of (by_noise reg') n = Some u"
  using assms(1)
proof cases
  case (step_register draws noise signing identity)
  from step_register(2) show ?thesis
  proof (cases rule: registry_registerE)
    case fresh
    have "noise \<noteq> n"
    proof
      assume "noise = n"
      then have "map_of (by_uin reg) u = None" using fresh(1) assms(2) by simp
      then show False using assms(2,3) unfolding registry_ok_def keys_ok_def by fastforce
    qed
    then show ?thesis using fresh assms(2) by (simp add: registry_insert_def)
  qed (simp add: assms(2))
next
  case (step_send f t c ts sg)
  from step_send(2) show ?thesis by (cases rule: registry_sendE) (simp_all add: assms(2))
next
  case (step_send_err f t c ts sg e)
  from step_send_err(2) show ?thesis by (cases rule: registry_sendE) (simp_all add: assms(2))
next
  case (step_pull v ts sg slots)
  from step_pull(2) show ?thesis by (cases rule: registry_pullE) (simp_all add: assms(2))
next
  case (step_pull_err v ts sg e)
  from step_pull_err(2) show ?thesis by (cases rule: registry_pullE) (simp_all add: assms(2))
qed (simp_all add: assms(2) registry_gc_def)

lemma registry_run_from:
  assumes "mail_run (registry_step cr) reg0 h reg t" "registry_ok reg0"
  shows "registry_ok reg \<and> (\<forall>n u. map_of (by_noise reg0) n = Some u \<longrightarrow> map_of (by_noise reg) n = Some u)"
  using assms by (induction rule: mail_run.induct) (auto intro: registry_step_ok registry_step_keys)

lemma registry_register_bound:
  assumes "registry_ok reg" "registry_register now draws n s reg = Some (reg', i)"
  shows "map_of (by_noise reg') n = Some (mi_uin i)"
    and "map_of (by_noise reg) n = Some u \<Longrightarrow> mi_uin i = u"
    and "map_of (by_noise reg) n' = Some u \<Longrightarrow> n' \<noteq> n \<Longrightarrow> mi_uin i \<noteq> u"
proof -
  have k: "keys_ok reg" using assms(1) by (simp add: registry_ok_def)
  have "map_of (by_noise reg') n = Some (mi_uin i) \<and> (\<forall>u. map_of (by_noise reg) n = Some u \<longrightarrow> mi_uin i = u)
    \<and> (\<forall>n' u. map_of (by_noise reg) n' = Some u \<and> n' \<noteq> n \<longrightarrow> mi_uin i \<noteq> u)"
    using assms(2)
  proof (cases rule: registry_registerE)
    case (known u j)
    have i: "mi_uin i = u" "map_of (by_noise reg') n = Some u" using keys_okD(1)[OF k known(2)] known by simp_all
    have "n' = n" if "map_of (by_noise reg) n' = Some u" for n'
      using keys_okD(3)[OF k that] keys_okD(3)[OF k known(1)] by auto
    then show ?thesis unfolding i known(1) by blast
  next
    case fresh
    have other: "mi_uin i \<noteq> u" if "map_of (by_noise reg) n' = Some u" for n' u
      using keys_okD(3)[OF k that] generate_uin_free[OF fresh(2)] by auto
    have none: "map_of (by_noise reg) n \<noteq> Some u" for u
      using fresh(1)[of u] keys_okD(3)[OF k, of n u] by fastforce
    have "map_of (by_noise reg') n = Some (mi_uin i)" using fresh(3,4) by (simp add: registry_insert_def)
    moreover have "\<forall>n' u. map_of (by_noise reg) n' = Some u \<and> n' \<noteq> n \<longrightarrow> mi_uin i \<noteq> u"
      using other by metis
    ultimately show ?thesis using none by simp
  qed
  then show "map_of (by_noise reg') n = Some (mi_uin i)" "map_of (by_noise reg) n = Some u \<Longrightarrow> mi_uin i = u"
    "map_of (by_noise reg) n' = Some u \<Longrightarrow> n' \<noteq> n \<Longrightarrow> mi_uin i \<noteq> u" by blast+
qed

section \<open>Properties\<close>

text \<open>
  C17: The in-memory relay delivers exactly once and in order: in every run with a clock that
  does not go back, a successful pull returns exactly the messages accepted for that UIN since
  its previous successful pull and not expired yet, in the order in which they were accepted,
  and never more than 100 of them.
\<close>

theorem registry_delivery_exact:
  assumes "mail_run (registry_step cr) registry_new h reg t" "t \<le> now"
    and "registry_pull cr now uin ts sig reg = (reg', Inr slots)"
  shows "map (fst \<circ> slot_mail) slots = map fst (live now (undelivered uin h))
    \<and> length slots \<le> MAX_SLOTS_PER_USER"
proof -
  have m: "map (fst \<circ> slot_mail) slots = map fst (live now (undelivered uin h))"
    using registry_mail.run_taken[OF assms(1,2) step_pull[OF assms(3)]] by simp
  have "length (live now (undelivered uin h)) \<le> length (live t (undelivered uin h))"
    using assms(2) by (rule length_live_later)
  also have "\<dots> \<le> MAX_SLOTS_PER_USER"
    using registry_mail.run_cap[OF assms(1)] registry_mail.run_slots[OF assms(1)] by metis
  finally show ?thesis using m by (metis length_map)
qed

definition demo_crypto :: mesh_crypto where
  "demo_crypto = \<lparr> hex_decode = (\<lambda>_. Some (replicate 32 0)), b64_decode = (\<lambda>_. Some (replicate 64 0)),
     vk_from_bytes = (\<lambda>_. True), vk_verify = (\<lambda>_ _ _. True) \<rparr>"

definition demo_identity :: mesh_identity where
  "demo_identity = \<lparr> mi_uin = show_nat 10000000, mi_noise_pubkey = ''aa'', mi_signing_pubkey = ''bb'',
     mi_created_at = 100, mi_last_seen = 100 \<rparr>"

lemma demo_register:
  "registry_register 100 [10000000] ''aa'' ''bb'' registry_new = Some (registry_insert demo_identity registry_new, demo_identity)"
  by (simp add: registry_register_def registry_new_def demo_identity_def Let_def)

theorem registry_delivery_exact_witness:
  "\<exists>reg reg' slots. mail_run (registry_step demo_crypto) registry_new [(100, [])] reg 100
     \<and> registry_pull demo_crypto 110 (show_nat 10000000) 105 ''c2ln'' reg = (reg', Inr slots)
     \<and> map (fst \<circ> slot_mail) slots = map fst (live 110 (undelivered (show_nat 10000000) [(100, [])]))"
proof -
  let ?reg = "registry_insert demo_identity registry_new"
  have run: "mail_run (registry_step demo_crypto) registry_new [(100, [])] ?reg 100"
    using run_step[OF run_start[of "registry_step demo_crypto" registry_new 0] _ step_register[OF demo_register]] by simp
  obtain reg' slots where p: "registry_pull demo_crypto 110 (show_nat 10000000) 105 ''c2ln'' ?reg = (reg', Inr slots)"
    by (simp add: registry_pull_def check_ts_def wrap64_def TS_SKEW_SECS_def verify_ed25519_def demo_crypto_def
        registry_insert_def registry_new_def demo_identity_def Let_def)
  show ?thesis using run p registry_delivery_exact[OF run _ p] by auto
qed



text \<open>
  UINs are well formed and the search for one ends: when the draws are in the generator's
  range and one of them is free, a new device gets a UIN; it has eight or nine digits, does not
  begin with zero and was not in use.
\<close>

theorem generated_uin_wellformed:
  assumes "\<forall>n \<in> set draws. 10000000 \<le> n \<and> n \<le> 999999999"
    and "n \<in> set draws" "map_of (by_uin reg) (show_nat n) = None"
  shows "\<exists>uin. generate_uin draws reg = Some uin \<and> map_of (by_uin reg) uin = None
    \<and> length uin \<in> {8, 9} \<and> hd uin \<noteq> CHR ''0'' \<and> (\<forall>c \<in> set uin. is_digit c)"
proof -
  obtain uin where u: "generate_uin draws reg = Some uin" using generate_uin_returns[OF assms(2,3)] ..
  then obtain k where k: "k \<in> set draws" "uin = show_nat k" using generate_uin_drawn by blast
  then have range: "10000000 \<le> k" "k \<le> 999999999" using assms(1) by blast+
  have "length uin = 8 \<or> length uin = 9"
  proof (cases "k < 100000000")
    case True
    then show ?thesis using length_show_nat[of 7 k] range k(2) by simp
  next
    case False
    then show ?thesis using length_show_nat[of 8 k] range k(2) by simp
  qed
  then show ?thesis using u k(2) range generate_uin_free[OF u] hd_show_nat[of k] show_nat_digits[of k] by simp
qed

theorem generated_uin_wellformed_witness:
  "\<exists>uin. generate_uin [10000000] registry_new = Some uin \<and> length uin \<in> {8, 9}"
  using generated_uin_wellformed[of "[10000000]" 10000000 registry_new] by (auto simp: registry_new_def)

section \<open>Snapshot\<close>

lemma load_fields:
  "by_uin (fold registry_insert is reg) = fold (\<lambda>(k, v). AList.update k v) (map (\<lambda>i. (mi_uin i, i)) is) (by_uin reg)"
  "by_noise (fold registry_insert is reg) =
     fold (\<lambda>(k, v). AList.update k v) (map (\<lambda>i. (mi_noise_pubkey i, mi_uin i)) is) (by_noise reg)"
  "inbox (fold registry_insert is reg) = inbox reg"
  by (induction "is" arbitrary: reg) (simp_all add: registry_insert_def)

lemma fold_put_fresh: "map_of (fold (\<lambda>(k, v). AList.update k v) kvs []) = map_of (rev kvs)"
proof
  fix k
  show "map_of (fold (\<lambda>(k, v). AList.update k v) kvs []) k = map_of (rev kvs) k"
    using hm.get_fold_put[of "[]" kvs k] by (simp split: option.splits)
qed

lemma save_entries:
  assumes "keys_ok reg"
  shows "map (\<lambda>i. (mi_uin i, i)) (save_snapshot reg) = by_uin reg"
    and "set (save_snapshot reg) = {i. map_of (by_uin reg) (mi_uin i) = Some i}"
proof -
  have wf: "hm_wf (by_uin reg)" using assms by (simp add: keys_ok_def)
  have e: "(u, i) \<in> set (by_uin reg) \<Longrightarrow> mi_uin i = u" for u i
    using keys_okD(1)[OF assms] hm_mem_iff[OF wf] by blast
  have "map (\<lambda>x. (mi_uin (snd x), snd x)) (by_uin reg) = by_uin reg"
  proof (rule map_idI)
    fix x
    assume "x \<in> set (by_uin reg)"
    then show "(mi_uin (snd x), snd x) = x" using e[of "fst x" "snd x"] by (simp add: prod_eq_iff)
  qed
  then show "map (\<lambda>i. (mi_uin i, i)) (save_snapshot reg) = by_uin reg"
    by (simp add: save_snapshot_def hm_values_def comp_def)
  have "i \<in> snd ` set (by_uin reg) \<longleftrightarrow> (mi_uin i, i) \<in> set (by_uin reg)" for i
  proof
    assume "i \<in> snd ` set (by_uin reg)"
    then obtain u where u: "(u, i) \<in> set (by_uin reg)" by auto
    then show "(mi_uin i, i) \<in> set (by_uin reg)" using e[OF u] by simp
  next
    assume "(mi_uin i, i) \<in> set (by_uin reg)"
    from imageI[OF this, of snd] show "i \<in> snd ` set (by_uin reg)" by simp
  qed
  then show "set (save_snapshot reg) = {i. map_of (by_uin reg) (mi_uin i) = Some i}"
    unfolding save_snapshot_def hm_values_def hm_mem_iff[OF wf] set_map by blast
qed

text \<open>
  C22: A restart loses no identity: loading the snapshot of a reachable registry gives a registry
  with the same identities and the same device index, and with an empty inbox.
\<close>

theorem snapshot_restores_registry:
  assumes "mail_run (registry_step cr) registry_new h reg t"
  shows "map_of (by_uin (load_snapshot (save_snapshot reg))) = map_of (by_uin reg)
    \<and> map_of (by_noise (load_snapshot (save_snapshot reg))) = map_of (by_noise reg)
    \<and> inbox (load_snapshot (save_snapshot reg)) = []"
proof -
  have k: "keys_ok reg" using registry_mail.run_inv[OF assms] by (simp add: registry_ok_def)
  have wf: "hm_wf (by_uin reg)" using k by (simp add: keys_ok_def)
  let ?kvs = "map (\<lambda>i. (mi_noise_pubkey i, mi_uin i)) (save_snapshot reg)"
  have mem: "map_of (by_noise reg) n = Some u" if "(n, u) \<in> set ?kvs" for n u
    using that keys_okD(2)[OF k] unfolding save_entries(2)[OF k] set_map by auto
  have idx: "map_of (rev ?kvs) n = map_of (by_noise reg) n" for n
  proof (cases "map_of (rev ?kvs) n")
    case (Some u)
    then show ?thesis using mem[of n u] map_of_SomeD by fastforce
  next
    case None
    then have none: "n \<notin> mi_noise_pubkey ` set (save_snapshot reg)"
      by (force simp: map_of_eq_None_iff)
    show ?thesis
    proof (cases "map_of (by_noise reg) n")
      case (Some u)
      then obtain i where "map_of (by_uin reg) u = Some i" "mi_noise_pubkey i = n" using keys_okD(3)[OF k] by blast
      then show ?thesis using none keys_okD(1)[OF k] save_entries(2)[OF k] by fastforce
    qed (simp add: None)
  qed
  have "map_of (rev (by_uin reg)) = map_of (by_uin reg)"
    using map_of_rev_distinct[OF wf] .
  then show ?thesis
    unfolding load_snapshot_def load_fields save_entries(1)[OF k]
    using idx by (simp add: registry_new_def fold_put_fresh fun_eq_iff)
qed

theorem snapshot_restores_registry_witness:
  "map_of (by_uin (load_snapshot (save_snapshot (registry_insert demo_identity registry_new)))) =
     map_of (by_uin (registry_insert demo_identity registry_new))"
proof -
  have run: "mail_run (registry_step demo_crypto) registry_new [(100, [])] (registry_insert demo_identity registry_new) 100"
    using run_step[OF run_start[of "registry_step demo_crypto" registry_new 0] _ step_register[OF demo_register]] by simp
  show ?thesis using snapshot_restores_registry[OF run] by blast
qed

end
