(* ===== verification/Mesh_Store.thy ===== *)
theory Mesh_Store
  imports Mesh_Registry
begin

text \<open>
  The persistent mesh relay of \<^verbatim>\<open>src/bin/mesh/store.rs\<close>: identities bound to subscriptions, the
  devices of an identity, and one mailbox per device. The three SQL tables are lists of rows in
  the order of their row ids, each statement of the source is the list operation it denotes,
  and a violated \<open>UNIQUE\<close> or \<open>PRIMARY KEY\<close> constraint is the internal error it raises. The
  UUID parser, the subscription source and the random generator are parameters. The warning
  about a widened number space (\<open>WARNED_WIDTH\<close>) is a log entry and is left out.
\<close>

section \<open>Tables\<close>

definition MAX_SLOTS :: nat where "MAX_SLOTS = 100"

datatype store_error =
    StoreErr_BadInput string | StoreErr_UnknownUin | StoreErr_BadSignature | StoreErr_BadTimestamp
  | StoreErr_InboxFull | StoreErr_Conflict | StoreErr_SubscriptionRejected | StoreErr_Internal string

record identity_row =
  idn_uin :: string
  idn_subscription :: uuid
  idn_name :: string
  idn_created_at :: int

record device_row =
  dev_uin :: string
  dev_noise :: string
  dev_signing :: string
  dev_last_seen :: int
  dev_created_at :: int

record slot_row =
  row_uin :: string
  row_device :: string
  row_from :: string
  row_ciphertext :: string
  row_expires_at :: int

record envelope =
  env_device_pubkey :: string
  env_ciphertext :: string

record slot_view =
  view_from_uin :: string
  view_ciphertext :: string

record lookup_view =
  lk_uin :: string
  lk_name :: string
  lk_online :: bool
  lk_devices :: "string list"

record mesh_store =
  st_identities :: "identity_row list"
  st_devices :: "device_row list"
  st_slots :: "slot_row list"
  st_notifies :: "(string \<times> string) list"
  st_polls :: "(string \<times> string, nat) hashmap"

definition store_open :: mesh_store where
  "store_open = \<lparr> st_identities = [], st_devices = [], st_slots = [], st_notifies = [], st_polls = [] \<rparr>"

section \<open>Statements\<close>

definition device_owner :: "mesh_store \<Rightarrow> string \<Rightarrow> (string \<times> uuid) option" where
  "device_owner st noise =
    (case [(dev_uin d, idn_subscription i). d \<leftarrow> st_devices st, i \<leftarrow> st_identities st, idn_uin i = dev_uin d \<and> dev_noise d = noise] of
       [] \<Rightarrow> None
     | x # _ \<Rightarrow> Some x)"

definition identity_for_sub :: "mesh_store \<Rightarrow> uuid \<Rightarrow> string option" where
  "identity_for_sub st sub = map_option idn_uin (find (\<lambda>i. idn_subscription i = sub) (st_identities st))"

definition identity_missing :: "mesh_store \<Rightarrow> string \<Rightarrow> bool" where
  "identity_missing st uin \<longleftrightarrow> length (filter (\<lambda>i. idn_uin i = uin) (st_identities st)) = 0"

definition devices_of :: "mesh_store \<Rightarrow> string \<Rightarrow> (string \<times> string) list" where
  "devices_of st uin = map (\<lambda>d. (dev_noise d, dev_signing d)) (filter (\<lambda>d. dev_uin d = uin) (st_devices st))"

definition insert_identity :: "identity_row \<Rightarrow> mesh_store \<Rightarrow> mesh_store \<times> (store_error + unit)" where
  "insert_identity i st =
    (if idn_uin i \<in> idn_uin ` set (st_identities st) \<or> idn_subscription i \<in> idn_subscription ` set (st_identities st)
     then (st, Inl (StoreErr_Internal ''UNIQUE constraint failed''))
     else (st\<lparr>st_identities := st_identities st @ [i]\<rparr>, Inr ()))"

definition insert_device :: "device_row \<Rightarrow> mesh_store \<Rightarrow> mesh_store \<times> (store_error + unit)" where
  "insert_device d st =
    (if dev_noise d \<in> dev_noise ` set (st_devices st)
     then (st, Inl (StoreErr_Internal ''UNIQUE constraint failed''))
     else (st\<lparr>st_devices := st_devices st @ [d]\<rparr>, Inr ()))"

definition update_device :: "string \<Rightarrow> (device_row \<Rightarrow> device_row) \<Rightarrow> mesh_store \<Rightarrow> mesh_store" where
  "update_device noise f st = st\<lparr>st_devices := map (\<lambda>d. if dev_noise d = noise then f d else d) (st_devices st)\<rparr>"

definition touch_device :: "int \<Rightarrow> string \<Rightarrow> mesh_store \<Rightarrow> mesh_store" where
  "touch_device now noise st = update_device noise (\<lambda>d. d\<lparr>dev_last_seen := now\<rparr>) st"

definition rename_identity :: "string \<Rightarrow> string \<Rightarrow> mesh_store \<Rightarrow> mesh_store" where
  "rename_identity name uin st =
     st\<lparr>st_identities := map (\<lambda>i. if idn_uin i = uin then i\<lparr>idn_name := name\<rparr> else i) (st_identities st)\<rparr>"

section \<open>Checks\<close>

definition parse_subscription :: "(string \<Rightarrow> uuid option) \<Rightarrow> string \<Rightarrow> string \<Rightarrow> store_error + uuid" where
  "parse_subscription parse_uuid sid secret =
    (case parse_uuid (trim sid) of
       None \<Rightarrow> Inl (StoreErr_BadInput ''subscription_id must be a uuid'')
     | Some u \<Rightarrow>
         (case parse_uuid (trim secret) of
            None \<Rightarrow> Inl StoreErr_SubscriptionRejected
          | Some v \<Rightarrow> if u \<noteq> v then Inl StoreErr_SubscriptionRejected else Inr u))"

definition normalize_pubkey :: "mesh_crypto \<Rightarrow> string \<Rightarrow> store_error + string" where
  "normalize_pubkey cr raw =
    (case normalize_pubkey_hex cr raw of
       Inr k \<Rightarrow> Inr k
     | Inl (MeshErr_BadInput m) \<Rightarrow> Inl (StoreErr_BadInput m)
     | Inl _ \<Rightarrow> Inl (StoreErr_BadInput ''bad pubkey''))"

definition is_control :: "char \<Rightarrow> bool" where
  "is_control c = (let n = of_char c :: nat in n < 32 \<or> n = 127)"

definition clean_name :: "string \<Rightarrow> store_error + string" where
  "clean_name name =
    (if length name > 32 \<or> list_ex is_control name
     then Inl (StoreErr_BadInput ''name must be at most 32 printable characters'')
     else Inr name)"

definition choose_width :: "nat \<Rightarrow> nat \<Rightarrow> nat" where
  "choose_width count_at_width width =
    (if width \<ge> 10 then width
     else let space = 9 * 10 ^ (width - 1)
          in if count_at_width * 10 > space * 8 then width + 1 else width)"

definition count_width :: "mesh_store \<Rightarrow> nat \<Rightarrow> nat" where
  "count_width st width = length (filter (\<lambda>i. length (idn_uin i) = width) (st_identities st))"

function uin_width :: "mesh_store \<Rightarrow> nat \<Rightarrow> nat" where
  "uin_width st width =
    (let next = choose_width (count_width st width) width
     in if next = width then width else uin_width st next)"
  by auto
termination
  by (relation "measure (\<lambda>(st, width). 10 - width)") (auto simp: choose_width_def Let_def split: if_splits)

declare uin_width.simps [simp del]

text \<open>\<open>gen_range lo hi\<close> is the sequence of numbers drawn from the range; the loop makes at most 64 attempts.\<close>

definition issue_uin :: "(nat \<Rightarrow> nat \<Rightarrow> nat list) \<Rightarrow> mesh_store \<Rightarrow> store_error + string" where
  "issue_uin gen_range st =
    (let width = uin_width st 5;
         lo = 10 ^ (width - 1);
         hi = 10 ^ width - 1
     in case find (\<lambda>n. identity_missing st (show_nat n)) (take 64 (gen_range lo hi)) of
          Some n \<Rightarrow> Inr (show_nat n)
        | None \<Rightarrow> Inl (StoreErr_Internal ''uin space exhausted''))"

definition store_verify :: "mesh_crypto \<Rightarrow> string \<Rightarrow> string \<Rightarrow> string \<Rightarrow> bool" where
  "store_verify cr signing_pubkey_hex msg sig_b64 \<longleftrightarrow>
    (case hex_decode cr signing_pubkey_hex of
       None \<Rightarrow> False
     | Some pk \<Rightarrow> length pk = 32 \<and> vk_from_bytes cr pk \<and>
         (case b64_decode cr sig_b64 of
            None \<Rightarrow> False
          | Some sig \<Rightarrow> length sig = 64 \<and> vk_verify cr pk msg sig))"

fun match_device :: "mesh_crypto \<Rightarrow> (string \<times> string) list \<Rightarrow> string \<Rightarrow> string \<Rightarrow> store_error + string" where
  "match_device cr [] msg sig = Inl StoreErr_BadSignature"
| "match_device cr ((noise, signing) # rest) msg sig =
     (if store_verify cr signing msg sig then Inr noise else match_device cr rest msg sig)"

definition authed_device :: "mesh_crypto \<Rightarrow> mesh_store \<Rightarrow> string \<Rightarrow> string \<Rightarrow> string \<Rightarrow> store_error + string" where
  "authed_device cr st uin msg sig =
    (if identity_missing st uin then Inl StoreErr_UnknownUin
     else match_device cr (devices_of st uin) msg sig)"

definition send_canonical :: "string \<Rightarrow> int \<Rightarrow> envelope list \<Rightarrow> string" where
  "send_canonical to_uin ts envelopes =
     foldl (\<lambda>msg env. msg @ [newline] @ env_ciphertext env)
       (''send'' @ newline # to_uin @ newline # show_int ts) envelopes"

definition pull_canonical :: "string \<Rightarrow> int \<Rightarrow> string" where
  "pull_canonical uin ts = ''pull'' @ newline # uin @ newline # show_int ts"

definition poll_canonical :: "string \<Rightarrow> int \<Rightarrow> string" where
  "poll_canonical uin ts = ''poll'' @ newline # uin @ newline # show_int ts"

definition name_canonical :: "string \<Rightarrow> int \<Rightarrow> string \<Rightarrow> string" where
  "name_canonical uin ts name = ''name'' @ newline # uin @ newline # show_int ts @ newline # name"

section \<open>Operations\<close>

definition grants_mesh :: "bool \<Rightarrow> bool" where
  "grants_mesh is_deleted = (\<not> is_deleted)"

text \<open>\<open>allows\<close> of \<^verbatim>\<open>src/bin/mesh/subs.rs\<close>; the row lookup in Postgres is a parameter.\<close>

definition pg_allows :: "(uuid \<Rightarrow> string + bool option) \<Rightarrow> uuid \<Rightarrow> string + bool" where
  "pg_allows query sid =
    (case query sid of
       Inl e \<Rightarrow> Inl e
     | Inr (Some is_deleted) \<Rightarrow> Inr (grants_mesh is_deleted)
     | Inr None \<Rightarrow> Inr False)"

definition rename_opt :: "string option \<Rightarrow> string \<Rightarrow> mesh_store \<Rightarrow> mesh_store" where
  "rename_opt name uin st = (case name of None \<Rightarrow> st | Some n \<Rightarrow> rename_identity n uin st)"

definition device_new :: "int \<Rightarrow> string \<Rightarrow> string \<Rightarrow> string \<Rightarrow> device_row" where
  "device_new now uin noise signing =
     \<lparr> dev_uin = uin, dev_noise = noise, dev_signing = signing, dev_last_seen = now, dev_created_at = now \<rparr>"

text \<open>The part of \<open>register\<close> that runs under the database lock.\<close>

definition register_locked ::
  "(nat \<Rightarrow> nat \<Rightarrow> nat list) \<Rightarrow> int \<Rightarrow> uuid \<Rightarrow> string \<Rightarrow> string \<Rightarrow> string option \<Rightarrow> mesh_store \<Rightarrow>
   mesh_store \<times> (store_error + string)" where
  "register_locked gen_range now sub noise signing name st =
    (case device_owner st noise of
       Some (uin, bound) \<Rightarrow>
         if bound \<noteq> sub then (st, Inl StoreErr_Conflict)
         else (rename_opt name uin (update_device noise (\<lambda>d. d\<lparr>dev_signing := signing, dev_last_seen := now\<rparr>) st), Inr uin)
     | None \<Rightarrow>
         (case identity_for_sub st sub of
            Some uin \<Rightarrow>
              (case insert_device (device_new now uin noise signing) st of
                 (st, Inl e) \<Rightarrow> (st, Inl e)
               | (st, Inr _) \<Rightarrow> (rename_opt name uin st, Inr uin))
          | None \<Rightarrow>
              (case issue_uin gen_range st of
                 Inl e \<Rightarrow> (st, Inl e)
               | Inr uin \<Rightarrow>
                   (case insert_identity \<lparr> idn_uin = uin, idn_subscription = sub,
                           idn_name = (case name of None \<Rightarrow> [] | Some n \<Rightarrow> n), idn_created_at = now \<rparr> st of
                      (st, Inl e) \<Rightarrow> (st, Inl e)
                    | (st, Inr _) \<Rightarrow>
                        (case insert_device (device_new now uin noise signing) st of
                           (st, Inl e) \<Rightarrow> (st, Inl e)
                         | (st, Inr _) \<Rightarrow> (st, Inr uin))))))"

definition store_register ::
  "mesh_crypto \<Rightarrow> (string \<Rightarrow> uuid option) \<Rightarrow> (uuid \<Rightarrow> string + bool) \<Rightarrow> (nat \<Rightarrow> nat \<Rightarrow> nat list) \<Rightarrow> int \<Rightarrow>
   string \<Rightarrow> string \<Rightarrow> string \<Rightarrow> string \<Rightarrow> string option \<Rightarrow> mesh_store \<Rightarrow> mesh_store \<times> (store_error + string)" where
  "store_register cr parse_uuid allows gen_range now subscription_id subscription_secret noise_pubkey signing_pubkey name st =
    (case parse_subscription parse_uuid subscription_id subscription_secret of
       Inl e \<Rightarrow> (st, Inl e)
     | Inr sub \<Rightarrow>
         (case allows sub of
            Inl m \<Rightarrow> (st, Inl (StoreErr_Internal m))
          | Inr False \<Rightarrow> (st, Inl StoreErr_SubscriptionRejected)
          | Inr True \<Rightarrow>
              (case normalize_pubkey cr noise_pubkey of
                 Inl e \<Rightarrow> (st, Inl e)
               | Inr noise \<Rightarrow>
                   (case normalize_pubkey cr signing_pubkey of
                      Inl e \<Rightarrow> (st, Inl e)
                    | Inr signing \<Rightarrow>
                        (case name of
                           None \<Rightarrow> register_locked gen_range now sub noise signing None st
                         | Some n \<Rightarrow>
                             (case clean_name n of
                                Inl e \<Rightarrow> (st, Inl e)
                              | Inr n \<Rightarrow> register_locked gen_range now sub noise signing (Some n) st))))))"

definition store_lookup :: "int \<Rightarrow> string \<Rightarrow> mesh_store \<Rightarrow> store_error + lookup_view" where
  "store_lookup now uin st =
    (case find (\<lambda>i. idn_uin i = uin) (st_identities st) of
       None \<Rightarrow> Inl StoreErr_UnknownUin
     | Some i \<Rightarrow>
         (let rows = filter (\<lambda>d. dev_uin d = uin) (st_devices st)
          in Inr \<lparr> lk_uin = uin, lk_name = idn_name i,
               lk_online = list_ex (\<lambda>d. now - dev_last_seen d \<le> ONLINE_WINDOW_SECS
                             \<or> list_ex (\<lambda>((u, _), _). u = uin) (st_polls st)) rows,
               lk_devices = map dev_noise rows \<rparr>))"

definition pending :: "int \<Rightarrow> string \<Rightarrow> string \<Rightarrow> mesh_store \<Rightarrow> nat" where
  "pending now uin device st =
     length (filter (\<lambda>r. row_uin r = uin \<and> row_device r = device \<and> row_expires_at r > now) (st_slots st))"

definition wake :: "mesh_store \<Rightarrow> string \<Rightarrow> string \<Rightarrow> (string \<times> string) list" where
  "wake st uin device = (if (uin, device) \<in> set (st_notifies st) then [(uin, device)] else [])"

text \<open>
  The loop over the envelopes of a \<open>send\<close>: the state, the waiters woken so far and the outcome. An
  envelope that is refused ends the loop; what was inserted before it stays.
\<close>

fun send_loop ::
  "mesh_crypto \<Rightarrow> int \<Rightarrow> string \<Rightarrow> string \<Rightarrow> string list \<Rightarrow> envelope list \<Rightarrow> mesh_store \<Rightarrow> (string \<times> string) list \<Rightarrow>
   mesh_store \<times> (string \<times> string) list \<times> (store_error + unit)" where
  "send_loop cr now from_uin to_uin targets [] st woken = (st, woken, Inr ())"
| "send_loop cr now from_uin to_uin targets (env # envs) st woken =
    (case normalize_pubkey cr (env_device_pubkey env) of
       Inl e \<Rightarrow> (st, woken, Inl e)
     | Inr pk \<Rightarrow>
         if env_ciphertext env = [] then (st, woken, Inl (StoreErr_BadInput ''empty ciphertext''))
         else if \<not> list_ex (\<lambda>k. k = pk) targets then (st, woken, Inl (StoreErr_BadInput ''device is not on the recipient''))
         else if pending now to_uin pk st \<ge> MAX_SLOTS then (st, woken, Inl StoreErr_InboxFull)
         else send_loop cr now from_uin to_uin targets envs
                (st\<lparr>st_slots := st_slots st @ [\<lparr> row_uin = to_uin, row_device = pk, row_from = from_uin,
                      row_ciphertext = env_ciphertext env, row_expires_at = now + SLOT_TTL_SECS \<rparr>]\<rparr>)
                (woken @ wake st to_uin pk))"

definition store_send ::
  "mesh_crypto \<Rightarrow> int \<Rightarrow> string \<Rightarrow> string \<Rightarrow> envelope list \<Rightarrow> int \<Rightarrow> string \<Rightarrow> mesh_store \<Rightarrow>
   mesh_store \<times> (string \<times> string) list \<times> (store_error + unit)" where
  "store_send cr now from_uin to_uin envelopes ts sig st =
    (if envelopes = [] then (st, [], Inl (StoreErr_BadInput ''envelopes required''))
     else if \<not> check_ts ts now then (st, [], Inl StoreErr_BadTimestamp)
     else if identity_missing st from_uin \<or> identity_missing st to_uin then (st, [], Inl StoreErr_UnknownUin)
     else case match_device cr (devices_of st from_uin) (send_canonical to_uin ts envelopes) sig of
       Inl e \<Rightarrow> (st, [], Inl e)
     | Inr sender_pk \<Rightarrow>
         (case send_loop cr now from_uin to_uin (map fst (devices_of st to_uin)) envelopes st [] of
            (st, woken, Inl e) \<Rightarrow> (st, woken, Inl e)
          | (st, woken, Inr _) \<Rightarrow> (touch_device now sender_pk st, woken, Inr ())))"

definition slot_for :: "int \<Rightarrow> string \<Rightarrow> string \<Rightarrow> slot_row \<Rightarrow> bool" where
  "slot_for now uin device r \<longleftrightarrow> row_uin r = uin \<and> row_device r = device \<and> row_expires_at r > now"

definition take_slots :: "string \<Rightarrow> string \<Rightarrow> int \<Rightarrow> mesh_store \<Rightarrow> mesh_store \<times> slot_view list" where
  "take_slots uin device now st =
     (st\<lparr>st_slots := filter (\<lambda>r. \<not> slot_for now uin device r) (st_slots st)\<rparr>,
      map (\<lambda>r. \<lparr> view_from_uin = row_from r, view_ciphertext = row_ciphertext r \<rparr>)
        (filter (slot_for now uin device) (st_slots st)))"

definition store_pull ::
  "mesh_crypto \<Rightarrow> int \<Rightarrow> string \<Rightarrow> int \<Rightarrow> string \<Rightarrow> mesh_store \<Rightarrow> mesh_store \<times> (store_error + slot_view list)" where
  "store_pull cr now uin ts sig st =
    (if \<not> check_ts ts now then (st, Inl StoreErr_BadTimestamp)
     else case authed_device cr st uin (pull_canonical uin ts) sig of
       Inl e \<Rightarrow> (st, Inl e)
     | Inr device \<Rightarrow>
         (let (st, slots) = take_slots uin device now st
          in (touch_device now device st, Inr slots)))"

text \<open>
  A \<open>poll\<close> gives up the lock twice. Its atomic parts: the authentication, entering the guard and
  the waiter list, a take, and leaving the guard. \<open>meanwhile\<close> is what other requests do between
  the first take and the wake-up, \<open>woken\<close> whether the waiter is notified before the timeout.
\<close>

definition poll_auth ::
  "mesh_crypto \<Rightarrow> int \<Rightarrow> string \<Rightarrow> int \<Rightarrow> string \<Rightarrow> mesh_store \<Rightarrow> mesh_store \<times> (store_error + string)" where
  "poll_auth cr now uin ts sig st =
    (if \<not> check_ts ts now then (st, Inl StoreErr_BadTimestamp)
     else case authed_device cr st uin (poll_canonical uin ts) sig of
       Inl e \<Rightarrow> (st, Inl e)
     | Inr device \<Rightarrow> (touch_device now device st, Inr device))"

definition poll_enter :: "string \<Rightarrow> string \<Rightarrow> mesh_store \<Rightarrow> mesh_store" where
  "poll_enter uin device st =
    (let k = (uin, device);
         n = (case map_of (st_polls st) k of None \<Rightarrow> 0 | Some n \<Rightarrow> n)
     in st\<lparr>st_polls := AList.update k (n + 1) (st_polls st), st_notifies := List.insert k (st_notifies st)\<rparr>)"

definition poll_leave :: "string \<Rightarrow> string \<Rightarrow> mesh_store \<Rightarrow> mesh_store" where
  "poll_leave uin device st =
    (let k = (uin, device)
     in case map_of (st_polls st) k of
          None \<Rightarrow> st
        | Some n \<Rightarrow>
            if n - 1 = 0 then st\<lparr>st_polls := AList.delete k (st_polls st)\<rparr>
            else st\<lparr>st_polls := AList.update k (n - 1) (st_polls st)\<rparr>)"

definition store_poll ::
  "mesh_crypto \<Rightarrow> int \<Rightarrow> int \<Rightarrow> int \<Rightarrow> (mesh_store \<Rightarrow> mesh_store) \<Rightarrow> bool \<Rightarrow> string \<Rightarrow> int \<Rightarrow> string \<Rightarrow> mesh_store \<Rightarrow>
   mesh_store \<times> (store_error + slot_view list)" where
  "store_poll cr now now1 now2 meanwhile woken uin ts sig st =
    (case poll_auth cr now uin ts sig st of
       (st, Inl e) \<Rightarrow> (st, Inl e)
     | (st, Inr device) \<Rightarrow>
         (let (st, slots) = take_slots uin device now1 (poll_enter uin device st)
          in if slots \<noteq> [] then (poll_leave uin device st, Inr slots)
             else
               let st = meanwhile st
               in if woken then
                    let (st, slots) = take_slots uin device now2 st
                    in (poll_leave uin device st, Inr slots)
                  else (poll_leave uin device st, Inr [])))"

definition store_set_name ::
  "mesh_crypto \<Rightarrow> int \<Rightarrow> string \<Rightarrow> string \<Rightarrow> int \<Rightarrow> string \<Rightarrow> mesh_store \<Rightarrow> mesh_store \<times> (store_error + unit)" where
  "store_set_name cr now uin name ts sig st =
    (if \<not> check_ts ts now then (st, Inl StoreErr_BadTimestamp)
     else case clean_name name of
       Inl e \<Rightarrow> (st, Inl e)
     | Inr name \<Rightarrow>
         (case authed_device cr st uin (name_canonical uin ts name) sig of
            Inl e \<Rightarrow> (st, Inl e)
          | Inr device \<Rightarrow>
              if length (filter (\<lambda>i. idn_uin i = uin) (st_identities st)) = 0 then (st, Inl StoreErr_UnknownUin)
              else (touch_device now device (rename_identity name uin st), Inr ())))"

definition store_gc :: "int \<Rightarrow> mesh_store \<Rightarrow> mesh_store" where
  "store_gc now st = st\<lparr>st_slots := filter (\<lambda>r. \<not> row_expires_at r \<le> now) (st_slots st)\<rparr>"

section \<open>Keys and invariant\<close>

definition id_keys :: "mesh_store \<Rightarrow> (string \<times> uuid) list" where
  "id_keys st = map (\<lambda>i. (idn_uin i, idn_subscription i)) (st_identities st)"

definition dev_keys :: "mesh_store \<Rightarrow> (string \<times> string) list" where
  "dev_keys st = map (\<lambda>d. (dev_uin d, dev_noise d)) (st_devices st)"

text \<open>
  One UIN per subscription and one subscription per UIN, a device key belongs to one UIN, every
  device has an identity, and every waiting slot is addressed to a device of its UIN.
\<close>

definition store_ok :: "mesh_store \<Rightarrow> bool" where
  "store_ok st \<longleftrightarrow> distinct (map fst (id_keys st)) \<and> distinct (map snd (id_keys st)) \<and> distinct (map snd (dev_keys st))
    \<and> fst ` set (dev_keys st) \<subseteq> fst ` set (id_keys st)
    \<and> (\<forall>r \<in> set (st_slots st). (row_uin r, row_device r) \<in> set (dev_keys st))"

definition same_keys :: "mesh_store \<Rightarrow> mesh_store \<Rightarrow> bool" where
  "same_keys st st' \<longleftrightarrow> id_keys st' = id_keys st \<and> dev_keys st' = dev_keys st"

lemma same_keys_refl [simp]: "same_keys st st"
  by (simp add: same_keys_def)

lemma update_device_frame [simp]:
  assumes "\<And>d. dev_uin (f d) = dev_uin d" "\<And>d. dev_noise (f d) = dev_noise d"
  shows "id_keys (update_device n f st) = id_keys st" "dev_keys (update_device n f st) = dev_keys st"
    "st_slots (update_device n f st) = st_slots st"
  using assms by (simp_all add: update_device_def id_keys_def dev_keys_def)

lemma touch_device_frame [simp]:
  "id_keys (touch_device now n st) = id_keys st" "dev_keys (touch_device now n st) = dev_keys st"
  "st_slots (touch_device now n st) = st_slots st"
  by (simp_all add: touch_device_def)

lemma rename_identity_frame [simp]:
  "id_keys (rename_identity nm u st) = id_keys st" "dev_keys (rename_identity nm u st) = dev_keys st"
  "st_slots (rename_identity nm u st) = st_slots st"
  by (simp_all add: rename_identity_def id_keys_def dev_keys_def)

lemma rename_opt_frame [simp]:
  "id_keys (rename_opt nm u st) = id_keys st" "dev_keys (rename_opt nm u st) = dev_keys st"
  "st_slots (rename_opt nm u st) = st_slots st"
  by (simp_all add: rename_opt_def split: option.split)

lemma keys_slots_frame [simp]:
  "id_keys (st\<lparr>st_slots := s\<rparr>) = id_keys st" "dev_keys (st\<lparr>st_slots := s\<rparr>) = dev_keys st"
  by (simp_all add: id_keys_def dev_keys_def)

lemma poll_frame [simp]:
  "id_keys (poll_enter u d st) = id_keys st" "dev_keys (poll_enter u d st) = dev_keys st"
  "st_slots (poll_enter u d st) = st_slots st"
  "id_keys (poll_leave u d st) = id_keys st" "dev_keys (poll_leave u d st) = dev_keys st"
  "st_slots (poll_leave u d st) = st_slots st"
  by (simp_all add: poll_enter_def poll_leave_def Let_def id_keys_def dev_keys_def split: option.split)

lemma identity_missing_iff: "identity_missing st u \<longleftrightarrow> u \<notin> fst ` set (id_keys st)"
  by (auto simp: identity_missing_def id_keys_def filter_empty_conv image_image)

lemma identity_for_sub_Some: "identity_for_sub st s = Some u \<Longrightarrow> (u, s) \<in> set (id_keys st)"
  by (auto simp: identity_for_sub_def id_keys_def find_Some_iff)

lemma identity_for_sub_None: "identity_for_sub st s = None \<Longrightarrow> s \<notin> snd ` set (id_keys st)"
  by (auto simp: identity_for_sub_def id_keys_def find_None_iff)

lemma device_owner_Some:
  "device_owner st n = Some (u, s) \<Longrightarrow> (u, n) \<in> set (dev_keys st) \<and> (u, s) \<in> set (id_keys st)"
proof -
  let ?l = "[(dev_uin d, idn_subscription i). d \<leftarrow> st_devices st, i \<leftarrow> st_identities st, idn_uin i = dev_uin d \<and> dev_noise d = n]"
  assume "device_owner st n = Some (u, s)"
  then obtain rest where l: "?l = (u, s) # rest" unfolding device_owner_def by (simp split: list.splits)
  have "(u, s) \<in> set ?l" unfolding l by simp
  then obtain d i where d: "d \<in> set (st_devices st)" "i \<in> set (st_identities st)"
    "idn_uin i = dev_uin d" "dev_noise d = n" "u = dev_uin d" "s = idn_subscription i" by (auto split: if_splits)
  have "(dev_uin d, dev_noise d) \<in> set (dev_keys st)" unfolding dev_keys_def set_map by (rule imageI[OF d(1)])
  moreover have "(idn_uin i, idn_subscription i) \<in> set (id_keys st)" unfolding id_keys_def set_map by (rule imageI[OF d(2)])
  ultimately show ?thesis by (simp add: d(3-6))
qed

lemma device_owner_None:
  assumes "store_ok st" "device_owner st n = None"
  shows "n \<notin> snd ` set (dev_keys st)"
proof
  assume "n \<in> snd ` set (dev_keys st)"
  then obtain d where d: "d \<in> set (st_devices st)" "dev_noise d = n" by (auto simp: dev_keys_def)
  then have "dev_uin d \<in> fst ` set (dev_keys st)" by (force simp: dev_keys_def)
  then obtain i where "i \<in> set (st_identities st)" "idn_uin i = dev_uin d"
    using assms(1) unfolding store_ok_def id_keys_def by auto
  then have "[(dev_uin d, idn_subscription i). d \<leftarrow> st_devices st, i \<leftarrow> st_identities st,
      idn_uin i = dev_uin d \<and> dev_noise d = n] \<noteq> []" using d by auto
  then show False using assms(2) unfolding device_owner_def by (auto split: list.splits)
qed

lemma issue_uin_free: "issue_uin g st = Inr u \<Longrightarrow> u \<notin> fst ` set (id_keys st)"
  by (auto simp: issue_uin_def Let_def find_Some_iff identity_missing_iff split: option.splits)

lemma insert_device_new:
  "noise \<notin> snd ` set (dev_keys st) \<Longrightarrow>
   insert_device (device_new now u noise sg) st = (st\<lparr>st_devices := st_devices st @ [device_new now u noise sg]\<rparr>, Inr ())"
  by (simp add: insert_device_def dev_keys_def device_new_def image_image)

lemma insert_identity_new:
  "u \<notin> fst ` set (id_keys st) \<Longrightarrow> sub \<notin> snd ` set (id_keys st) \<Longrightarrow> idn_uin i = u \<Longrightarrow> idn_subscription i = sub \<Longrightarrow>
   insert_identity i st = (st\<lparr>st_identities := st_identities st @ [i]\<rparr>, Inr ())"
  by (simp add: insert_identity_def id_keys_def image_image)

lemma add_rows_keys [simp]:
  "id_keys (st\<lparr>st_devices := ds\<rparr>) = id_keys st"
  "dev_keys (st\<lparr>st_devices := st_devices st @ [d]\<rparr>) = dev_keys st @ [(dev_uin d, dev_noise d)]"
  "dev_keys (st\<lparr>st_identities := js\<rparr>) = dev_keys st"
  "dev_keys (st\<lparr>st_identities := js, st_devices := st_devices st @ [d]\<rparr>) = dev_keys st @ [(dev_uin d, dev_noise d)]"
  "id_keys (st\<lparr>st_identities := st_identities st @ [i]\<rparr>) = id_keys st @ [(idn_uin i, idn_subscription i)]"
  by (simp_all add: id_keys_def dev_keys_def)

lemma device_new_fields [simp]:
  "dev_uin (device_new now u n s) = u" "dev_noise (device_new now u n s) = n"
  by (simp_all add: device_new_def)

text \<open>The four outcomes of a registration in a well-formed store.\<close>

definition register_effect ::
  "uuid \<Rightarrow> string \<Rightarrow> mesh_store \<Rightarrow> mesh_store \<Rightarrow> (store_error + string) \<Rightarrow> bool" where
  "register_effect sub noise st st' r \<longleftrightarrow> st_slots st' = st_slots st \<and>
    ((\<exists>e. st' = st \<and> r = Inl e)
     \<or> (\<exists>u. r = Inr u \<and> (u, noise) \<in> set (dev_keys st) \<and> (u, sub) \<in> set (id_keys st) \<and> same_keys st st')
     \<or> (\<exists>u. r = Inr u \<and> noise \<notin> snd ` set (dev_keys st) \<and> (u, sub) \<in> set (id_keys st)
          \<and> id_keys st' = id_keys st \<and> dev_keys st' = dev_keys st @ [(u, noise)])
     \<or> (\<exists>u. r = Inr u \<and> noise \<notin> snd ` set (dev_keys st) \<and> u \<notin> fst ` set (id_keys st) \<and> sub \<notin> snd ` set (id_keys st)
          \<and> id_keys st' = id_keys st @ [(u, sub)] \<and> dev_keys st' = dev_keys st @ [(u, noise)]))"

lemma register_locked_effect:
  assumes "store_ok st" "register_locked g now sub noise sg name st = (st', r)"
  shows "register_effect sub noise st st' r"
proof (cases "device_owner st noise")
  case (Some ub)
  obtain u b where ub: "ub = (u, b)" by (cases ub)
  have keys: "(u, noise) \<in> set (dev_keys st)" "(u, b) \<in> set (id_keys st)"
    using device_owner_Some[of st noise u b] Some ub by simp_all
  show ?thesis
    using assms(2) keys unfolding register_locked_def Some ub register_effect_def same_keys_def
    by (cases "b = sub") auto
next
  case None
  have noise: "noise \<notin> snd ` set (dev_keys st)" by (rule device_owner_None[OF assms(1) None])
  show ?thesis
  proof (cases "identity_for_sub st sub")
    case (Some u)
    then show ?thesis
      using assms(2) noise identity_for_sub_Some[OF Some]
      unfolding register_locked_def None Some register_effect_def by (auto simp: insert_device_new[OF noise])
  next
    case sub: None
    show ?thesis
    proof (cases "issue_uin g st")
      case (Inl e)
      then have "st' = st" "r = Inl e" using assms(2) unfolding register_locked_def None sub by simp_all
      then show ?thesis unfolding register_effect_def by simp
    next
      case (Inr u)
      note free = issue_uin_free[OF Inr] identity_for_sub_None[OF sub]
      have "noise \<notin> snd ` set (dev_keys (st\<lparr>st_identities := x\<rparr>))" for x using noise by simp
      then show ?thesis
        using assms(2) noise free
        unfolding register_locked_def None sub Inr register_effect_def
        by (auto simp: insert_identity_new[OF free] insert_device_new)
    qed
  qed
qed

lemma store_ok_add:
  assumes "store_ok st" "st_slots st' = st_slots st" "id_keys st' = id_keys st @ xs" "dev_keys st' = dev_keys st @ ys"
    and "distinct (map fst xs)" "fst ` set xs \<inter> fst ` set (id_keys st) = {}"
    and "distinct (map snd xs)" "snd ` set xs \<inter> snd ` set (id_keys st) = {}"
    and "distinct (map snd ys)" "snd ` set ys \<inter> snd ` set (dev_keys st) = {}"
    and "fst ` set ys \<subseteq> fst ` set (id_keys st') "
  shows "store_ok st'"
  unfolding store_ok_def
proof (intro conjI)
  show "distinct (map fst (id_keys st'))" "distinct (map snd (id_keys st'))" "distinct (map snd (dev_keys st'))"
    using assms(1,5-10) unfolding assms(3,4) store_ok_def by (simp_all add: Int_commute)
  have "fst ` set (dev_keys st) \<subseteq> fst ` set (id_keys st)" using assms(1) unfolding store_ok_def by blast
  moreover have "fst ` set (id_keys st) \<subseteq> fst ` set (id_keys st')" unfolding assms(3) set_append image_Un by (rule Un_upper1)
  ultimately show "fst ` set (dev_keys st') \<subseteq> fst ` set (id_keys st')"
    using assms(11) unfolding assms(4) set_append image_Un by blast
  show "\<forall>r \<in> set (st_slots st'). (row_uin r, row_device r) \<in> set (dev_keys st')"
    using assms(1) unfolding assms(2,4) store_ok_def set_append by blast
qed

lemma register_effect_ok:
  assumes "store_ok st" "register_effect sub noise st st' r"
  shows "store_ok st'"
  using assms(2) unfolding register_effect_def same_keys_def
proof (elim conjE disjE exE)
  fix u
  assume "st_slots st' = st_slots st" "noise \<notin> snd ` set (dev_keys st)" "(u, sub) \<in> set (id_keys st)"
    "id_keys st' = id_keys st" "dev_keys st' = dev_keys st @ [(u, noise)]"
  moreover from this(3) have "u \<in> fst ` set (id_keys st)" by (rule image_eqI[of _ fst, rotated]) simp
  ultimately show ?thesis using store_ok_add[OF assms(1), of st' "[]" "[(u, noise)]"] by simp
next
  fix u
  assume "st_slots st' = st_slots st" "noise \<notin> snd ` set (dev_keys st)" "u \<notin> fst ` set (id_keys st)"
    "sub \<notin> snd ` set (id_keys st)" "id_keys st' = id_keys st @ [(u, sub)]" "dev_keys st' = dev_keys st @ [(u, noise)]"
  then show ?thesis using store_ok_add[OF assms(1), of st' "[(u, sub)]" "[(u, noise)]"] by simp
qed (use assms(1) in \<open>simp_all add: store_ok_def\<close>)

lemma register_effect_grows:
  assumes "register_effect sub noise st st' r"
  shows "set (id_keys st) \<subseteq> set (id_keys st')" "set (dev_keys st) \<subseteq> set (dev_keys st')" "st_slots st' = st_slots st"
  using assms unfolding register_effect_def same_keys_def by auto

lemma store_register_cases:
  assumes "store_register cr pu al g now sid secret noise sg name st = (st', r)"
  shows "(\<exists>e. st' = st \<and> r = Inl e) \<or> (\<exists>sub n s nm. register_locked g now sub n s nm st = (st', r))"
  using assms unfolding store_register_def
  by (auto split: sum.splits bool.splits option.splits) metis+

section \<open>Sending and taking\<close>

definition row_mail :: "slot_row \<Rightarrow> (string \<times> string) \<times> int" where
  "row_mail r = ((row_from r, row_ciphertext r), row_expires_at r)"

definition view_mail :: "slot_view \<Rightarrow> string \<times> string" where
  "view_mail v = (view_from_uin v, view_ciphertext v)"

definition row_event :: "slot_row \<Rightarrow> (string \<times> string, string \<times> string) mail_event" where
  "row_event r = Mail_Stored (row_uin r, row_device r) (row_from r, row_ciphertext r) (row_expires_at r)"

fun store_slots :: "mesh_store \<Rightarrow> string \<times> string \<Rightarrow> ((string \<times> string) \<times> int) list" where
  "store_slots st (u, d) = map row_mail (filter (\<lambda>r. row_uin r = u \<and> row_device r = d) (st_slots st))"

lemma fold_row_events:
  "fold (mail_box (u, d)) (map row_event rows) box =
     box @ map row_mail (filter (\<lambda>r. row_uin r = u \<and> row_device r = d) rows)"
  by (induction rows arbitrary: box) (auto simp: row_event_def row_mail_def)

lemma live_row_mail:
  "live now (map row_mail rows) = map row_mail (filter (\<lambda>r. row_expires_at r > now) rows)"
  by (simp add: live_def filter_map row_mail_def comp_def)

lemma length_live_single: "length (live now [x]) \<le> Suc 0"
  by (simp add: live_def)

lemma pending_live: "pending now u d st = length (live now (store_slots st (u, d)))"
  by (simp add: pending_def live_row_mail conj_ac)

text \<open>What a send appends: rows of the sender for devices of the recipient, in the order of the envelopes.\<close>

definition sent_rows ::
  "int \<Rightarrow> string \<Rightarrow> string \<Rightarrow> string list \<Rightarrow> envelope list \<Rightarrow> slot_row list \<Rightarrow> bool" where
  "sent_rows now from_uin to_uin targets envs rows \<longleftrightarrow>
     map row_ciphertext rows = map env_ciphertext (take (length rows) envs) \<and>
     (\<forall>r \<in> set rows. row_from r = from_uin \<and> row_uin r = to_uin \<and> row_device r \<in> set targets
        \<and> row_expires_at r = now + SLOT_TTL_SECS)"

lemma send_loop_rows:
  "send_loop cr now from_uin to_uin targets envs st woken = (st', w', r) \<Longrightarrow>
   \<exists>rows. st' = st\<lparr>st_slots := st_slots st @ rows\<rparr> \<and> sent_rows now from_uin to_uin targets envs rows
     \<and> (r = Inr () \<longrightarrow> length rows = length envs)"
proof (induction envs arbitrary: st woken)
  case Nil
  then show ?case by (auto intro!: exI[of _ "[]"] simp: sent_rows_def)
next
  case (Cons env envs)
  show ?case
  proof (cases "normalize_pubkey cr (env_device_pubkey env)")
    case (Inl e)
    then show ?thesis using Cons.prems by (auto intro!: exI[of _ "[]"] simp: sent_rows_def)
  next
    case (Inr pk)
    let ?row = "\<lparr> row_uin = to_uin, row_device = pk, row_from = from_uin,
                   row_ciphertext = env_ciphertext env, row_expires_at = now + SLOT_TTL_SECS \<rparr>"
    show ?thesis
    proof (cases "env_ciphertext env \<noteq> [] \<and> pk \<in> set targets \<and> pending now to_uin pk st < MAX_SLOTS")
      case True
      then have "send_loop cr now from_uin to_uin targets envs (st\<lparr>st_slots := st_slots st @ [?row]\<rparr>)
          (woken @ wake st to_uin pk) = (st', w', r)"
        using Cons.prems Inr by (simp add: list_ex_iff)
      from Cons.IH[OF this] obtain rows where rows:
        "st' = st\<lparr>st_slots := (st_slots st @ [?row]) @ rows\<rparr>" "sent_rows now from_uin to_uin targets envs rows"
        "r = Inr () \<longrightarrow> length rows = length envs" by auto
      have "sent_rows now from_uin to_uin targets (env # envs) (?row # rows)"
        using rows(2) True by (simp add: sent_rows_def)
      then show ?thesis using rows by (intro exI[of _ "?row # rows"]) simp
    next
      case False
      then show ?thesis using Cons.prems Inr
        by (auto intro!: exI[of _ "[]"] simp: sent_rows_def list_ex_iff not_less split: if_splits)
    qed
  qed
qed

lemma send_loop_cap:
  assumes "send_loop cr now from_uin to_uin targets envs st woken = (st', w', r)"
    and "length (live now (store_slots st d)) \<le> MAX_SLOTS"
  shows "length (live now (store_slots st' d)) \<le> MAX_SLOTS"
  using assms
proof (induction envs arbitrary: st woken)
  case (Cons env envs)
  show ?case
  proof (cases "normalize_pubkey cr (env_device_pubkey env)")
    case (Inr pk)
    let ?row = "\<lparr> row_uin = to_uin, row_device = pk, row_from = from_uin,
                   row_ciphertext = env_ciphertext env, row_expires_at = now + SLOT_TTL_SECS \<rparr>"
    let ?st = "st\<lparr>st_slots := st_slots st @ [?row]\<rparr>"
    show ?thesis
    proof (cases "env_ciphertext env \<noteq> [] \<and> pk \<in> set targets \<and> pending now to_uin pk st < MAX_SLOTS")
      case True
      then have loop: "send_loop cr now from_uin to_uin targets envs ?st (woken @ wake st to_uin pk) = (st', w', r)"
        using Cons.prems(1) Inr by (simp add: list_ex_iff)
      have "length (live now (store_slots ?st d)) \<le> MAX_SLOTS"
      proof (cases "d = (to_uin, pk)")
        case same: True
        have "length (live now (store_slots ?st d)) \<le> Suc (pending now to_uin pk st)"
          using length_live_single[of now "row_mail ?row"] by (simp add: same pending_live)
        then show ?thesis using True by simp
      next
        case False
        then have "store_slots ?st d = store_slots st d" by (cases d) auto
        then show ?thesis using Cons.prems(2) by metis
      qed
      then show ?thesis by (rule Cons.IH[OF loop])
    next
      case False
      then have "st' = st" using Cons.prems(1) Inr by (auto simp: list_ex_iff not_less split: if_splits)
      then show ?thesis using Cons.prems(2) by metis
    qed
  next
    case (Inl e)
    then have "st' = st" using Cons.prems(1) by simp
    then show ?thesis using Cons.prems(2) by metis
  qed
next
  case Nil
  then have "st' = st" by simp
  then show ?case using Nil.prems(2) by metis
qed

text \<open>A send either changes nothing or has authenticated the sender before it appended its rows.\<close>

definition send_effect ::
  "mesh_crypto \<Rightarrow> int \<Rightarrow> string \<Rightarrow> string \<Rightarrow> envelope list \<Rightarrow> int \<Rightarrow> string \<Rightarrow> mesh_store \<Rightarrow> mesh_store \<Rightarrow>
   slot_row list \<Rightarrow> (store_error + unit) \<Rightarrow> bool" where
  "send_effect cr now from_uin to_uin envs ts sig st st' rows r \<longleftrightarrow>
     st_slots st' = st_slots st @ rows \<and> same_keys st st' \<and>
     sent_rows now from_uin to_uin (map fst (devices_of st to_uin)) envs rows \<and>
     (r = Inr () \<longrightarrow> length rows = length envs) \<and>
     (rows \<noteq> [] \<longrightarrow> check_ts ts now \<and>
        (\<exists>dev. match_device cr (devices_of st from_uin) (send_canonical to_uin ts envs) sig = Inr dev))"

lemma store_send_effect:
  assumes "store_send cr now from_uin to_uin envs ts sig st = (st', w, r)"
  shows "\<exists>rows. send_effect cr now from_uin to_uin envs ts sig st st' rows r"
    and "length (live now (store_slots st d)) \<le> MAX_SLOTS \<Longrightarrow> length (live now (store_slots st' d)) \<le> MAX_SLOTS"
proof -
  let ?m = "match_device cr (devices_of st from_uin) (send_canonical to_uin ts envs) sig"
  let ?loop = "send_loop cr now from_uin to_uin (map fst (devices_of st to_uin)) envs st []"
  have refused: "(\<exists>rows. send_effect cr now from_uin to_uin envs ts sig st st' rows r)
      \<and> (length (live now (store_slots st d)) \<le> MAX_SLOTS \<longrightarrow> length (live now (store_slots st' d)) \<le> MAX_SLOTS)"
    if "st' = st" "r = Inl e" for e
    using that by (auto simp: send_effect_def sent_rows_def intro!: exI[of _ "[]"] simp del: store_slots.simps)
  have "(\<exists>rows. send_effect cr now from_uin to_uin envs ts sig st st' rows r)
      \<and> (length (live now (store_slots st d)) \<le> MAX_SLOTS \<longrightarrow> length (live now (store_slots st' d)) \<le> MAX_SLOTS)"
  proof (cases "envs = [] \<or> \<not> check_ts ts now \<or> identity_missing st from_uin \<or> identity_missing st to_uin")
    case True
    then show ?thesis using assms refused by (auto simp: store_send_def split: if_splits)
  next
    case False
    then have ts: "check_ts ts now" by simp
    show ?thesis
    proof (cases ?m)
      case (Inl e)
      then show ?thesis using False assms refused by (auto simp: store_send_def)
    next
      case (Inr dev)
      obtain st1 w1 r1 where loop: "?loop = (st1, w1, r1)" by (cases ?loop)
      have st': "st_slots st' = st_slots st1 \<and> same_keys st1 st' \<and> (r = Inr () \<longrightarrow> r1 = Inr ())"
        using False Inr loop assms by (cases r1) (auto simp: store_send_def same_keys_def)
      have "\<exists>rows. send_effect cr now from_uin to_uin envs ts sig st st' rows r"
        using send_loop_rows[OF loop] st' ts Inr unfolding send_effect_def same_keys_def by auto
      moreover have "store_slots st' d = store_slots st1 d" using st' by (cases d) simp
      ultimately show ?thesis using send_loop_cap[OF loop, of d] by (metis)
    qed
  qed
  then show "\<exists>rows. send_effect cr now from_uin to_uin envs ts sig st st' rows r"
    "length (live now (store_slots st d)) \<le> MAX_SLOTS \<Longrightarrow> length (live now (store_slots st' d)) \<le> MAX_SLOTS"
    by blast+
qed

section \<open>Steps\<close>

text \<open>
  The atomic steps, those of a poll one by one; requests interleave at this granularity.
\<close>

inductive store_step ::
  "mesh_crypto \<Rightarrow> mesh_store \<Rightarrow> int \<Rightarrow> (string \<times> string, string \<times> string) mail_event list \<Rightarrow> mesh_store \<Rightarrow> bool"
  for cr where
  sst_register: "store_register cr pu al g now sid secret noise sg name st = (st', r) \<Longrightarrow> store_step cr st now [] st'"
| sst_send: "store_send cr now from_uin to_uin envs ts sig st = (st', w, r) \<Longrightarrow>
     store_step cr st now (map row_event (drop (length (st_slots st)) (st_slots st'))) st'"
| sst_pull: "store_pull cr now uin ts sig st = (st', Inr slots) \<Longrightarrow>
     authed_device cr st uin (pull_canonical uin ts) sig = Inr device \<Longrightarrow>
     store_step cr st now [Mail_Taken (uin, device) (map view_mail slots)] st'"
| sst_pull_err: "store_pull cr now uin ts sig st = (st', Inl e) \<Longrightarrow> store_step cr st now [] st'"
| sst_poll_auth: "poll_auth cr now uin ts sig st = (st', r) \<Longrightarrow> store_step cr st now [] st'"
| sst_poll_enter: "store_step cr st now [] (poll_enter uin device st)"
| sst_poll_take: "take_slots uin device now st = (st', slots) \<Longrightarrow>
     store_step cr st now [Mail_Taken (uin, device) (map view_mail slots)] st'"
| sst_poll_leave: "store_step cr st now [] (poll_leave uin device st)"
| sst_set_name: "store_set_name cr now uin name ts sig st = (st', r) \<Longrightarrow> store_step cr st now [] st'"
| sst_gc: "store_step cr st now [] (store_gc now st)"

declare store_slots.simps [simp del]

lemma live_store_slots: "live now (store_slots st (u, d)) = map row_mail (filter (slot_for now u d) (st_slots st))"
  by (simp add: store_slots.simps live_row_mail slot_for_def conj_ac cong: filter_cong)

lemma store_slots_cong: "st_slots st' = st_slots st \<Longrightarrow> store_slots st' d = store_slots st d"
  by (cases d) (simp add: store_slots.simps)

lemma take_slots_effect:
  assumes "take_slots u d now st = (st', slots)"
  shows "same_keys st st'" "map view_mail slots = map fst (live now (store_slots st (u, d)))"
    "st_slots st' = filter (\<lambda>r. \<not> slot_for now u d r) (st_slots st)"
    "live now (store_slots st' k) = (if k = (u, d) then [] else live now (store_slots st k))"
proof -
  show s: "st_slots st' = filter (\<lambda>r. \<not> slot_for now u d r) (st_slots st)"
    and "same_keys st st'" using assms by (auto simp: take_slots_def same_keys_def)
  show "map view_mail slots = map fst (live now (store_slots st (u, d)))"
    using assms by (auto simp: take_slots_def live_store_slots view_mail_def row_mail_def comp_def)
  obtain u' d' where k: "k = (u', d')" by (cases k)
  have "filter (slot_for now u' d') (filter (\<lambda>r. \<not> slot_for now u d r) (st_slots st)) =
      (if k = (u, d) then [] else filter (slot_for now u' d') (st_slots st))"
    unfolding k by (auto simp: slot_for_def filter_empty_conv intro!: filter_cong)
  then show "live now (store_slots st' k) = (if k = (u, d) then [] else live now (store_slots st k))"
    unfolding k live_store_slots s by simp
qed

lemma store_pull_effect:
  assumes "store_pull cr now u ts sig st = (st', r)"
  shows "(\<exists>e. r = Inl e \<and> st' = st) \<or>
    (\<exists>d st1 slots. authed_device cr st u (pull_canonical u ts) sig = Inr d \<and> take_slots u d now st = (st1, slots)
        \<and> r = Inr slots \<and> st' = touch_device now d st1)"
  using assms unfolding store_pull_def by (auto split: if_splits sum.splits prod.splits)

lemma quiet_steps:
  "poll_auth cr now u ts sig st = (st', r) \<Longrightarrow> same_keys st st' \<and> st_slots st' = st_slots st"
  "store_set_name cr now u nm ts sig st = (st', r2) \<Longrightarrow> same_keys st st' \<and> st_slots st' = st_slots st"
  by (auto simp: poll_auth_def store_set_name_def same_keys_def split: if_splits sum.splits)

lemma same_keys_ok:
  "store_ok st \<Longrightarrow> same_keys st st' \<Longrightarrow> set (st_slots st') \<subseteq> set (st_slots st) \<Longrightarrow> store_ok st'"
  unfolding store_ok_def same_keys_def by auto

lemma store_register_effect:
  assumes "store_ok st" "store_register cr pu al g now sid secret noise sg name st = (st', r)"
  shows "store_ok st' \<and> set (id_keys st) \<subseteq> set (id_keys st') \<and> set (dev_keys st) \<subseteq> set (dev_keys st')
    \<and> st_slots st' = st_slots st"
proof -
  from store_register_cases[OF assms(2)] consider "st' = st"
    | sub n s nm where "register_locked g now sub n s nm st = (st', r)" by blast
  then show ?thesis
  proof cases
    case (2 sub n s nm)
    note eff = register_locked_effect[OF assms(1) 2]
    show ?thesis using register_effect_ok[OF assms(1) eff] register_effect_grows[OF eff] by blast
  qed (simp add: assms(1))
qed

lemma send_effect_ok:
  assumes "store_ok st" "send_effect cr now from_uin to_uin envs ts sig st st' rows r"
  shows "store_ok st'"
proof -
  have targets: "set (map fst (devices_of st to_uin)) = {n. (to_uin, n) \<in> set (dev_keys st)}"
    by (auto simp: devices_of_def dev_keys_def image_iff)
  have "\<forall>r \<in> set rows. (row_uin r, row_device r) \<in> set (dev_keys st)"
    using assms(2) unfolding send_effect_def sent_rows_def targets by auto
  then show ?thesis
    using assms unfolding send_effect_def same_keys_def store_ok_def by auto
qed

lemma store_step_grows:
  assumes "store_ok st" "store_step cr st now evs st'"
  shows "store_ok st' \<and> set (id_keys st) \<subseteq> set (id_keys st') \<and> set (dev_keys st) \<subseteq> set (dev_keys st')"
proof -
  have same: "store_ok st' \<and> set (id_keys st) \<subseteq> set (id_keys st') \<and> set (dev_keys st) \<subseteq> set (dev_keys st')"
    if "same_keys st st'" "set (st_slots st') \<subseteq> set (st_slots st)"
    using same_keys_ok[OF assms(1) that] that(1) by (simp add: same_keys_def)
  show ?thesis using assms(2)
  proof cases
    case (sst_register pu al g sid secret noise sg name r)
    then show ?thesis using store_register_effect[OF assms(1)] by blast
  next
    case (sst_send f t envs ts sig w r)
    then obtain rows where e: "send_effect cr now f t envs ts sig st st' rows r" using store_send_effect(1) by blast
    then have "same_keys st st'" by (simp add: send_effect_def)
    then show ?thesis using send_effect_ok[OF assms(1) e] by (simp add: same_keys_def)
  next
    case (sst_pull u ts sig slots d)
    then obtain d' st1 sl where "take_slots u d' now st = (st1, sl)" "st' = touch_device now d' st1"
      using store_pull_effect[OF sst_pull(2)] by auto
    then show ?thesis using take_slots_effect[of u d' now st st1 sl] by (intro same) (auto simp: same_keys_def)
  next
    case (sst_pull_err u ts sig e)
    then have "st' = st" using store_pull_effect[OF sst_pull_err(2)] by auto
    then show ?thesis by (intro same) simp_all
  next
    case (sst_poll_take u d slots)
    then show ?thesis using take_slots_effect[OF sst_poll_take(2)] by (intro same) auto
  next
    case sst_gc
    then show ?thesis by (intro same) (auto simp: store_gc_def same_keys_def)
  qed (intro same; auto simp: same_keys_def dest: quiet_steps)+
qed

lemma store_step_effect:
  assumes ok: "store_ok st" and step: "store_step cr st now evs st'"
  shows "live now (store_slots st' k) = live now (fold (mail_box k) evs (store_slots st k))"
    and "Mail_Taken k ms \<in> set evs \<Longrightarrow> ms = map fst (live now (store_slots st k))"
    and "length (live now (store_slots st k)) \<le> MAX_SLOTS \<Longrightarrow> length (live now (store_slots st' k)) \<le> MAX_SLOTS"
proof -
  have quiet: "live now (store_slots st' k) = live now (fold (mail_box k) evs (store_slots st k))
      \<and> (Mail_Taken k ms \<in> set evs \<longrightarrow> ms = map fst (live now (store_slots st k)))
      \<and> (length (live now (store_slots st k)) \<le> MAX_SLOTS \<longrightarrow> length (live now (store_slots st' k)) \<le> MAX_SLOTS)"
    if "st_slots st' = st_slots st" "evs = []"
    using that store_slots_cong[OF that(1), of k] by simp
  have taken: "live now (store_slots st' k) = live now (fold (mail_box k) evs (store_slots st k))
      \<and> (Mail_Taken k ms \<in> set evs \<longrightarrow> ms = map fst (live now (store_slots st k)))
      \<and> (length (live now (store_slots st k)) \<le> MAX_SLOTS \<longrightarrow> length (live now (store_slots st' k)) \<le> MAX_SLOTS)"
    if "take_slots u d now st = (st1, slots)" "st_slots st' = st_slots st1"
      "evs = [Mail_Taken (u, d) (map view_mail slots)]" for u d st1 slots
    using take_slots_effect(2,4)[OF that(1)] store_slots_cong[OF that(2), of k] that(3) by auto
  have "live now (store_slots st' k) = live now (fold (mail_box k) evs (store_slots st k))
      \<and> (Mail_Taken k ms \<in> set evs \<longrightarrow> ms = map fst (live now (store_slots st k)))
      \<and> (length (live now (store_slots st k)) \<le> MAX_SLOTS \<longrightarrow> length (live now (store_slots st' k)) \<le> MAX_SLOTS)"
    using step
  proof cases
    case (sst_register pu al g sid secret noise sg name r)
    then show ?thesis using store_register_effect[OF ok] by (intro quiet) blast+
  next
    case (sst_send f t envs ts sig w r)
    then obtain rows where "send_effect cr now f t envs ts sig st st' rows r" using store_send_effect(1) by blast
    then have rows: "st_slots st' = st_slots st @ rows" by (simp add: send_effect_def)
    obtain u d where k: "k = (u, d)" by (cases k)
    have "store_slots st' k = fold (mail_box k) evs (store_slots st k)"
      unfolding sst_send(1) k fold_row_events rows by (simp add: store_slots.simps rows)
    moreover have "Mail_Taken k ms \<notin> set evs" using sst_send(1) by (auto simp: row_event_def)
    ultimately show ?thesis using store_send_effect(2)[OF sst_send(2), of k] by simp
  next
    case (sst_pull u ts sig slots d)
    then obtain st1 where "take_slots u d now st = (st1, slots)" "st' = touch_device now d st1"
      using store_pull_effect[OF sst_pull(2)] by auto
    then show ?thesis using sst_pull(1) by (intro taken) simp_all
  next
    case (sst_pull_err u ts sig e)
    then show ?thesis using store_pull_effect[OF sst_pull_err(2)] by (intro quiet) auto
  next
    case (sst_poll_take u d slots)
    then show ?thesis by (intro taken) auto
  next
    case sst_gc
    have "live now (store_slots st' k) = live now (store_slots st k)"
      by (cases k) (auto simp: sst_gc live_store_slots store_gc_def slot_for_def intro!: arg_cong[of _ _ "map row_mail"] filter_cong)
    then show ?thesis using sst_gc by simp
  qed (intro quiet; auto dest: quiet_steps)+
  then show "live now (store_slots st' k) = live now (fold (mail_box k) evs (store_slots st k))"
    "Mail_Taken k ms \<in> set evs \<Longrightarrow> ms = map fst (live now (store_slots st k))"
    "length (live now (store_slots st k)) \<le> MAX_SLOTS \<Longrightarrow> length (live now (store_slots st' k)) \<le> MAX_SLOTS" by blast+
qed

lemma store_open_ok: "store_ok store_open"
  by (simp add: store_ok_def store_open_def id_keys_def dev_keys_def)

interpretation store_mail: mailbox store_ok store_slots "store_step cr" store_open MAX_SLOTS for cr
proof
  show "store_slots store_open d = []" for d
    by (cases d) (simp add: store_slots.simps store_open_def)
  show "store_ok s'" if "store_ok s" "store_step cr s now evs s'" for s now evs s'
    using store_step_grows[OF that] by blast
qed (fact store_open_ok store_step_effect)+

section \<open>Signed texts\<close>

lemma distinct_map_sndD: "distinct (map snd xs) \<Longrightarrow> (a, k) \<in> set xs \<Longrightarrow> (b, k) \<in> set xs \<Longrightarrow> a = b"
  by (induction xs) force+

lemma join_lines_concat: "join_lines (x # ys) = x @ concat (map ((#) newline) ys)"
proof (induction ys arbitrary: x)
  case (Cons y ys)
  then show ?case by simp
qed simp

lemma send_canonical_lines:
  "send_canonical to_uin ts envs = join_lines (''send'' # to_uin # show_int ts # map env_ciphertext envs)"
proof -
  have "foldl (\<lambda>msg env. msg @ [newline] @ env_ciphertext env) acc envs =
      acc @ concat (map ((#) newline) (map env_ciphertext envs))" for acc
    by (induction envs arbitrary: acc) simp_all
  then show ?thesis unfolding send_canonical_def join_lines_concat by simp
qed

lemma register_bound_sub:
  assumes "store_ok st" "register_effect sub noise st st' r" "r = Inr u" "(u1, sub1) \<in> set (id_keys st)"
  shows "u1 = u \<longleftrightarrow> sub1 = sub"
proof -
  have inj: "x = y \<longleftrightarrow> a = b" if "(x, a) \<in> set (id_keys st)" "(y, b) \<in> set (id_keys st)" for x y a b
    using assms(1) that unfolding store_ok_def by (metis eq_key_imp_eq_value distinct_map_sndD)
  show ?thesis
    using assms(2) unfolding register_effect_def assms(3)
    by (elim conjE disjE exE) (use assms(4) inj in \<open>force+\<close>)
qed

lemma register_conflict:
  assumes "store_ok st" "register_locked g now sub noise sg name st = (st', r)"
    and "(u1, sub1) \<in> set (id_keys st)" "(u1, noise) \<in> set (dev_keys st)" "sub1 \<noteq> sub"
  shows "r = Inl StoreErr_Conflict"
proof -
  have "device_owner st noise \<noteq> None" using device_owner_None[OF assms(1)] assms(4) by (metis image_eqI snd_conv)
  then obtain u b where o: "device_owner st noise = Some (u, b)" by auto
  have keys: "(u, noise) \<in> set (dev_keys st)" "(u, b) \<in> set (id_keys st)" using device_owner_Some[OF o] by simp_all
  then have "u = u1" using assms(1,4) unfolding store_ok_def by (metis distinct_map_sndD)
  then have "b = sub1" using keys(2) assms(1,3) unfolding store_ok_def by (metis eq_key_imp_eq_value)
  then show ?thesis using assms(2,5) unfolding register_locked_def o by simp
qed

section \<open>Properties\<close>



text \<open>
  C19: A subscription keeps its UIN and a device key keeps its subscription: after a successful
  registration, whatever happens in between, a later registration of the same device key for
  another subscription is refused as a conflict, and a later successful registration gets the
  same UIN exactly when it is for the same subscription.
\<close>

theorem store_uin_identifies_subscription:
  assumes "mail_run (store_step cr) store_open h0 st0 t0"
    and "register_locked g1 now1 sub1 noise1 sg1 name1 st0 = (st1, Inr uin1)"
    and "mail_run (store_step cr) st1 h2 st2 t2"
    and "register_locked g2 now2 sub2 noise2 sg2 name2 st2 = (st3, r2)"
  shows "(noise1 = noise2 \<and> sub1 \<noteq> sub2 \<longrightarrow> r2 = Inl StoreErr_Conflict)
    \<and> (\<forall>uin2. r2 = Inr uin2 \<longrightarrow> (uin1 = uin2 \<longleftrightarrow> sub1 = sub2))"
proof -
  have ok0: "store_ok st0" by (rule store_mail.run_inv[OF assms(1)])
  note eff1 = register_locked_effect[OF ok0 assms(2)]
  have ok1: "store_ok st1" by (rule register_effect_ok[OF ok0 eff1])
  have keys1: "(uin1, sub1) \<in> set (id_keys st1)" "(uin1, noise1) \<in> set (dev_keys st1)"
    using eff1 by (auto simp: register_effect_def same_keys_def)
  have run: "store_ok st2 \<and> set (id_keys st1) \<subseteq> set (id_keys st2) \<and> set (dev_keys st1) \<subseteq> set (dev_keys st2)"
    using assms(3) by (induction rule: mail_run.induct) (use ok1 store_step_grows in blast)+
  then have ok2: "store_ok st2" and keys2: "(uin1, sub1) \<in> set (id_keys st2)" "(uin1, noise1) \<in> set (dev_keys st2)"
    using keys1 by blast+
  note eff2 = register_locked_effect[OF ok2 assms(4)]
  have "uin1 = uin2 \<longleftrightarrow> sub1 = sub2" if "r2 = Inr uin2" for uin2
    using register_bound_sub[OF ok2 eff2 that keys2(1)] .
  moreover have "r2 = Inl StoreErr_Conflict" if "noise1 = noise2" "sub1 \<noteq> sub2"
    using register_conflict[OF ok2 assms(4)] keys2 that by metis
  ultimately show ?thesis by blast
qed

theorem store_uin_identifies_subscription_witness:
  "\<exists>st1 uin1 st3. register_locked (\<lambda>lo hi. [lo]) 100 1 ''aa'' ''bb'' None store_open = (st1, Inr uin1)
     \<and> register_locked (\<lambda>lo hi. [lo]) 200 2 ''aa'' ''bb'' None st1 = (st3, Inl StoreErr_Conflict)"
proof -
  obtain st1 uin1 where r1: "register_locked (\<lambda>lo hi. [lo]) 100 1 ''aa'' ''bb'' None store_open = (st1, Inr uin1)"
    by (simp add: register_locked_def device_owner_def identity_for_sub_def issue_uin_def Let_def identity_missing_def
        insert_identity_def insert_device_def store_open_def uin_width.simps choose_width_def count_width_def)
  obtain st3 r2 where r2: "register_locked (\<lambda>lo hi. [lo]) 200 2 ''aa'' ''bb'' None st1 = (st3, r2)"
    by (cases "register_locked (\<lambda>lo hi. [lo]) 200 2 ''aa'' ''bb'' None st1")
  show ?thesis
    using r1 r2 store_uin_identifies_subscription[OF run_start[of "store_step demo_crypto" store_open 0] r1
        run_start[of "store_step demo_crypto" st1 0] r2] by auto
qed

lemma match_device_verifies:
  "match_device cr ds msg sig = Inr dev \<Longrightarrow> \<exists>noise key. (noise, key) \<in> set ds \<and> store_verify cr key msg sig"
proof (induction ds)
  case (Cons d ds)
  then show ?case by (cases d; cases "store_verify cr (snd d) msg sig") auto
qed simp

text \<open>
  C18: Nothing is stored without the sender's signature: a send that stores anything carries a
  timestamp that passes the freshness check and a signature that verifies, under a key
  registered for the sending UIN, over the recipient, the timestamp and the ciphertexts; it
  stores a prefix of those ciphertexts, for devices of the recipient, and all of them exactly
  in order when it reports success.
\<close>

theorem store_send_authentic:
  assumes "store_send cr now from_uin to_uin envs ts sig st = (st', w, r)"
  shows "\<exists>rows. st_slots st' = st_slots st @ rows
    \<and> map row_ciphertext rows = map env_ciphertext (take (length rows) envs)
    \<and> (\<forall>x \<in> set rows. row_from x = from_uin \<and> row_uin x = to_uin \<and> row_device x \<in> fst ` set (devices_of st to_uin))
    \<and> (r = Inr () \<longrightarrow> length rows = length envs)
    \<and> (rows \<noteq> [] \<longrightarrow> check_ts ts now
         \<and> (\<exists>noise key. (noise, key) \<in> set (devices_of st from_uin) \<and> store_verify cr key (send_canonical to_uin ts envs) sig))"
proof -
  obtain rows where e: "send_effect cr now from_uin to_uin envs ts sig st st' rows r"
    using store_send_effect(1)[OF assms] by blast
  show ?thesis
  proof (intro exI[of _ rows] conjI)
    show "rows \<noteq> [] \<longrightarrow> check_ts ts now
         \<and> (\<exists>noise key. (noise, key) \<in> set (devices_of st from_uin) \<and> store_verify cr key (send_canonical to_uin ts envs) sig)"
      using e match_device_verifies unfolding send_effect_def by metis
  qed (use e in \<open>simp_all add: send_effect_def sent_rows_def\<close>)
qed

definition demo_store :: mesh_store where
  "demo_store = store_open\<lparr>
     st_identities := [\<lparr> idn_uin = ''10000'', idn_subscription = 1, idn_name = [], idn_created_at = 0 \<rparr>],
     st_devices := [device_new 0 ''10000'' ''aa'' ''bb'', device_new 0 ''10000'' ''ab'' ''bb'']\<rparr>"

theorem store_send_authentic_witness:
  "\<exists>st' w r rows. store_send demo_crypto 100 ''10000'' ''10000'' [\<lparr> env_device_pubkey = ''aa'', env_ciphertext = ''x'' \<rparr>] 90 ''c2ln'' demo_store = (st', w, r)
     \<and> st_slots st' = st_slots demo_store @ rows"
proof -
  obtain st' w r where "store_send demo_crypto 100 ''10000'' ''10000'' [\<lparr> env_device_pubkey = ''aa'', env_ciphertext = ''x'' \<rparr>] 90 ''c2ln'' demo_store = (st', w, r)"
    by (rule prod_cases3)
  then show ?thesis using store_send_authentic by blast
qed

text \<open>
  C21: What a signature covers: among single-line texts, two sends have the same signed text
  exactly when they agree on the recipient, the timestamp and the list of ciphertexts, and no
  signed send is a signed pull, poll or rename. The device each ciphertext is meant for is not
  covered: redistributing the ciphertexts over the recipient's devices keeps the signature valid.
\<close>

theorem signed_text_binds:
  assumes "one_line to1" "one_line to2" "\<forall>e \<in> set envs1 \<union> set envs2. one_line (env_ciphertext e)" "one_line uin" "one_line name"
  shows "(send_canonical to1 ts1 envs1 = send_canonical to2 ts2 envs2 \<longleftrightarrow>
            to1 = to2 \<and> ts1 = ts2 \<and> map env_ciphertext envs1 = map env_ciphertext envs2)
    \<and> send_canonical to1 ts1 envs1 \<notin> {pull_canonical uin ts, poll_canonical uin ts, name_canonical uin ts name}"
proof -
  let ?l = "\<lambda>to ts envs. ''send'' # to # show_int ts # map env_ciphertext envs"
  have one: "one_line ''send''" "one_line ''pull''" "one_line ''poll''" "one_line ''name''"
    by (simp_all add: one_line_def)
  have "send_canonical to1 ts1 envs1 = send_canonical to2 ts2 envs2 \<Longrightarrow> ?l to1 ts1 envs1 = ?l to2 ts2 envs2"
    unfolding send_canonical_lines by (rule join_lines_inj) (use assms one in auto)
  then have "send_canonical to1 ts1 envs1 = send_canonical to2 ts2 envs2 \<longleftrightarrow>
      to1 = to2 \<and> ts1 = ts2 \<and> map env_ciphertext envs1 = map env_ciphertext envs2"
    unfolding send_canonical_lines using show_int_inj by auto
  moreover have "send_canonical to1 ts1 envs1 \<notin> {pull_canonical uin ts, poll_canonical uin ts, name_canonical uin ts name}"
    by (simp add: send_canonical_lines join_lines_concat pull_canonical_def poll_canonical_def name_canonical_def)
  ultimately show ?thesis by blast
qed

theorem signed_text_binds_witness:
  "send_canonical ''10000'' 5 [\<lparr> env_device_pubkey = ''aa'', env_ciphertext = ''x'' \<rparr>, \<lparr> env_device_pubkey = ''ab'', env_ciphertext = ''y'' \<rparr>]
   = send_canonical ''10000'' 5 [\<lparr> env_device_pubkey = ''ab'', env_ciphertext = ''x'' \<rparr>, \<lparr> env_device_pubkey = ''aa'', env_ciphertext = ''y'' \<rparr>]"
  using signed_text_binds[of "''10000''" "''10000''"
      "[\<lparr> env_device_pubkey = ''aa'', env_ciphertext = ''x'' \<rparr>, \<lparr> env_device_pubkey = ''ab'', env_ciphertext = ''y'' \<rparr>]"
      "[\<lparr> env_device_pubkey = ''ab'', env_ciphertext = ''x'' \<rparr>, \<lparr> env_device_pubkey = ''aa'', env_ciphertext = ''y'' \<rparr>]"
      "''10000''" "''n''" 5 5 0]
  by (simp add: one_line_def)

text \<open>
  A send is not atomic: when a later envelope is refused the call reports an error although
  the earlier ciphertexts are already stored, so a client that repeats the failed call delivers
  those twice.
\<close>

theorem store_send_error_keeps_prefix:
  "\<exists>st' w. store_send demo_crypto 100 ''10000'' ''10000''
       [\<lparr> env_device_pubkey = ''aa'', env_ciphertext = ''x'' \<rparr>, \<lparr> env_device_pubkey = ''ab'', env_ciphertext = [] \<rparr>]
       90 ''c2ln'' demo_store = (st', w, Inl (StoreErr_BadInput ''empty ciphertext''))
     \<and> length (st_slots st') = Suc (length (st_slots demo_store))"
  by (simp add: store_send_def demo_store_def store_open_def identity_missing_def check_ts_def wrap64_def TS_SKEW_SECS_def
      devices_of_def device_new_def store_verify_def demo_crypto_def normalize_pubkey_def normalize_pubkey_hex_def Let_def
      pending_def MAX_SLOTS_def to_lowercase_def trim_def is_space_def lower_char_def)

lemma uin_width_bounds: "5 \<le> w \<Longrightarrow> w \<le> 10 \<Longrightarrow> 5 \<le> uin_width st w \<and> uin_width st w \<le> 10"
proof (induction st w rule: uin_width.induct)
  case (1 st w)
  then show ?case
    by (subst (1 2) uin_width.simps) (auto simp: Let_def choose_width_def split: if_splits)
qed

lemma uin_width_sparse:
  "w \<le> 10 \<Longrightarrow> uin_width st w = 10 \<or> count_width st (uin_width st w) * 10 \<le> 9 * 10 ^ (uin_width st w - 1) * 8"
proof (induction st w rule: uin_width.induct)
  case (1 st w)
  show ?case
  proof (cases "choose_width (count_width st w) w = w")
    case True
    then show ?thesis
      using "1.prems" by (subst (1 2 3) uin_width.simps) (auto simp: choose_width_def Let_def split: if_splits)
  next
    case False
    then have "uin_width st w = uin_width st (choose_width (count_width st w) w)" by (subst uin_width.simps) simp
    moreover have "choose_width (count_width st w) w \<le> 10" using "1.prems" by (auto simp: choose_width_def Let_def)
    ultimately show ?thesis using "1.IH"[OF refl False] by simp
  qed
qed

text \<open>
  New UINs come from a number space that is at most four fifths full: the width chosen lies
  between 5 and 10 digits and, below 10, the space of that width is at most 80 per cent
  occupied; when one of the first 64 draws is free a UIN of exactly that width is issued,
  without a leading zero and not in use, and otherwise the search ends with an error.
\<close>

theorem issued_uin_wellformed:
  assumes "\<forall>lo hi. \<forall>n \<in> set (gen_range lo hi). lo \<le> n \<and> n \<le> hi"
  shows "let w = uin_width st 5 in 5 \<le> w \<and> w \<le> 10 \<and> (w < 10 \<longrightarrow> count_width st w * 10 \<le> 9 * 10 ^ (w - 1) * 8)
    \<and> (case issue_uin gen_range st of
         Inr uin \<Rightarrow> identity_missing st uin \<and> length uin = w \<and> hd uin \<noteq> CHR ''0''
       | Inl e \<Rightarrow> e = StoreErr_Internal ''uin space exhausted''
           \<and> (\<forall>n \<in> set (take 64 (gen_range (10 ^ (w - 1)) (10 ^ w - 1))). \<not> identity_missing st (show_nat n)))"
proof -
  define w where "w = uin_width st 5"
  have w: "5 \<le> w" "w \<le> 10" "w < 10 \<longrightarrow> count_width st w * 10 \<le> 9 * 10 ^ (w - 1) * 8"
    using uin_width_bounds[of 5 st] uin_width_sparse[of 5 st] unfolding w_def by auto
  obtain k where k: "w = Suc k" using w(1) by (cases w) auto
  have shape: "length (show_nat n) = w \<and> hd (show_nat n) \<noteq> CHR ''0''"
    if "n \<in> set (take 64 (gen_range (10 ^ (w - 1)) (10 ^ w - 1)))" for n
  proof -
    have n: "10 ^ k \<le> n" "n \<le> 10 ^ w - 1" using assms in_set_takeD[OF that] k by auto
    have "0 < (10::nat) ^ w" "0 < (10::nat) ^ k" by simp_all
    then have "n < 10 ^ Suc k" "0 < n" using n unfolding k by linarith+
    then show ?thesis using length_show_nat[OF n(1)] hd_show_nat[of n] k by simp
  qed
  show ?thesis
  proof (cases "find (\<lambda>n. identity_missing st (show_nat n)) (take 64 (gen_range (10 ^ (w - 1)) (10 ^ w - 1)))")
    case None
    then have "\<forall>n \<in> set (take 64 (gen_range (10 ^ (w - 1)) (10 ^ w - 1))). \<not> identity_missing st (show_nat n)"
      unfolding find_None_iff by blast
    then show ?thesis unfolding issue_uin_def w_def[symmetric] Let_def None option.case sum.case using w by blast
  next
    case (Some n)
    then have "n \<in> set (take 64 (gen_range (10 ^ (w - 1)) (10 ^ w - 1)))" "identity_missing st (show_nat n)"
      unfolding find_Some_iff using nth_mem by blast+
    then show ?thesis
      unfolding issue_uin_def w_def[symmetric] Let_def Some option.case sum.case using w shape by blast
  qed
qed

theorem issued_uin_wellformed_witness:
  "\<exists>uin. issue_uin (\<lambda>lo hi. if lo \<le> hi then [lo] else []) store_open = Inr uin \<and> length uin = 5"
  using issued_uin_wellformed[of "\<lambda>lo hi. if lo \<le> hi then [lo] else []" store_open]
  by (simp add: issue_uin_def uin_width.simps choose_width_def count_width_def store_open_def identity_missing_def Let_def)

end
