(* ===== verification/Inbound_Config.thy ===== *)
theory Inbound_Config
  imports Connection_Model Ascii_Text
begin

text \<open>
  What a node serves: the inbound of a protocol with its settings (\<^verbatim>\<open>src/config/inbound.rs\<close>), the
  readers of the interface files of a node (\<^verbatim>\<open>src/config/wireguard.rs\<close>,
  \<^verbatim>\<open>src/config/amnezia_wg.rs\<close>, \<^verbatim>\<open>src/config/h2.rs\<close>) and the links and configurations that the
  api hands to clients. URLs, JSON text, Base64 and IPv6 texts are library code and appear as the
  fields of the record \<open>link_lib\<close> or as arguments.
\<close>

section \<open>Settings\<close>

text \<open>A JSON document; the number keeps its text.\<close>

datatype json =
    J_Null
  | J_Bool bool
  | J_Num string
  | J_Str string
  | J_Arr "json list"
  | J_Obj "(string \<times> json) list"

datatype network = Net_Xhttp | Net_Grpc | Net_Tcp | Net_Ws

record reality_settings =
  rs_server_names :: "string list"
  rs_private_key :: string
  rs_public_key :: string
  rs_short_ids :: "string list"
  rs_target :: string

record xhttp_settings =
  xh_path :: string
  xh_mode :: "string option"
  xh_extra :: "json option"

record tls_settings =
  tls_server_name :: "string option"
  tls_certificates :: "(string \<times> string) list"

record tcp_request =
  tr_method :: string
  tr_path :: "string list"
  tr_headers :: "(string, string list) hashmap option"

record tcp_header =
  th_type :: string
  th_request :: "tcp_request option"

record stream_settings =
  ss_network :: network
  ss_tcp :: "tcp_header option option"
  ss_reality :: "reality_settings option"
  ss_grpc :: "string option"
  ss_xhttp :: "xhttp_settings option"
  ss_tls :: "tls_settings option"

record wireguard_settings =
  ws_interface :: string
  ws_address :: ip_addr_mask
  ws_port :: "16 word"
  ws_keys :: wg_keys
  ws_dns :: "32 word list"
  ws_keepalive :: "16 word option"

record awg_obfuscation =
  o_jc :: "16 word"
  o_jmin :: "16 word"
  o_jmax :: "16 word"
  o_s1 :: "16 word"
  o_s2 :: "16 word"
  o_s3 :: "16 word"
  o_s4 :: "16 word"
  o_h1 :: string
  o_h2 :: string
  o_h3 :: string
  o_h4 :: string
  o_i1 :: string
  o_i2 :: string
  o_i3 :: string
  o_i4 :: string
  o_i5 :: string
  o_random_trailers :: "bool option"
  o_disable_cookies :: "bool option"
  o_header_protection_key :: "string option"
  o_content_padding_addition :: "string option"
  o_rekey_after_time :: "string option"
  o_rekey_timeout :: "string option"
  o_reject_after_time :: "string option"
  o_keepalive_timeout :: "string option"
  o_max_handshake_attempts :: "string option"

record awg_interface =
  ai_interface :: string
  ai_address :: ip_addr_mask
  ai_listen_port :: "16 word"
  ai_mtu :: "16 word option"
  ai_private_key :: wg_keys
  ai_dns :: "32 word list"

record awg_settings =
  aws_interface :: awg_interface
  aws_obfuscation :: "awg_obfuscation option"
  aws_keepalive :: "16 word option"

record h2_auth_info =
  h2a_auth_type :: string
  h2a_has_password :: bool
  h2a_has_url :: bool

record h2_obfs =
  h2o_type :: string
  h2o_password :: string

record h2_settings =
  h2_host :: string
  h2_port :: "16 word"
  h2_sni :: "string option"
  h2_insecure :: bool
  h2_obfs_opt :: "h2_obfs option"
  h2_alpn :: "string list option"
  h2_up_mbps :: "32 word option"
  h2_down_mbps :: "32 word option"
  h2_auth :: "h2_auth_info option"

record inbound =
  in_tag :: tag
  in_port :: "16 word"
  in_stream :: "stream_settings option"
  in_wg :: "wireguard_settings option"
  in_awg :: "awg_settings option"
  in_h2 :: "h2_settings option"
  in_mtproto_secret :: "string option"

section \<open>Interface files\<close>

text \<open>\<open>Path\<close> to interface name: the file name up to its first dot.\<close>

definition interface_of_path :: "string \<Rightarrow> string" where
  "interface_of_path path = hd (split_on (CHR ''.'') (last (split_on (CHR ''/'') path)))"

text \<open>\<open>u16_range_wire\<close>: \<open>lo\<close> or \<open>lo-hi\<close>, packed as \<open>hi << 16 | lo\<close>.\<close>

unbundle bit_operations_syntax

definition u16_range_error :: "string \<Rightarrow> error" where
  "u16_range_error spec = Err_Custom (''invalid u16 range spec: '' @ spec)"

definition u16_range_wire :: "string \<Rightarrow> error + 32 word" where
  "u16_range_wire spec =
    (case (case split_once (CHR ''-'') spec of None \<Rightarrow> (spec, None) | Some (l, r) \<Rightarrow> (l, Some r)) of
       (l, r) \<Rightarrow>
         (case parse_u16 (trim l) of
            None \<Rightarrow> Inl (u16_range_error spec)
          | Some lo \<Rightarrow>
              (case (case r of None \<Rightarrow> Some lo | Some s \<Rightarrow> parse_u16 (trim s)) of
                 None \<Rightarrow> Inl (u16_range_error spec)
               | Some hi \<Rightarrow>
                   if lo > hi then Inl (u16_range_error spec)
                   else Inr (push_bit 16 (ucast hi) OR ucast lo))))"

definition parse_header_protection_key :: "(string \<Rightarrow> byte list option) \<Rightarrow> string \<Rightarrow> error + byte list" where
  "parse_header_protection_key b64 key =
    (case b64 (trim key) of
       None \<Rightarrow> Inl (Err_Custom ''bad HeaderProtectionKey base64'')
     | Some bytes \<Rightarrow>
         if length bytes = 32 then Inr bytes
         else Inl (Err_Custom ''HeaderProtectionKey must decode to 32 bytes''))"

definition parse_awg_bool :: "string \<Rightarrow> bool option" where
  "parse_awg_bool value =
    (let v = to_lowercase (trim value)
     in if v \<in> {''on'', ''true'', ''1''} then Some True
        else if v \<in> {''off'', ''false'', ''0''} then Some False else None)"

text \<open>The local variables of \<open>AmneziaWgServerConfig::from_file\<close>.\<close>

record awg_raw =
  r_private_key :: "string option"
  r_address :: "string option"
  r_dns :: "32 word list"
  r_port :: "16 word option"
  r_mtu :: "16 word option"
  r_jc :: "16 word option"
  r_jmin :: "16 word option"
  r_jmax :: "16 word option"
  r_s1 :: "16 word option"
  r_s2 :: "16 word option"
  r_s3 :: "16 word option"
  r_s4 :: "16 word option"
  r_h1 :: "string option"
  r_h2 :: "string option"
  r_h3 :: "string option"
  r_h4 :: "string option"
  r_i1 :: "string option"
  r_i2 :: "string option"
  r_i3 :: "string option"
  r_i4 :: "string option"
  r_i5 :: "string option"
  r_random_trailers :: "bool option"
  r_disable_cookies :: "bool option"
  r_header_protection_key :: "string option"
  r_content_padding_addition :: "string option"
  r_rekey_after_time :: "string option"
  r_rekey_timeout :: "string option"
  r_reject_after_time :: "string option"
  r_keepalive_timeout :: "string option"
  r_max_handshake_attempts :: "string option"

definition awg_raw_empty :: awg_raw where
  "awg_raw_empty =
    \<lparr> r_private_key = None, r_address = None, r_dns = [], r_port = None, r_mtu = None,
      r_jc = None, r_jmin = None, r_jmax = None, r_s1 = None, r_s2 = None, r_s3 = None, r_s4 = None,
      r_h1 = None, r_h2 = None, r_h3 = None, r_h4 = None,
      r_i1 = None, r_i2 = None, r_i3 = None, r_i4 = None, r_i5 = None,
      r_random_trailers = None, r_disable_cookies = None, r_header_protection_key = None,
      r_content_padding_addition = None, r_rekey_after_time = None, r_rekey_timeout = None,
      r_reject_after_time = None, r_keepalive_timeout = None, r_max_handshake_attempts = None \<rparr>"

definition parse_dns :: "string \<Rightarrow> 32 word list" where
  "parse_dns value = List.map_filter (\<lambda>v. parse_ipv4 (trim v)) (split_on (CHR '','') value)"

text \<open>One line of the file: \<open>key = value\<close>; a line without an equals sign is skipped.\<close>

definition awg_set :: "string \<Rightarrow> string \<Rightarrow> awg_raw \<Rightarrow> awg_raw" where
  "awg_set key value a =
    (if key = ''PrivateKey'' then a\<lparr>r_private_key := Some value\<rparr>
     else if key = ''Address'' then a\<lparr>r_address := Some value\<rparr>
     else if key = ''ListenPort'' then a\<lparr>r_port := parse_u16 value\<rparr>
     else if key = ''MTU'' then a\<lparr>r_mtu := parse_u16 value\<rparr>
     else if key = ''DNS'' then a\<lparr>r_dns := parse_dns value\<rparr>
     else if key = ''Jc'' then a\<lparr>r_jc := parse_u16 value\<rparr>
     else if key = ''Jmin'' then a\<lparr>r_jmin := parse_u16 value\<rparr>
     else if key = ''Jmax'' then a\<lparr>r_jmax := parse_u16 value\<rparr>
     else if key = ''S1'' then a\<lparr>r_s1 := parse_u16 value\<rparr>
     else if key = ''S2'' then a\<lparr>r_s2 := parse_u16 value\<rparr>
     else if key = ''S3'' then a\<lparr>r_s3 := parse_u16 value\<rparr>
     else if key = ''S4'' then a\<lparr>r_s4 := parse_u16 value\<rparr>
     else if key = ''H1'' then a\<lparr>r_h1 := Some value\<rparr>
     else if key = ''H2'' then a\<lparr>r_h2 := Some value\<rparr>
     else if key = ''H3'' then a\<lparr>r_h3 := Some value\<rparr>
     else if key = ''H4'' then a\<lparr>r_h4 := Some value\<rparr>
     else if key = ''I1'' then a\<lparr>r_i1 := Some value\<rparr>
     else if key = ''I2'' then a\<lparr>r_i2 := Some value\<rparr>
     else if key = ''I3'' then a\<lparr>r_i3 := Some value\<rparr>
     else if key = ''I4'' then a\<lparr>r_i4 := Some value\<rparr>
     else if key = ''I5'' then a\<lparr>r_i5 := Some value\<rparr>
     else if key = ''RandomTrailers'' then a\<lparr>r_random_trailers := parse_awg_bool value\<rparr>
     else if key = ''DisableCookies'' then a\<lparr>r_disable_cookies := parse_awg_bool value\<rparr>
     else if key = ''HeaderProtectionKey'' then a\<lparr>r_header_protection_key := Some value\<rparr>
     else if key = ''ContentPaddingAddition'' then a\<lparr>r_content_padding_addition := Some value\<rparr>
     else if key = ''RekeyAfterTime'' then a\<lparr>r_rekey_after_time := Some value\<rparr>
     else if key = ''RekeyTimeout'' then a\<lparr>r_rekey_timeout := Some value\<rparr>
     else if key = ''RejectAfterTime'' then a\<lparr>r_reject_after_time := Some value\<rparr>
     else if key = ''KeepaliveTimeout'' then a\<lparr>r_keepalive_timeout := Some value\<rparr>
     else if key = ''MaxHandshakeAttempts'' then a\<lparr>r_max_handshake_attempts := Some value\<rparr>
     else a)"

definition key_value :: "string \<Rightarrow> (string \<times> string) option" where
  "key_value line =
    (case split_once (CHR ''='') (trim line) of
       None \<Rightarrow> None
     | Some (k, v) \<Rightarrow> Some (trim k, trim v))"

definition awg_line :: "string \<Rightarrow> awg_raw \<Rightarrow> awg_raw" where
  "awg_line line a = (case key_value line of None \<Rightarrow> a | Some (k, v) \<Rightarrow> awg_set k v a)"

definition awg_read :: "string \<Rightarrow> awg_raw" where
  "awg_read contents = fold awg_line (text_lines contents) awg_raw_empty"

text \<open>The first error of a list of checks, \<open>?\<close> in a loop.\<close>

fun first_error :: "('e + 'a) list \<Rightarrow> 'e option" where
  "first_error [] = None"
| "first_error (Inl e # rs) = Some e"
| "first_error (Inr _ # rs) = first_error rs"

definition or_zero :: "16 word option \<Rightarrow> 16 word" where
  "or_zero w = (case w of None \<Rightarrow> 0 | Some v \<Rightarrow> v)"

definition or_empty :: "string option \<Rightarrow> string" where
  "or_empty s = (case s of None \<Rightarrow> [] | Some v \<Rightarrow> v)"

definition range_specs :: "awg_raw \<Rightarrow> string list" where
  "range_specs a =
    List.map_filter id
      [r_content_padding_addition a, r_rekey_after_time a, r_rekey_timeout a,
       r_reject_after_time a, r_keepalive_timeout a, r_max_handshake_attempts a]"

definition raw_obfuscation :: "16 word \<Rightarrow> awg_raw \<Rightarrow> awg_obfuscation" where
  "raw_obfuscation jc a =
    \<lparr> o_jc = jc, o_jmin = or_zero (r_jmin a), o_jmax = or_zero (r_jmax a),
      o_s1 = or_zero (r_s1 a), o_s2 = or_zero (r_s2 a), o_s3 = or_zero (r_s3 a), o_s4 = or_zero (r_s4 a),
      o_h1 = or_empty (r_h1 a), o_h2 = or_empty (r_h2 a), o_h3 = or_empty (r_h3 a), o_h4 = or_empty (r_h4 a),
      o_i1 = or_empty (r_i1 a), o_i2 = or_empty (r_i2 a), o_i3 = or_empty (r_i3 a), o_i4 = or_empty (r_i4 a),
      o_i5 = or_empty (r_i5 a),
      o_random_trailers = r_random_trailers a, o_disable_cookies = r_disable_cookies a,
      o_header_protection_key = r_header_protection_key a,
      o_content_padding_addition = r_content_padding_addition a,
      o_rekey_after_time = r_rekey_after_time a, o_rekey_timeout = r_rekey_timeout a,
      o_reject_after_time = r_reject_after_time a, o_keepalive_timeout = r_keepalive_timeout a,
      o_max_handshake_attempts = r_max_handshake_attempts a \<rparr>"

definition awg_obfuscation_of ::
  "(string \<Rightarrow> byte list option) \<Rightarrow> awg_raw \<Rightarrow> error + awg_obfuscation option" where
  "awg_obfuscation_of b64 a =
    (case r_jc a of
       None \<Rightarrow> Inr None
     | Some jc_val \<Rightarrow>
         if r_header_protection_key a \<noteq> None
            \<and> list_ex (\<lambda>s. or_zero s < 12) [r_s1 a, r_s2 a, r_s3 a, r_s4 a]
         then Inl (Err_Custom ''HeaderProtectionKey requires S1..S4 >= 12'')
         else
           (case (case r_header_protection_key a of
                    None \<Rightarrow> None
                  | Some key \<Rightarrow> first_error [parse_header_protection_key b64 key]) of
              Some e \<Rightarrow> Inl e
            | None \<Rightarrow>
                (case first_error (map u16_range_wire (range_specs a)) of
                   Some e \<Rightarrow> Inl e
                 | None \<Rightarrow> Inr (Some (raw_obfuscation jc_val a)))))"

record awg_server_config =
  asc_interface :: string
  asc_address :: string
  asc_port :: "16 word"
  asc_private_key :: string
  asc_dns :: "32 word list option"
  asc_mtu :: "16 word option"
  asc_obfuscation :: "awg_obfuscation option"

definition awg_from_file :: "(string \<Rightarrow> byte list option) \<Rightarrow> string \<Rightarrow> string \<Rightarrow> error + awg_server_config" where
  "awg_from_file b64 path contents =
    (let a = awg_read contents in
     case awg_obfuscation_of b64 a of
       Inl e \<Rightarrow> Inl e
     | Inr obf \<Rightarrow>
         (case r_port a of
            None \<Rightarrow> Inl (Err_Custom ''no ListenPort'')
          | Some port \<Rightarrow>
              (case r_private_key a of
                 None \<Rightarrow> Inl (Err_Custom ''no PrivateKey'')
               | Some key \<Rightarrow>
                   (case r_address a of
                      None \<Rightarrow> Inl (Err_Custom ''no Address'')
                    | Some address \<Rightarrow>
                        Inr \<lparr> asc_interface = interface_of_path path, asc_address = address,
                              asc_port = port, asc_private_key = key, asc_dns = Some (r_dns a),
                              asc_mtu = r_mtu a, asc_obfuscation = obf \<rparr>))))"

definition awg_settings_of ::
  "(string \<Rightarrow> ip_addr option) \<Rightarrow> awg_server_config \<Rightarrow> error + awg_settings" where
  "awg_settings_of parse_ip cfg =
    (case ip_mask_from_str parse_ip parse_u8 (asc_address cfg) of
       None \<Rightarrow> Inl (Err_Custom ''Invalid AWG address'')
     | Some address \<Rightarrow>
         Inr \<lparr> aws_interface =
                 \<lparr> ai_interface = asc_interface cfg, ai_address = address,
                   ai_listen_port = asc_port cfg, ai_mtu = asc_mtu cfg,
                   ai_private_key = \<lparr> privkey = asc_private_key cfg \<rparr>,
                   ai_dns = (case asc_dns cfg of None \<Rightarrow> [] | Some d \<Rightarrow> d) \<rparr>,
               aws_obfuscation = asc_obfuscation cfg, aws_keepalive = None \<rparr>)"

text \<open>
  \<open>WireguardServerConfig::from_file\<close>. The keys are matched by prefix, so that several of the
  four tests may apply to one line.
\<close>

record wg_raw =
  wr_private_key :: "string option"
  wr_address :: "string option"
  wr_dns :: "string list"
  wr_port :: "16 word option"

definition nth_piece :: "string \<Rightarrow> string option" where
  "nth_piece line = (case split_on (CHR ''='') line of _ # v # _ \<Rightarrow> Some v | _ \<Rightarrow> None)"

definition wg_rest :: "string \<Rightarrow> wg_raw \<Rightarrow> wg_raw" where
  "wg_rest line a =
    (let a1 = (if starts_with line ''Address'' then a\<lparr>wr_address := map_option trim (nth_piece line)\<rparr> else a);
         a2 = (if starts_with line ''ListenPort''
               then a1\<lparr>wr_port := Option.bind (nth_piece line) (\<lambda>v. parse_u16 (trim v))\<rparr> else a1)
     in if starts_with line ''DNS''
        then a2\<lparr>wr_dns := map trim (split_on (CHR '','') (or_empty (nth_piece line)))\<rparr> else a2)"

definition wg_line :: "string \<Rightarrow> wg_raw \<Rightarrow> error + wg_raw" where
  "wg_line l a =
    (let line = trim l in
     if starts_with line ''PrivateKey'' then
       (case split_once (CHR ''='') line of
          None \<Rightarrow> Inl (Err_Custom ''Invalid PrivateKey line'')
        | Some (_, v) \<Rightarrow> Inr (wg_rest line (a\<lparr>wr_private_key := Some (trim v)\<rparr>)))
     else Inr (wg_rest line a))"

fun wg_lines :: "string list \<Rightarrow> wg_raw \<Rightarrow> error + wg_raw" where
  "wg_lines [] a = Inr a"
| "wg_lines (l # ls) a = (case wg_line l a of Inl e \<Rightarrow> Inl e | Inr a' \<Rightarrow> wg_lines ls a')"

record wg_server_config =
  wsc_interface :: string
  wsc_address :: string
  wsc_port :: "16 word"
  wsc_private_key :: string
  wsc_dns :: "string list option"

definition wg_from_file :: "string \<Rightarrow> string \<Rightarrow> error + wg_server_config" where
  "wg_from_file path contents =
    (case wg_lines (text_lines contents)
            \<lparr> wr_private_key = None, wr_address = None, wr_dns = [], wr_port = None \<rparr> of
       Inl e \<Rightarrow> Inl e
     | Inr a \<Rightarrow>
         (case wr_port a of
            None \<Rightarrow> Inl (Err_Custom ''no ListenPort'')
          | Some port \<Rightarrow>
              (case wr_private_key a of
                 None \<Rightarrow> Inl (Err_Custom ''no PrivateKey'')
               | Some key \<Rightarrow>
                   (case wr_address a of
                      None \<Rightarrow> Inl (Err_Custom ''no Address'')
                    | Some address \<Rightarrow>
                        Inr \<lparr> wsc_interface = interface_of_path path, wsc_address = address,
                              wsc_port = port, wsc_private_key = key, wsc_dns = Some (wr_dns a) \<rparr>))))"

fun parse_all :: "('a \<Rightarrow> 'b option) \<Rightarrow> 'a list \<Rightarrow> 'b list option" where
  "parse_all f [] = Some []"
| "parse_all f (x # xs) =
     (case f x of None \<Rightarrow> None | Some y \<Rightarrow> map_option ((#) y) (parse_all f xs))"

definition wg_settings_of ::
  "(string \<Rightarrow> ip_addr option) \<Rightarrow> wg_server_config \<Rightarrow> error + wireguard_settings" where
  "wg_settings_of parse_ip cfg =
    (case ip_mask_from_str parse_ip parse_u8 (wsc_address cfg) of
       None \<Rightarrow> Inl (Err_Custom ''Invalid WG address'')
     | Some address \<Rightarrow>
         (case parse_all parse_ipv4 (case wsc_dns cfg of None \<Rightarrow> [] | Some d \<Rightarrow> d) of
            None \<Rightarrow> Inl (Err_Custom ''Invalid DNS'')
          | Some dns \<Rightarrow>
              Inr \<lparr> ws_interface = wsc_interface cfg, ws_address = address, ws_port = wsc_port cfg,
                    ws_keys = \<lparr> privkey = wsc_private_key cfg \<rparr>, ws_dns = dns, ws_keepalive = None \<rparr>))"

section \<open>Hysteria2\<close>

record acme_config =
  acme_domains :: "string list option"
  acme_email :: "string option"
  acme_type :: "string option"
  acme_dir :: "string option"

record auth_config =
  auth_type :: "string option"
  auth_password :: "string option"
  auth_url :: "string option"

record hysteria_obfs =
  ho_type :: "string option"
  ho_password :: "string option"

record hysteria2_settings =
  hy_listen :: "string option"
  hy_acme :: "acme_config option"
  hy_tls :: "(string \<times> string) option"
  hy_auth :: "auth_config option"
  hy_obfs :: "hysteria_obfs option"
  hy_masquerade :: "string option"
  hy_host :: "string option"

definition has_acme :: "hysteria2_settings \<Rightarrow> bool" where
  "has_acme s =
    (case hy_acme s of
       None \<Rightarrow> False
     | Some a \<Rightarrow> (case acme_domains a of None \<Rightarrow> False | Some d \<Rightarrow> d \<noteq> []))"

definition h2_validate :: "hysteria2_settings \<Rightarrow> error + unit" where
  "h2_validate s =
    (if hy_listen s = None then Inl (Err_Custom ''Hysteria2: listen is required'')
     else if hy_auth s = None then Inl (Err_Custom ''Hysteria2: auth section is required'')
     else if \<not> has_acme s \<and> hy_tls s = None
     then Inl (Err_Custom ''Hysteria2: either acme.domains or tls section is required'')
     else if \<not> has_acme s \<and> hy_host s = None
     then Inl (Err_Custom ''Hysteria2: host is required when acme is not used'')
     else Inr ())"

definition h2_host_of :: "hysteria2_settings \<Rightarrow> string option" where
  "h2_host_of s =
    (case Option.bind (hy_acme s) acme_domains of
       Some (d # _) \<Rightarrow> Some d
     | _ \<Rightarrow> hy_host s)"

definition h2_settings_of :: "hysteria2_settings \<Rightarrow> error + h2_settings" where
  "h2_settings_of s =
    (case hy_listen s of
       None \<Rightarrow> Inl (Err_Custom ''Hysteria2: listen missing'')
     | Some listen \<Rightarrow>
         (case parse_u16 (last (split_on (CHR '':'') listen)) of
            None \<Rightarrow> Inl (Err_Custom ''Hysteria2: invalid port'')
          | Some port \<Rightarrow>
              (case h2_host_of s of
                 None \<Rightarrow> Inl (Err_Custom ''Hysteria2: acme.domains or host is required'')
               | Some host \<Rightarrow>
                   Inr \<lparr> h2_host = host, h2_port = port, h2_sni = Some host, h2_insecure = False,
                         h2_obfs_opt =
                           map_option (\<lambda>o'. \<lparr> h2o_type = or_empty (ho_type o'),
                                              h2o_password = or_empty (ho_password o') \<rparr>) (hy_obfs s),
                         h2_alpn = Some [''h2'', ''http/1.1''], h2_up_mbps = None, h2_down_mbps = None,
                         h2_auth =
                           map_option (\<lambda>a. \<lparr> h2a_auth_type =
                                                (case auth_type a of None \<Rightarrow> ''unknown'' | Some t \<Rightarrow> t),
                                             h2a_has_password = (auth_password a \<noteq> None),
                                             h2a_has_url = (auth_url a \<noteq> None) \<rparr>) (hy_auth s) \<rparr>)))"

section \<open>Client links\<close>

text \<open>
  What the links take from other packages: the text of a UUID and of an IPv6 address, URLs,
  JSON and Base64 encoding, and the derivation of a public key.
\<close>

record 'u link_lib =
  lib_uuid :: "uuid \<Rightarrow> string"
  lib_v6 :: "128 word \<Rightarrow> string"
  lib_url_parse :: "string \<Rightarrow> 'u option"
  lib_append_pair :: "string \<Rightarrow> string \<Rightarrow> 'u \<Rightarrow> 'u"
  lib_set_fragment :: "string \<Rightarrow> 'u \<Rightarrow> 'u"
  lib_url_str :: "'u \<Rightarrow> string"
  lib_json :: "json \<Rightarrow> string option"
  lib_b64 :: "string \<Rightarrow> string"
  lib_pubkey :: "wg_keys \<Rightarrow> error + string"

definition show_ip :: "'u link_lib \<Rightarrow> ip_addr \<Rightarrow> string" where
  "show_ip lib ip = (case ip of IpAddr_V4 a \<Rightarrow> show_ipv4 a | IpAddr_V6 a \<Rightarrow> lib_v6 lib a)"

definition show_ip_mask :: "'u link_lib \<Rightarrow> ip_addr_mask \<Rightarrow> string" where
  "show_ip_mask lib m = show_ip lib (ipm_address m) @ ''/'' @ show_word (ipm_cidr m)"

definition last_octet :: "'u link_lib \<Rightarrow> uuid \<Rightarrow> string" where
  "last_octet lib u = drop 24 (lib_uuid lib u)"

definition ok_or :: "'e \<Rightarrow> 'a option \<Rightarrow> 'e + 'a" where
  "ok_or e x = (case x of None \<Rightarrow> Inl e | Some v \<Rightarrow> Inr v)"

definition and_then :: "'e + 'a \<Rightarrow> ('a \<Rightarrow> 'e + 'b) \<Rightarrow> 'e + 'b" where
  "and_then r f = (case r of Inl e \<Rightarrow> Inl e | Inr v \<Rightarrow> f v)"

definition url_base :: "'u link_lib \<Rightarrow> string \<Rightarrow> error + 'u" where
  "url_base lib s = ok_or (Err_UrlParse s) (lib_url_parse lib s)"

definition url_pairs :: "'u link_lib \<Rightarrow> (string \<times> string) list \<Rightarrow> 'u \<Rightarrow> 'u" where
  "url_pairs lib ps u = fold (\<lambda>(k, v). lib_append_pair lib k v) ps u"

definition url_finish :: "'u link_lib \<Rightarrow> (string \<times> string) list \<Rightarrow> string \<Rightarrow> 'u \<Rightarrow> error + string" where
  "url_finish lib ps fragment u = Inr (lib_url_str lib (lib_set_fragment lib fragment (url_pairs lib ps u)))"

definition authority :: "'u link_lib \<Rightarrow> string \<Rightarrow> uuid \<Rightarrow> string \<Rightarrow> 16 word \<Rightarrow> string" where
  "authority lib scheme u host port =
    scheme @ ''://'' @ lib_uuid lib u @ ''@'' @ host @ '':'' @ show_word port"

definition link_title :: "'u link_lib \<Rightarrow> string \<Rightarrow> uuid \<Rightarrow> string \<Rightarrow> string" where
  "link_title lib label u kind = label @ '' | '' @ last_octet lib u @ '' '' @ kind"

definition in_reality :: "inbound \<Rightarrow> error + (stream_settings \<times> reality_settings)" where
  "in_reality i =
    and_then (ok_or (Err_Custom ''Missing stream settings'') (in_stream i)) (\<lambda>s.
    and_then (ok_or (Err_Custom ''Missing reality settings'') (ss_reality s)) (\<lambda>r. Inr (s, r)))"

definition first_of :: "'a list \<Rightarrow> 'a option" where
  "first_of xs = (case xs of [] \<Rightarrow> None | x # _ \<Rightarrow> Some x)"

definition vless_xtls :: "'u link_lib \<Rightarrow> inbound \<Rightarrow> uuid \<Rightarrow> string \<Rightarrow> string \<Rightarrow> error + string" where
  "vless_xtls lib i conn_id host label =
    and_then (in_reality i) (\<lambda>(s, r).
    and_then (ok_or (Err_Custom ''Missing SID'') (first_of (rs_short_ids r))) (\<lambda>sid.
    and_then (ok_or (Err_Custom ''Missing SNI'') (first_of (rs_server_names r))) (\<lambda>sni.
    and_then (url_base lib (authority lib ''vless'' conn_id host (in_port i))) (\<lambda>u.
      url_finish lib
        [(''security'', ''reality''), (''flow'', ''xtls-rprx-vision''), (''type'', ''tcp''), (''sni'', sni),
         (''fp'', ''chrome''), (''pbk'', rs_public_key r), (''sid'', sid)]
        (link_title lib label conn_id ''XTLS'') u))))"

definition vless_grpc :: "'u link_lib \<Rightarrow> inbound \<Rightarrow> uuid \<Rightarrow> string \<Rightarrow> string \<Rightarrow> error + string" where
  "vless_grpc lib i conn_id host label =
    and_then (in_reality i) (\<lambda>(s, r).
    and_then (ok_or (Err_Custom ''Missing gRPC settings'') (ss_grpc s)) (\<lambda>service_name.
    and_then (url_base lib (authority lib ''vless'' conn_id host (in_port i))) (\<lambda>u.
      url_finish lib
        [(''security'', ''reality''), (''type'', ''grpc''), (''serviceName'', service_name),
         (''sni'', or_empty (first_of (rs_server_names r))), (''pbk'', rs_public_key r),
         (''sid'', or_empty (first_of (rs_short_ids r)))]
        (link_title lib label conn_id ''GRPC'') u)))"

definition vless_xhttp :: "'u link_lib \<Rightarrow> inbound \<Rightarrow> uuid \<Rightarrow> string \<Rightarrow> string \<Rightarrow> error + string" where
  "vless_xhttp lib i conn_id host label =
    and_then (in_reality i) (\<lambda>(s, r).
    and_then (ok_or (Err_Custom ''Missing xHTTP settings'') (ss_xhttp s)) (\<lambda>x.
    and_then (url_base lib (authority lib ''vless'' conn_id host (in_port i))) (\<lambda>u.
      url_finish lib
        [(''security'', ''reality''), (''type'', ''xhttp''), (''path'', xh_path x), (''pbk'', rs_public_key r)]
        (link_title lib label conn_id ''XHTTP'') u)))"

definition cdn_host :: "stream_settings \<Rightarrow> string \<Rightarrow> string" where
  "cdn_host s host =
    (case Option.bind (ss_tls s) tls_server_name of None \<Rightarrow> host | Some h \<Rightarrow> h)"

definition vless_xhttp_cdn :: "'u link_lib \<Rightarrow> inbound \<Rightarrow> uuid \<Rightarrow> string \<Rightarrow> string \<Rightarrow> error + string" where
  "vless_xhttp_cdn lib i conn_id host label =
    and_then (ok_or (Err_Custom ''Missing stream settings'') (in_stream i)) (\<lambda>s.
    and_then (ok_or (Err_Custom ''Missing xHTTP settings'') (ss_xhttp s)) (\<lambda>x.
      let h = cdn_host s host in
    and_then (url_base lib (authority lib ''vless'' conn_id h (in_port i))) (\<lambda>u.
    and_then (case xh_extra x of
                None \<Rightarrow> Inr []
              | Some extra \<Rightarrow>
                  and_then (ok_or (Err_Json ''extra'') (lib_json lib extra)) (\<lambda>t. Inr [(''extra'', t)])) (\<lambda>extra.
      url_finish lib
        ([(''encryption'', ''none''), (''security'', ''tls''), (''type'', ''xhttp''), (''host'', h),
          (''path'', xh_path x), (''sni'', h)]
         @ (case xh_mode x of None \<Rightarrow> [] | Some m \<Rightarrow> [(''mode'', m)]) @ extra)
        (link_title lib label conn_id ''XHTTP-CDN'') u))))"

definition show_bool :: "bool \<Rightarrow> string" where
  "show_bool b = (if b then ''true'' else ''false'')"

definition h2_link :: "'u link_lib \<Rightarrow> inbound \<Rightarrow> string \<Rightarrow> conn \<Rightarrow> error + string" where
  "h2_link lib i label c =
    and_then (ok_or (Err_Custom ''Hysteria2 settings missing'') (in_h2 i)) (\<lambda>h.
    and_then (ok_or (Err_Custom ''H2 Token is required'') (get_token c)) (\<lambda>token.
    and_then (url_base lib (authority lib ''hysteria2'' token (h2_host h) (in_port i))) (\<lambda>u.
      url_finish lib
        [(''insecure'', show_bool (h2_insecure h)),
         (''up-mbps'', show_word (case h2_up_mbps h of None \<Rightarrow> 0 | Some m \<Rightarrow> m))]
        (link_title lib label token ''H2'') u)))"

definition mtproto_link :: "'u link_lib \<Rightarrow> inbound \<Rightarrow> string \<Rightarrow> string \<Rightarrow> error + string" where
  "mtproto_link lib i host label =
    and_then (ok_or (Err_Custom ''Mtproto settings missing'') (in_mtproto_secret i)) (\<lambda>secret.
    and_then (url_base lib (''https://t.me/proxy?server='' @ host @ ''&port='' @ show_word (in_port i)
                             @ ''&secret='' @ secret)) (\<lambda>u.
      url_finish lib [] label u))"

definition vmess_json :: "'u link_lib \<Rightarrow> uuid \<Rightarrow> string \<Rightarrow> 16 word \<Rightarrow> string \<Rightarrow> string \<Rightarrow> json" where
  "vmess_json lib conn_id label port host path =
    J_Obj [(''v'', J_Str ''2''), (''ps'', J_Str (''Vmess '' @ label)), (''add'', J_Str host),
           (''port'', J_Str (show_word port)), (''id'', J_Str (lib_uuid lib conn_id)), (''aid'', J_Str ''0''),
           (''scy'', J_Str ''auto''), (''net'', J_Str ''tcp''), (''type'', J_Str ''http''), (''host'', J_Str host),
           (''path'', J_Str path), (''tls'', J_Str ''none'')]"

definition vmess_link :: "'u link_lib \<Rightarrow> inbound \<Rightarrow> uuid \<Rightarrow> string \<Rightarrow> error + string" where
  "vmess_link lib i conn_id label =
    and_then (ok_or (Err_Custom ''VMESS: stream settings error'') (in_stream i)) (\<lambda>s.
    and_then (ok_or (Err_Custom ''VMESS: stream tcp settings error'') (ss_tcp s)) (\<lambda>tcp.
    and_then (ok_or (Err_Custom ''VMESS: header tcp settings error'') tcp) (\<lambda>header.
    and_then (ok_or (Err_Custom ''VMESS: header req settings error'') (th_request header)) (\<lambda>req.
    and_then (ok_or (Err_Custom ''VMESS: headers settings error'') (tr_headers req)) (\<lambda>headers.
    and_then (ok_or (Err_Custom ''VMESS: host settings error'') (map_of headers ''Host'')) (\<lambda>hosts.
    and_then (ok_or (Err_Custom ''VMESS: Host stream settings error'') (first_of hosts)) (\<lambda>host.
    and_then (ok_or (Err_Custom ''VMESS: path settings error'') (first_of (tr_path req))) (\<lambda>path.
    and_then (ok_or (Err_Custom ''VMESS serde json error'')
               (lib_json lib (vmess_json lib conn_id label (in_port i) host path))) (\<lambda>json_str.
      Inr (''vmess://'' @ lib_b64 lib json_str @ ''#'' @ label))))))))))"

definition dns_text :: "32 word list \<Rightarrow> string" where
  "dns_text dns = join_with '','' (map show_ipv4 dns)"

definition keepalive_or :: "16 word option \<Rightarrow> 16 word" where
  "keepalive_or k = (case k of None \<Rightarrow> 25 | Some v \<Rightarrow> v)"

text \<open>The em dash of the comment line, in UTF-8.\<close>

definition comment_line :: "'u link_lib \<Rightarrow> string \<Rightarrow> uuid \<Rightarrow> string" where
  "comment_line lib label conn_id =
    ''# '' @ label @ '' '' @ [CHR 0xE2, CHR 0x80, CHR 0x94] @ '' conn_id: '' @ lib_uuid lib conn_id"

definition kv :: "string \<Rightarrow> string \<Rightarrow> string" where
  "kv key v = key @ '' = '' @ v"

definition opt_line :: "string \<Rightarrow> string option \<Rightarrow> string list" where
  "opt_line key v = (case v of None \<Rightarrow> [] | Some x \<Rightarrow> [kv key x])"

definition flag_line :: "string \<Rightarrow> bool option \<Rightarrow> string list" where
  "flag_line key v = (if v = Some True then [kv key ''on''] else [])"

definition obf_lines :: "awg_obfuscation \<Rightarrow> string list" where
  "obf_lines obf =
    [[], kv ''Jc'' (show_word (o_jc obf)), kv ''Jmin'' (show_word (o_jmin obf)), kv ''Jmax'' (show_word (o_jmax obf)),
     kv ''S1'' (show_word (o_s1 obf)), kv ''S2'' (show_word (o_s2 obf)), kv ''S3'' (show_word (o_s3 obf)),
     kv ''S4'' (show_word (o_s4 obf)),
     kv ''H1'' (o_h1 obf), kv ''H2'' (o_h2 obf), kv ''H3'' (o_h3 obf), kv ''H4'' (o_h4 obf),
     kv ''I1'' (o_i1 obf), kv ''I2'' (o_i2 obf), kv ''I3'' (o_i3 obf), kv ''I4'' (o_i4 obf), kv ''I5'' (o_i5 obf)]
    @ flag_line ''RandomTrailers'' (o_random_trailers obf)
    @ flag_line ''DisableCookies'' (o_disable_cookies obf)
    @ opt_line ''HeaderProtectionKey'' (o_header_protection_key obf)
    @ opt_line ''ContentPaddingAddition'' (o_content_padding_addition obf)
    @ opt_line ''RekeyAfterTime'' (o_rekey_after_time obf)
    @ opt_line ''RekeyTimeout'' (o_rekey_timeout obf)
    @ opt_line ''RejectAfterTime'' (o_reject_after_time obf)
    @ opt_line ''KeepaliveTimeout'' (o_keepalive_timeout obf)
    @ opt_line ''MaxHandshakeAttempts'' (o_max_handshake_attempts obf)"

definition awg_client_lines ::
  "'u link_lib \<Rightarrow> awg_settings \<Rightarrow> string \<Rightarrow> wg_param \<Rightarrow> uuid \<Rightarrow> string \<Rightarrow> string \<Rightarrow> string list" where
  "awg_client_lines lib awg server_pubkey param conn_id host label =
    [''[Interface]'', kv ''PrivateKey'' (privkey (wg_keys param)),
     kv ''Address'' (show_ip_mask lib (wg_address param))]
    @ opt_line ''MTU'' (map_option show_word (ai_mtu (aws_interface awg)))
    @ (let dns = dns_text (ai_dns (aws_interface awg)) in if dns = [] then [] else [kv ''DNS'' dns])
    @ (case aws_obfuscation awg of None \<Rightarrow> [] | Some obf \<Rightarrow> obf_lines obf)
    @ [[], ''[Peer]'', kv ''PublicKey'' server_pubkey,
       kv ''Endpoint'' (host @ '':'' @ show_word (ai_listen_port (aws_interface awg))),
       kv ''AllowedIPs'' ''0.0.0.0/0, ::/0'', kv ''PersistentKeepalive'' (show_word (keepalive_or (aws_keepalive awg))),
       [], comment_line lib label conn_id]"

definition amneziawg_config ::
  "'u link_lib \<Rightarrow> inbound \<Rightarrow> uuid \<Rightarrow> conn \<Rightarrow> string \<Rightarrow> string \<Rightarrow> error + string" where
  "amneziawg_config lib i conn_id c host label =
    and_then (ok_or (Err_Custom ''AWG Conn is not configured'') (get_amneziawg c)) (\<lambda>param.
    and_then (ok_or (Err_Custom ''AWG Inbound is not configured'') (in_awg i)) (\<lambda>awg.
    and_then (lib_pubkey lib (ai_private_key (aws_interface awg))) (\<lambda>server_pubkey.
      Inr (end_lines (awg_client_lines lib awg server_pubkey param conn_id host label)))))"

definition wireguard_config ::
  "'u link_lib \<Rightarrow> inbound \<Rightarrow> uuid \<Rightarrow> conn \<Rightarrow> string \<Rightarrow> string \<Rightarrow> error + string" where
  "wireguard_config lib i conn_id c host label =
    and_then (ok_or (Err_Custom ''WG Conn is not configured'') (get_wireguard c)) (\<lambda>param.
    and_then (ok_or (Err_Custom ''WG Inbound is not configured'') (in_wg i)) (\<lambda>wg.
    and_then (lib_pubkey lib (ws_keys wg)) (\<lambda>server_pubkey.
      Inr (end_lines
        [[], ''    [Interface]'', ''    PrivateKey = '' @ privkey (wg_keys param),
         ''    Address    = '' @ show_ip_mask lib (wg_address param),
         ''    DNS        = '' @ dns_text (ws_dns wg), [],
         ''    [Peer]'', ''    PublicKey           = '' @ server_pubkey,
         ''    Endpoint            = '' @ host @ '':'' @ show_word (ws_port wg),
         ''    AllowedIPs          = 0.0.0.0/0, ::/0'',
         ''    PersistentKeepalive = '' @ show_word (keepalive_or (ws_keepalive wg)), [],
         ''    '' @ comment_line lib label conn_id] @ ''    ''))))"

definition create_link ::
  "'u link_lib \<Rightarrow> inbound \<Rightarrow> uuid \<Rightarrow> conn \<Rightarrow> string \<Rightarrow> string \<Rightarrow> error + string" where
  "create_link lib i conn_id c host label =
    (case in_tag i of
       Tag_VlessTcpReality \<Rightarrow> vless_xtls lib i conn_id host label
     | Tag_VlessGrpcReality \<Rightarrow> vless_grpc lib i conn_id host label
     | Tag_VlessXhttpReality \<Rightarrow> vless_xhttp lib i conn_id host label
     | Tag_VlessXhttpCdn \<Rightarrow> vless_xhttp_cdn lib i conn_id host label
     | Tag_Hysteria2 \<Rightarrow> h2_link lib i label c
     | Tag_Wireguard \<Rightarrow> wireguard_config lib i conn_id c host label
     | Tag_AmneziaWg \<Rightarrow> amneziawg_config lib i conn_id c host label
     | Tag_AmneziaWgMobile \<Rightarrow> amneziawg_config lib i conn_id c host label
     | Tag_Mtproto \<Rightarrow> mtproto_link lib i host label
     | Tag_Vmess \<Rightarrow> vmess_link lib i conn_id label
     | Tag_Shadowsocks \<Rightarrow> Inl (Err_Custom ''Unsupported protocol tag''))"

section \<open>Reading back what the api prints\<close>

definition good_key :: "string \<Rightarrow> bool" where
  "good_key k \<longleftrightarrow> k \<noteq> [] \<and> CHR ''='' \<notin> set k \<and> \<not> is_space (hd k) \<and> \<not> is_space (last k)"

definition clean :: "string \<Rightarrow> bool" where
  "clean v \<longleftrightarrow> trim v = v \<and> one_line v"

lemma split_once_append: "d \<notin> set k \<Longrightarrow> split_once d (k @ d # v) = Some (k, v)"
  by (induction k) auto

lemma trim_kv: "good_key k \<Longrightarrow> trim (kv k v) = (if list_all is_space v then k @ '' ='' else kv k (rtrim v))"
proof -
  assume k: "good_key k"
  have sp: "is_space CHR '' ''" "\<not> is_space CHR ''=''" by (simp_all add: is_space_def)
  have "dropWhile is_space (kv k v) = kv k v"
    using k by (intro dropWhile_eq_self) (auto simp: good_key_def kv_def hd_append)
  moreover have "rtrim '' = '' = '' =''" using sp by (simp add: rtrim_def)
  ultimately show ?thesis
    using k sp rtrim_append[of k "'' = '' @ v"] rtrim_append[of "'' = ''" v]
    by (simp add: trim_rtrim kv_def)
qed

lemma key_value_kv: "good_key k \<Longrightarrow> key_value (kv k v) = Some (k, trim v)"
proof -
  assume k: "good_key k"
  have sp: "is_space CHR '' ''" by (simp add: is_space_def)
  have e: "CHR ''='' \<notin> set (k @ '' '')" using k by (simp add: good_key_def)
  have tk: "trim (k @ '' '') = k"
    using k sp by (auto simp: trim_def good_key_def dropWhile_eq_self hd_append hd_rev)
  have tv: "trim (CHR '' '' # rtrim v) = trim v"
    using sp by (simp add: trim_rtrim dropWhile_rtrim)
  show ?thesis
  proof (cases "list_all is_space v")
    case True
    then have "trim v = []" by (rule trim_space)
    then show ?thesis
      using True split_once_append[OF e, of "[]"] tk by (simp add: key_value_def trim_kv[OF k])
  next
    case False
    then show ?thesis
      using split_once_append[OF e, of "CHR '' '' # rtrim v"] tk tv
      unfolding key_value_def trim_kv[OF k] by (simp add: kv_def)
  qed
qed

lemma awg_line_kv: "good_key k \<Longrightarrow> awg_line (kv k v) a = awg_set k (trim v) a"
  by (simp add: awg_line_def key_value_kv)

lemma key_value_none: "CHR ''='' \<notin> set l \<Longrightarrow> key_value l = None"
proof -
  have none: "d \<notin> set s \<Longrightarrow> split_once d s = None" for d s by (induction s) auto
  assume "CHR ''='' \<notin> set l"
  then have "CHR ''='' \<notin> set (trim l)" using set_trim by blast
  then show ?thesis by (simp add: key_value_def none)
qed

text \<open>The reader on each line that the api prints.\<close>

lemma awg_line_keys:
  "awg_line (kv ''Jc'' v) a = a\<lparr>r_jc := parse_u16 (trim v)\<rparr>"
  "awg_line (kv ''Jmin'' v) a = a\<lparr>r_jmin := parse_u16 (trim v)\<rparr>"
  "awg_line (kv ''Jmax'' v) a = a\<lparr>r_jmax := parse_u16 (trim v)\<rparr>"
  "awg_line (kv ''S1'' v) a = a\<lparr>r_s1 := parse_u16 (trim v)\<rparr>"
  "awg_line (kv ''S2'' v) a = a\<lparr>r_s2 := parse_u16 (trim v)\<rparr>"
  "awg_line (kv ''S3'' v) a = a\<lparr>r_s3 := parse_u16 (trim v)\<rparr>"
  "awg_line (kv ''S4'' v) a = a\<lparr>r_s4 := parse_u16 (trim v)\<rparr>"
  "awg_line (kv ''H1'' v) a = a\<lparr>r_h1 := Some (trim v)\<rparr>"
  "awg_line (kv ''H2'' v) a = a\<lparr>r_h2 := Some (trim v)\<rparr>"
  "awg_line (kv ''H3'' v) a = a\<lparr>r_h3 := Some (trim v)\<rparr>"
  "awg_line (kv ''H4'' v) a = a\<lparr>r_h4 := Some (trim v)\<rparr>"
  "awg_line (kv ''I1'' v) a = a\<lparr>r_i1 := Some (trim v)\<rparr>"
  "awg_line (kv ''I2'' v) a = a\<lparr>r_i2 := Some (trim v)\<rparr>"
  "awg_line (kv ''I3'' v) a = a\<lparr>r_i3 := Some (trim v)\<rparr>"
  "awg_line (kv ''I4'' v) a = a\<lparr>r_i4 := Some (trim v)\<rparr>"
  "awg_line (kv ''I5'' v) a = a\<lparr>r_i5 := Some (trim v)\<rparr>"
  "awg_line (kv ''PrivateKey'' v) a = a\<lparr>r_private_key := Some (trim v)\<rparr>"
  "awg_line (kv ''Address'' v) a = a\<lparr>r_address := Some (trim v)\<rparr>"
  "awg_line (kv ''ListenPort'' v) a = a\<lparr>r_port := parse_u16 (trim v)\<rparr>"
  "awg_line (kv ''MTU'' v) a = a\<lparr>r_mtu := parse_u16 (trim v)\<rparr>"
  "awg_line (kv ''DNS'' v) a = a\<lparr>r_dns := parse_dns (trim v)\<rparr>"
  "awg_line (kv ''PublicKey'' v) a = a"
  "awg_line (kv ''Endpoint'' v) a = a"
  "awg_line (kv ''AllowedIPs'' v) a = a"
  "awg_line (kv ''PersistentKeepalive'' v) a = a"
  by (simp_all add: awg_line_kv good_key_def is_space_def awg_set_def)

lemma trim_on [simp]: "trim ''on'' = ''on''"
  by (rule trim_eq_self) (simp add: is_space_def)

lemma parse_on [simp]: "parse_awg_bool ''on'' = Some True"
  by (simp add: parse_awg_bool_def Let_def to_lowercase_def lower_char_def)

lemma fold_flag_line:
  "r_random_trailers a = None \<Longrightarrow> fold awg_line (flag_line ''RandomTrailers'' v) a = a\<lparr>r_random_trailers := (if v = Some True then Some True else None)\<rparr>"
  "r_disable_cookies a = None \<Longrightarrow> fold awg_line (flag_line ''DisableCookies'' v) a = a\<lparr>r_disable_cookies := (if v = Some True then Some True else None)\<rparr>"
  by (simp_all add: flag_line_def awg_line_kv good_key_def is_space_def awg_set_def)

definition clean_opt :: "string option \<Rightarrow> bool" where
  "clean_opt v = (case v of None \<Rightarrow> True | Some x \<Rightarrow> clean x)"

lemma fold_opt_line_or:
  "fold awg_line (opt_line ''HeaderProtectionKey'' v) a = a\<lparr>r_header_protection_key := (case v of None \<Rightarrow> r_header_protection_key a | Some x \<Rightarrow> Some (trim x))\<rparr>"
  "fold awg_line (opt_line ''ContentPaddingAddition'' v) a = a\<lparr>r_content_padding_addition := (case v of None \<Rightarrow> r_content_padding_addition a | Some x \<Rightarrow> Some (trim x))\<rparr>"
  "fold awg_line (opt_line ''RekeyAfterTime'' v) a = a\<lparr>r_rekey_after_time := (case v of None \<Rightarrow> r_rekey_after_time a | Some x \<Rightarrow> Some (trim x))\<rparr>"
  "fold awg_line (opt_line ''RekeyTimeout'' v) a = a\<lparr>r_rekey_timeout := (case v of None \<Rightarrow> r_rekey_timeout a | Some x \<Rightarrow> Some (trim x))\<rparr>"
  "fold awg_line (opt_line ''RejectAfterTime'' v) a = a\<lparr>r_reject_after_time := (case v of None \<Rightarrow> r_reject_after_time a | Some x \<Rightarrow> Some (trim x))\<rparr>"
  "fold awg_line (opt_line ''KeepaliveTimeout'' v) a = a\<lparr>r_keepalive_timeout := (case v of None \<Rightarrow> r_keepalive_timeout a | Some x \<Rightarrow> Some (trim x))\<rparr>"
  "fold awg_line (opt_line ''MaxHandshakeAttempts'' v) a = a\<lparr>r_max_handshake_attempts := (case v of None \<Rightarrow> r_max_handshake_attempts a | Some x \<Rightarrow> Some (trim x))\<rparr>"
  by (simp_all add: opt_line_def awg_line_kv good_key_def is_space_def awg_set_def split: option.split)

lemma clean_opt_or: "clean_opt v \<Longrightarrow> d = None \<Longrightarrow> (case v of None \<Rightarrow> d | Some x \<Rightarrow> Some (trim x)) = v"
  by (cases v) (simp_all add: clean_opt_def clean_def)

lemma fold_opt_line:
  "clean_opt v \<Longrightarrow> r_header_protection_key a = None \<Longrightarrow> fold awg_line (opt_line ''HeaderProtectionKey'' v) a = a\<lparr>r_header_protection_key := v\<rparr>"
  "clean_opt v \<Longrightarrow> r_content_padding_addition a = None \<Longrightarrow> fold awg_line (opt_line ''ContentPaddingAddition'' v) a = a\<lparr>r_content_padding_addition := v\<rparr>"
  "clean_opt v \<Longrightarrow> r_rekey_after_time a = None \<Longrightarrow> fold awg_line (opt_line ''RekeyAfterTime'' v) a = a\<lparr>r_rekey_after_time := v\<rparr>"
  "clean_opt v \<Longrightarrow> r_rekey_timeout a = None \<Longrightarrow> fold awg_line (opt_line ''RekeyTimeout'' v) a = a\<lparr>r_rekey_timeout := v\<rparr>"
  "clean_opt v \<Longrightarrow> r_reject_after_time a = None \<Longrightarrow> fold awg_line (opt_line ''RejectAfterTime'' v) a = a\<lparr>r_reject_after_time := v\<rparr>"
  "clean_opt v \<Longrightarrow> r_keepalive_timeout a = None \<Longrightarrow> fold awg_line (opt_line ''KeepaliveTimeout'' v) a = a\<lparr>r_keepalive_timeout := v\<rparr>"
  "clean_opt v \<Longrightarrow> r_max_handshake_attempts a = None \<Longrightarrow> fold awg_line (opt_line ''MaxHandshakeAttempts'' v) a = a\<lparr>r_max_handshake_attempts := v\<rparr>"
  by (simp_all only: fold_opt_line_or clean_opt_or)

text \<open>
  Every text of the parameters is trimmed and on one line, which is what the reader of the
  interface file leaves; and the parameters pass the checks of that reader.
\<close>

definition obf_texts :: "awg_obfuscation \<Rightarrow> string list" where
  "obf_texts obf =
    [o_h1 obf, o_h2 obf, o_h3 obf, o_h4 obf, o_i1 obf, o_i2 obf, o_i3 obf, o_i4 obf, o_i5 obf]
    @ List.map_filter id
       [o_header_protection_key obf, o_content_padding_addition obf, o_rekey_after_time obf, o_rekey_timeout obf, o_reject_after_time obf, o_keepalive_timeout obf, o_max_handshake_attempts obf]"

definition obf_specs :: "awg_obfuscation \<Rightarrow> string list" where
  "obf_specs obf =
    List.map_filter id
      [o_content_padding_addition obf, o_rekey_after_time obf, o_rekey_timeout obf, o_reject_after_time obf, o_keepalive_timeout obf, o_max_handshake_attempts obf]"

definition obf_accepted :: "(string \<Rightarrow> byte list option) \<Rightarrow> awg_obfuscation \<Rightarrow> bool" where
  "obf_accepted b64 obf \<longleftrightarrow>
    (case o_header_protection_key obf of
       None \<Rightarrow> True
     | Some key \<Rightarrow> list_all (\<lambda>s. 12 \<le> s) [o_s1 obf, o_s2 obf, o_s3 obf, o_s4 obf]
                   \<and> (\<exists>bytes. parse_header_protection_key b64 key = Inr bytes))
    \<and> first_error (map u16_range_wire (obf_specs obf)) = None"

text \<open>A flag that is off is not printed.\<close>

definition drop_off_flags :: "awg_obfuscation \<Rightarrow> awg_obfuscation" where
  "drop_off_flags obf =
    obf\<lparr>o_random_trailers := (if o_random_trailers obf = Some True then Some True else None),
        o_disable_cookies := (if o_disable_cookies obf = Some True then Some True else None)\<rparr>"

definition put_words :: "awg_obfuscation \<Rightarrow> awg_raw \<Rightarrow> awg_raw" where
  "put_words obf a = a\<lparr>r_jc := Some (o_jc obf), r_jmin := Some (o_jmin obf), r_jmax := Some (o_jmax obf), r_s1 := Some (o_s1 obf), r_s2 := Some (o_s2 obf), r_s3 := Some (o_s3 obf), r_s4 := Some (o_s4 obf)\<rparr>"

definition put_texts :: "awg_obfuscation \<Rightarrow> awg_raw \<Rightarrow> awg_raw" where
  "put_texts obf a = a\<lparr>r_h1 := Some (o_h1 obf), r_h2 := Some (o_h2 obf), r_h3 := Some (o_h3 obf), r_h4 := Some (o_h4 obf), r_i1 := Some (o_i1 obf), r_i2 := Some (o_i2 obf), r_i3 := Some (o_i3 obf), r_i4 := Some (o_i4 obf), r_i5 := Some (o_i5 obf)\<rparr>"

definition put_flags :: "awg_obfuscation \<Rightarrow> awg_raw \<Rightarrow> awg_raw" where
  "put_flags obf a =
    a\<lparr>r_random_trailers := (if o_random_trailers obf = Some True then Some True else None),
      r_disable_cookies := (if o_disable_cookies obf = Some True then Some True else None)\<rparr>"

definition put_opts :: "awg_obfuscation \<Rightarrow> awg_raw \<Rightarrow> awg_raw" where
  "put_opts obf a = a\<lparr>r_header_protection_key := o_header_protection_key obf, r_content_padding_addition := o_content_padding_addition obf, r_rekey_after_time := o_rekey_after_time obf, r_rekey_timeout := o_rekey_timeout obf, r_reject_after_time := o_reject_after_time obf, r_keepalive_timeout := o_keepalive_timeout obf, r_max_handshake_attempts := o_max_handshake_attempts obf\<rparr>"

definition raw_of_obf :: "awg_raw \<Rightarrow> awg_obfuscation \<Rightarrow> awg_raw" where
  "raw_of_obf a obf = put_opts obf (put_flags obf (put_texts obf (put_words obf a)))"

lemma trim_show_nat [simp]: "trim (show_nat n) = show_nat n"
proof -
  have "\<not> is_space c" if "is_digit c" for c
    using that by (simp add: is_digit_def is_space_def Let_def)
  then show ?thesis
    using show_nat_digits[of n] by (intro trim_eq_self) (simp add: show_nat_nonempty)
qed

lemma trim_show_word [simp]: "trim (show_word w) = show_word w"
  by (simp add: show_word_def)

lemma fold_mtu_line:
  "fold awg_line (opt_line ''MTU'' (map_option show_word v)) a = a\<lparr>r_mtu := (case v of None \<Rightarrow> r_mtu a | Some x \<Rightarrow> Some x)\<rparr>"
  by (simp add: opt_line_def awg_line_keys split: option.split)

lemma awg_line_plain: "awg_line [] a = a" "awg_line ''[Interface]'' a = a" "awg_line ''[Peer]'' a = a"
  by (simp_all add: awg_line_def key_value_none)

lemma list_all_clean_opt: "list_all clean (List.map_filter id vs) \<longleftrightarrow> list_all clean_opt vs"
  by (induction vs) (auto simp: List.map_filter_simps clean_opt_def split: option.splits)

lemma fold_words: "fold awg_line [[], kv ''Jc'' (show_word (o_jc obf)), kv ''Jmin'' (show_word (o_jmin obf)), kv ''Jmax'' (show_word (o_jmax obf)), kv ''S1'' (show_word (o_s1 obf)), kv ''S2'' (show_word (o_s2 obf)), kv ''S3'' (show_word (o_s3 obf)), kv ''S4'' (show_word (o_s4 obf))] a = put_words obf a"
  unfolding put_words_def by (simp add: awg_line_plain awg_line_keys)

lemma fold_texts:
  assumes "list_all clean (obf_texts obf)"
  shows "fold awg_line [kv ''H1'' (o_h1 obf), kv ''H2'' (o_h2 obf), kv ''H3'' (o_h3 obf), kv ''H4'' (o_h4 obf), kv ''I1'' (o_i1 obf), kv ''I2'' (o_i2 obf), kv ''I3'' (o_i3 obf), kv ''I4'' (o_i4 obf), kv ''I5'' (o_i5 obf)] a = put_texts obf a"
proof -
  have s: "trim (o_h1 obf) = o_h1 obf" "trim (o_h2 obf) = o_h2 obf" "trim (o_h3 obf) = o_h3 obf" "trim (o_h4 obf) = o_h4 obf" "trim (o_i1 obf) = o_i1 obf" "trim (o_i2 obf) = o_i2 obf" "trim (o_i3 obf) = o_i3 obf" "trim (o_i4 obf) = o_i4 obf" "trim (o_i5 obf) = o_i5 obf"
    using assms(1) by (simp_all add: obf_texts_def clean_def)
  show ?thesis unfolding put_texts_def by (simp add: awg_line_keys s)
qed

lemma fold_flags:
  assumes "r_random_trailers a = None" "r_disable_cookies a = None"
  shows "fold awg_line (flag_line ''RandomTrailers'' (o_random_trailers obf) @ flag_line ''DisableCookies'' (o_disable_cookies obf)) a
    = put_flags obf a"
  unfolding put_flags_def using assms by (simp add: fold_flag_line)

lemma fold_opts:
  assumes "list_all clean (obf_texts obf)"
    and "r_header_protection_key a = None" "r_content_padding_addition a = None" "r_rekey_after_time a = None" "r_rekey_timeout a = None" "r_reject_after_time a = None" "r_keepalive_timeout a = None" "r_max_handshake_attempts a = None"
  shows "fold awg_line (opt_line ''HeaderProtectionKey'' (o_header_protection_key obf) @ opt_line ''ContentPaddingAddition'' (o_content_padding_addition obf) @ opt_line ''RekeyAfterTime'' (o_rekey_after_time obf) @ opt_line ''RekeyTimeout'' (o_rekey_timeout obf) @ opt_line ''RejectAfterTime'' (o_reject_after_time obf) @ opt_line ''KeepaliveTimeout'' (o_keepalive_timeout obf) @ opt_line ''MaxHandshakeAttempts'' (o_max_handshake_attempts obf)) a = put_opts obf a"
proof -
  have "list_all clean (List.map_filter id [o_header_protection_key obf, o_content_padding_addition obf, o_rekey_after_time obf, o_rekey_timeout obf, o_reject_after_time obf, o_keepalive_timeout obf, o_max_handshake_attempts obf])"
    using assms(1) by (simp add: obf_texts_def)
  then have "list_all clean_opt [o_header_protection_key obf, o_content_padding_addition obf, o_rekey_after_time obf, o_rekey_timeout obf, o_reject_after_time obf, o_keepalive_timeout obf, o_max_handshake_attempts obf]"
    by (simp only: list_all_clean_opt)
  then show ?thesis unfolding put_opts_def by (simp add: assms(2-) fold_opt_line)
qed

lemma fold_four: "fold f (w @ s @ g @ r) a = fold f r (fold f g (fold f s (fold f w a)))"
  by simp

lemma fold_obf_lines:
  assumes "list_all clean (obf_texts obf)"
    and "r_random_trailers a = None" "r_disable_cookies a = None"
    and "r_header_protection_key a = None" "r_content_padding_addition a = None" "r_rekey_after_time a = None" "r_rekey_timeout a = None" "r_reject_after_time a = None" "r_keepalive_timeout a = None" "r_max_handshake_attempts a = None"
  shows "fold awg_line (obf_lines obf) a = raw_of_obf a obf"
proof -
  define a' where "a' = put_flags obf (put_texts obf (put_words obf a))"
  have n: "r_header_protection_key a' = None" "r_content_padding_addition a' = None" "r_rekey_after_time a' = None" "r_rekey_timeout a' = None" "r_reject_after_time a' = None" "r_keepalive_timeout a' = None" "r_max_handshake_attempts a' = None"
    using assms(4-) by (simp_all add: a'_def put_flags_def put_texts_def put_words_def)
  have f: "r_random_trailers (put_texts obf (put_words obf a)) = None" "r_disable_cookies (put_texts obf (put_words obf a)) = None"
    using assms(2,3) by (simp_all add: put_texts_def put_words_def)
  have split: "obf_lines obf = [[], kv ''Jc'' (show_word (o_jc obf)), kv ''Jmin'' (show_word (o_jmin obf)), kv ''Jmax'' (show_word (o_jmax obf)), kv ''S1'' (show_word (o_s1 obf)), kv ''S2'' (show_word (o_s2 obf)), kv ''S3'' (show_word (o_s3 obf)), kv ''S4'' (show_word (o_s4 obf))] @ [kv ''H1'' (o_h1 obf), kv ''H2'' (o_h2 obf), kv ''H3'' (o_h3 obf), kv ''H4'' (o_h4 obf), kv ''I1'' (o_i1 obf), kv ''I2'' (o_i2 obf), kv ''I3'' (o_i3 obf), kv ''I4'' (o_i4 obf), kv ''I5'' (o_i5 obf)] @ (flag_line ''RandomTrailers'' (o_random_trailers obf) @ flag_line ''DisableCookies'' (o_disable_cookies obf)) @ (opt_line ''HeaderProtectionKey'' (o_header_protection_key obf) @ opt_line ''ContentPaddingAddition'' (o_content_padding_addition obf) @ opt_line ''RekeyAfterTime'' (o_rekey_after_time obf) @ opt_line ''RekeyTimeout'' (o_rekey_timeout obf) @ opt_line ''RejectAfterTime'' (o_reject_after_time obf) @ opt_line ''KeepaliveTimeout'' (o_keepalive_timeout obf) @ opt_line ''MaxHandshakeAttempts'' (o_max_handshake_attempts obf))"
    by (simp add: obf_lines_def)
  show ?thesis
    unfolding split
    by (subst fold_four) (simp only: fold_words fold_texts[OF assms(1)] fold_flags[OF f] raw_of_obf_def
          a'_def[symmetric] fold_opts[OF assms(1) n])
qed

lemma obfuscation_of_raw_of_obf:
  assumes "obf_accepted b64 obf"
  shows "awg_obfuscation_of b64 (raw_of_obf a obf) = Inr (Some (drop_off_flags obf))"
proof -
  let ?r = "raw_of_obf a obf"
  note puts = raw_of_obf_def put_opts_def put_flags_def put_texts_def put_words_def
  have jc: "r_jc ?r = Some (o_jc obf)" and key: "r_header_protection_key ?r = o_header_protection_key obf"
    and s: "r_s1 ?r = Some (o_s1 obf)" "r_s2 ?r = Some (o_s2 obf)" "r_s3 ?r = Some (o_s3 obf)" "r_s4 ?r = Some (o_s4 obf)"
    by (simp_all add: puts)
  have specs: "range_specs ?r = obf_specs obf"
    by (simp add: range_specs_def obf_specs_def puts)
  have res: "raw_obfuscation (o_jc obf) ?r = drop_off_flags obf"
    by (simp add: raw_obfuscation_def drop_off_flags_def puts or_zero_def or_empty_def)
  show ?thesis
  proof (cases "o_header_protection_key obf")
    case None
    then show ?thesis
      using assms by (simp add: awg_obfuscation_of_def jc key s specs res obf_accepted_def)
  next
    case (Some k)
    then obtain bytes where "parse_header_protection_key b64 k = Inr bytes"
      and "\<not> o_s1 obf < 12" "\<not> o_s2 obf < 12" "\<not> o_s3 obf < 12" "\<not> o_s4 obf < 12"
      and "first_error (map u16_range_wire (obf_specs obf)) = None"
      using assms by (auto simp: obf_accepted_def not_less)
    then show ?thesis
      using Some by (simp add: awg_obfuscation_of_def jc key s specs res or_zero_def)
  qed
qed

text \<open>What the reader accepts has the two properties.\<close>

definition clean_raw :: "awg_raw \<Rightarrow> bool" where
  "clean_raw a \<longleftrightarrow>
    list_all clean_opt
      [r_h1 a, r_h2 a, r_h3 a, r_h4 a, r_i1 a, r_i2 a, r_i3 a, r_i4 a, r_i5 a, r_header_protection_key a,
       r_content_padding_addition a, r_rekey_after_time a, r_rekey_timeout a, r_reject_after_time a,
       r_keepalive_timeout a, r_max_handshake_attempts a]"

lemma clean_raw_set: "clean v \<Longrightarrow> clean_raw a \<Longrightarrow> clean_raw (awg_set k v a)"
  unfolding awg_set_def by (split if_split, intro conjI impI, simp add: clean_raw_def clean_opt_def)+

lemma key_value_clean: "one_line l \<Longrightarrow> key_value l = Some (k, v) \<Longrightarrow> clean v"
proof -
  have sub: "split_once d s = Some (x, y) \<Longrightarrow> set y \<subseteq> set s" for d s x y
    by (induction s arbitrary: x) (auto split: if_splits option.splits)
  assume l: "one_line l" and "key_value l = Some (k, v)"
  then obtain x y where y: "split_once (CHR ''='') (trim l) = Some (x, y)" "v = trim y"
    by (auto simp: key_value_def split: option.splits)
  have "set v \<subseteq> set l" using y sub[OF y(1)] set_trim by blast
  then show ?thesis using l y(2) by (auto simp: clean_def one_line_def)
qed

lemma clean_raw_line: "one_line l \<Longrightarrow> clean_raw a \<Longrightarrow> clean_raw (awg_line l a)"
  by (auto simp: awg_line_def key_value_clean clean_raw_set split: option.splits)

lemma text_lines_one_line: "l \<in> set (text_lines s) \<Longrightarrow> one_line l"
proof -
  assume l: "l \<in> set (text_lines s)"
  have p: "p \<in> set (split_on newline s) \<Longrightarrow> newline \<notin> set p" for p
    using split_on_pieces[of newline s] by blast
  have cr: "set (strip_cr p) \<subseteq> set p" for p
    by (auto simp: strip_cr_def dest: in_set_butlastD)
  from l consider q where "q \<in> set (split_on newline s)" "l = strip_cr q" | "l = last (split_on newline s)"
    by (auto simp: text_lines_def Let_def split: if_splits dest: in_set_butlastD)
  then show ?thesis
    using p cr last_in_set[OF split_on_nonempty[of newline s]] by cases (auto simp: one_line_def)
qed

lemma clean_awg_read: "clean_raw (awg_read contents)"
proof -
  have "\<forall>l \<in> set ls. one_line l \<Longrightarrow> clean_raw a \<Longrightarrow> clean_raw (fold awg_line ls a)" for ls a
    by (induction ls arbitrary: a) (simp_all add: clean_raw_line)
  moreover have "clean_raw awg_raw_empty"
    by (simp add: clean_raw_def awg_raw_empty_def clean_opt_def)
  ultimately show ?thesis unfolding awg_read_def using text_lines_one_line by blast
qed

lemma clean_Nil [simp]: "clean []"
  by (simp add: clean_def one_line_def)

lemma clean_or_empty: "clean_opt v \<Longrightarrow> clean (or_empty v)"
  by (cases v) (simp_all add: clean_opt_def or_empty_def)

lemma awg_obfuscation_of_cases:
  assumes "awg_obfuscation_of b64 a = Inr (Some obf)"
  shows "\<exists>jc. r_jc a = Some jc \<and> obf = raw_obfuscation jc a \<and> obf_accepted b64 (raw_obfuscation jc a)"
proof -
  obtain jc where jc: "r_jc a = Some jc" using assms by (auto simp: awg_obfuscation_of_def split: option.splits)
  have specs: "range_specs a = obf_specs (raw_obfuscation jc a)"
    by (simp add: range_specs_def obf_specs_def raw_obfuscation_def)
  have fe: "first_error [r] = None \<longleftrightarrow> (\<exists>x. r = Inr x)" for r :: "error + byte list"
    by (cases r) simp_all
  show ?thesis
  proof (cases "r_header_protection_key a")
    case None
    then show ?thesis
      using assms jc by (auto simp: awg_obfuscation_of_def obf_accepted_def specs raw_obfuscation_def split: option.splits)
  next
    case (Some k)
    then show ?thesis
      using assms jc
      by (auto simp: awg_obfuscation_of_def obf_accepted_def specs fe raw_obfuscation_def not_less
            split: option.splits if_splits)
  qed
qed

lemma obf_texts_raw: "clean_raw a \<Longrightarrow> list_all clean (obf_texts (raw_obfuscation jc a))"
  by (simp add: obf_texts_def raw_obfuscation_def clean_raw_def clean_or_empty list_all_clean_opt
        del: List.map_filter_simps)

lemma awg_from_file_obfuscation:
  assumes "awg_from_file b64 path contents = Inr cfg" "asc_obfuscation cfg = Some obf"
  shows "list_all clean (obf_texts obf)" "obf_accepted b64 obf"
proof -
  have "awg_obfuscation_of b64 (awg_read contents) = Inr (Some obf)"
    using assms by (auto simp: awg_from_file_def Let_def split: sum.splits option.splits)
  then show "list_all clean (obf_texts obf)" "obf_accepted b64 obf"
    using awg_obfuscation_of_cases obf_texts_raw clean_awg_read by blast+
qed

text \<open>The printed lines, one after the other, leave the connection's key and address and the parameters.\<close>

lemma awg_line_comment: "awg_line (CHR ''#'' # r) a = a"
proof (cases "split_once (CHR ''='') (trim (CHR ''#'' # r))")
  case None
  then show ?thesis by (simp add: awg_line_def key_value_def)
next
  case (Some kv)
  have hash: "\<exists>u. trim (CHR ''#'' # s) = CHR ''#'' # u" for s
  proof -
    have h: "\<not> is_space CHR ''#''" by (simp add: is_space_def)
    have "rtrim ''#'' = ''#''" using h by (simp add: rtrim_def)
    then show ?thesis using h rtrim_append[of "''#''" s] by (simp add: trim_rtrim split: if_splits)
  qed
  obtain x y where xy: "kv = (x, y)" by (cases kv)
  obtain u where "trim (CHR ''#'' # r) = CHR ''#'' # u" using hash by blast
  then obtain x' where "x = CHR ''#'' # x'" using Some xy by (auto split: option.splits)
  then obtain w where "trim x = CHR ''#'' # w" using hash by blast
  then show ?thesis using Some xy by (simp add: awg_line_def key_value_def awg_set_def)
qed

lemma one_line_append [simp]: "one_line (s @ t) \<longleftrightarrow> one_line s \<and> one_line t"
  by (auto simp: one_line_def)

lemma one_line_Cons [simp]: "one_line (c # t) \<longleftrightarrow> c \<noteq> newline \<and> one_line t"
  by (auto simp: one_line_def)

lemma one_line_Nil [simp]: "one_line []"
  by (simp add: one_line_def)

lemma show_word_digits: "c \<in> set (show_word w) \<Longrightarrow> is_digit c"
  using show_nat_digits by (auto simp: show_word_def)

lemma clean_show_nat [simp]: "clean (show_nat n)"
  using show_nat_digits[of n] not_digit_minus(2) by (auto simp: clean_def one_line_def)

lemma clean_show_word [simp]: "clean (show_word w)"
  using show_word_digits not_digit_minus(2) by (auto simp: clean_def one_line_def)

lemma clean_last: "clean v \<Longrightarrow> v = [] \<or> last v \<noteq> CHR 0x0D"
  using trim_last[of v] by (auto simp: clean_def is_space_def)

lemma plain_line_kv: "one_line k \<Longrightarrow> one_line v \<Longrightarrow> v = [] \<or> last v \<noteq> CHR 0x0D \<Longrightarrow> plain_line (kv k v)"
  by (auto simp: plain_line_def kv_def one_line_def)

lemma plain_line_clean: "one_line k \<Longrightarrow> clean v \<Longrightarrow> plain_line (kv k v)"
  using clean_last plain_line_kv by (auto simp: clean_def)

lemma plain_opt_line: "one_line k \<Longrightarrow> clean_opt v \<Longrightarrow> list_all plain_line (opt_line k v)"
  by (auto simp: opt_line_def clean_opt_def plain_line_clean split: option.splits)

lemma plain_flag_line: "one_line k \<Longrightarrow> list_all plain_line (flag_line k v)"
  by (auto simp: flag_line_def intro!: plain_line_kv)

lemma plain_Nil [simp]: "plain_line []"
  by (simp add: plain_line_def)

lemma plain_obf_lines: "list_all clean (obf_texts obf) \<Longrightarrow> list_all plain_line (obf_lines obf)"
proof -
  assume c: "list_all clean (obf_texts obf)"
  have o: "list_all clean_opt [o_header_protection_key obf, o_content_padding_addition obf, o_rekey_after_time obf,
      o_rekey_timeout obf, o_reject_after_time obf, o_keepalive_timeout obf, o_max_handshake_attempts obf]"
    using c by (simp add: obf_texts_def list_all_clean_opt del: List.map_filter_simps)
  have "list_all clean [o_h1 obf, o_h2 obf, o_h3 obf, o_h4 obf, o_i1 obf, o_i2 obf, o_i3 obf, o_i4 obf, o_i5 obf]"
    using c by (simp add: obf_texts_def)
  then show ?thesis
    using o by (simp add: obf_lines_def plain_line_clean plain_flag_line plain_opt_line)
qed

text \<open>The texts that the configuration takes from the outside have no line breaks.\<close>

definition printable :: "'u link_lib \<Rightarrow> string \<Rightarrow> wg_param \<Rightarrow> uuid \<Rightarrow> string \<Rightarrow> string \<Rightarrow> bool" where
  "printable lib server_pubkey param conn_id host label \<longleftrightarrow>
    clean server_pubkey \<and> clean (privkey (wg_keys param)) \<and> clean (lib_uuid lib conn_id)
    \<and> is_ipv4 (ipm_address (wg_address param)) \<and> one_line host \<and> one_line label"

lemma show_ipv4_chars: "c \<in> set (show_ipv4 a) \<Longrightarrow> is_digit c \<or> c = CHR ''.''"
proof -
  have "c \<in> set (join_with d ps) \<Longrightarrow> c \<in> set d \<or> (\<exists>p \<in> set ps. c \<in> set p)" for d ps
    by (induction d ps rule: join_with.induct) auto
  then show "c \<in> set (show_ipv4 a) \<Longrightarrow> is_digit c \<or> c = CHR ''.''"
    unfolding show_ipv4_def using show_nat_digits by fastforce
qed

lemma one_line_ipv4 [simp]: "one_line (show_ipv4 a)"
  using show_ipv4_chars not_digit_minus(2) by (fastforce simp: one_line_def)

lemma clean_ip_mask: "is_ipv4 (ipm_address m) \<Longrightarrow> clean (show_ip_mask lib m)"
proof -
  assume "is_ipv4 (ipm_address m)"
  then obtain a where a: "ipm_address m = IpAddr_V4 a" by (cases "ipm_address m") auto
  let ?s = "show_ipv4 a @ ''/'' @ show_word (ipm_cidr m)"
  have sp: "\<not> is_space c" if "is_digit c \<or> c = CHR ''.'' \<or> c = CHR ''/''" for c
    using that by (auto simp: is_digit_def is_space_def)
  have "\<not> is_space c" if "c \<in> set ?s" for c
    using that show_ipv4_chars[of c a] show_word_digits[of c "ipm_cidr m"] sp by auto
  then have "trim ?s = ?s" by (intro trim_eq_self) (metis hd_in_set last_in_set)
  then show ?thesis
    using a clean_show_word[of "ipm_cidr m"] by (simp add: clean_def show_ip_mask_def show_ip_def)
qed

lemma dns_text_line: "one_line (dns_text dns) \<and> (dns_text dns = [] \<or> last (dns_text dns) \<noteq> CHR 0x0D)"
proof -
  have "c \<in> set (join_with d ps) \<Longrightarrow> c \<in> set d \<or> (\<exists>p \<in> set ps. c \<in> set p)" for c d ps
    by (induction d ps rule: join_with.induct) auto
  then have "c \<in> set (dns_text dns) \<Longrightarrow> is_digit c \<or> c = CHR ''.'' \<or> c = CHR '',''" for c
    unfolding dns_text_def using show_ipv4_chars by fastforce
  then have "c \<in> set (dns_text dns) \<Longrightarrow> c \<noteq> newline \<and> c \<noteq> CHR 0x0D" for c
    by (fastforce simp: is_digit_def)
  then show ?thesis unfolding one_line_def by (metis last_in_set)
qed

lemma plain_client_lines:
  assumes "printable lib server_pubkey param conn_id host label"
    and "\<forall>obf. aws_obfuscation awg = Some obf \<longrightarrow> list_all clean (obf_texts obf)"
  shows "list_all plain_line (awg_client_lines lib awg server_pubkey param conn_id host label)"
proof -
  have ends: "clean (lib_uuid lib conn_id)" "one_line host" "one_line label" "clean server_pubkey"
    "clean (privkey (wg_keys param))" "clean (show_ip_mask lib (wg_address param))"
    using assms(1) by (simp_all add: printable_def clean_ip_mask)
  have c: "plain_line (comment_line lib label conn_id)"
    using ends(1,3) clean_last[of "lib_uuid lib conn_id"]
    by (auto simp: comment_line_def plain_line_def clean_def one_line_def)
  have e: "plain_line (kv ''Endpoint'' (host @ '':'' @ show_word p))" for p :: "16 word"
    using ends(2) clean_show_word[of p] clean_last[OF clean_show_word, of p]
    by (intro plain_line_kv) (auto simp: clean_def show_word_def)
  have d: "dns_text (ai_dns (aws_interface awg)) \<noteq> [] \<Longrightarrow> plain_line (kv ''DNS'' (dns_text (ai_dns (aws_interface awg))))"
    using dns_text_line[of "ai_dns (aws_interface awg)"] by (intro plain_line_kv) simp_all
  have o: "list_all plain_line (case aws_obfuscation awg of None \<Rightarrow> [] | Some obf \<Rightarrow> obf_lines obf)"
    using assms(2) by (auto simp: plain_obf_lines split: option.split)
  have m: "list_all plain_line (opt_line ''MTU'' (map_option show_word (ai_mtu (aws_interface awg))))"
    by (intro plain_opt_line) (auto simp: clean_opt_def split: option.split)
  have l: "plain_line ''[Interface]''" "plain_line ''[Peer]''" "plain_line (kv ''AllowedIPs'' ''0.0.0.0/0, ::/0'')"
    by (simp_all add: plain_line_def kv_def)
  show ?thesis
    unfolding awg_client_lines_def Let_def list_all_append
    using c e d o m l ends by (simp add: plain_line_clean)
qed

definition head_raw :: "'u link_lib \<Rightarrow> awg_settings \<Rightarrow> wg_param \<Rightarrow> awg_raw" where
  "head_raw lib awg param =
    awg_raw_empty\<lparr>r_private_key := Some (privkey (wg_keys param)),
      r_address := Some (show_ip_mask lib (wg_address param)),
      r_mtu := ai_mtu (aws_interface awg),
      r_dns := (let dns = dns_text (ai_dns (aws_interface awg)) in if dns = [] then [] else parse_dns (trim dns))\<rparr>"

lemma fold_client_lines:
  assumes "printable lib server_pubkey param conn_id host label"
    and "aws_obfuscation awg = Some obf" "list_all clean (obf_texts obf)"
  shows "fold awg_line (awg_client_lines lib awg server_pubkey param conn_id host label) awg_raw_empty
    = raw_of_obf (head_raw lib awg param) obf"
proof -
  have t: "trim (privkey (wg_keys param)) = privkey (wg_keys param)"
    "trim (show_ip_mask lib (wg_address param)) = show_ip_mask lib (wg_address param)"
    using assms(1) clean_ip_mask by (auto simp: printable_def clean_def)
  have c: "awg_line (comment_line lib label conn_id) a = a" for a
    by (simp add: comment_line_def awg_line_comment)
  have h: "fold awg_line (opt_line ''MTU'' (map_option show_word (ai_mtu (aws_interface awg)))
      @ (let dns = dns_text (ai_dns (aws_interface awg)) in if dns = [] then [] else [kv ''DNS'' dns]))
      (awg_line (kv ''Address'' (show_ip_mask lib (wg_address param)))
        (awg_line (kv ''PrivateKey'' (privkey (wg_keys param))) awg_raw_empty)) = head_raw lib awg param"
    by (simp add: fold_mtu_line awg_line_keys t head_raw_def Let_def awg_raw_empty_def split: option.split)
  have o: "fold awg_line (obf_lines obf) (head_raw lib awg param) = raw_of_obf (head_raw lib awg param) obf"
    by (rule fold_obf_lines[OF assms(3)]) (simp_all add: head_raw_def awg_raw_empty_def)
  show ?thesis
    using h o unfolding awg_client_lines_def assms(2) fold_append comp_def option.case fold_simps
    by (simp add: awg_line_plain awg_line_keys c)
qed

definition parse_ip_v4 :: "string \<Rightarrow> ip_addr option" where
  "parse_ip_v4 s = map_option IpAddr_V4 (parse_ipv4 s)"

lemma ip_mask_roundtrip:
  assumes "is_ipv4 (ipm_address m)" "cidr_valid m"
  shows "ip_mask_from_str parse_ip_v4 parse_u8 (show_ip_mask lib m) = Some m"
proof -
  obtain a where a: "ipm_address m = IpAddr_V4 a" using assms(1) by (cases "ipm_address m") auto
  have "CHR ''/'' \<notin> set (show_ipv4 a)"
    using show_ipv4_chars[of "CHR ''/''" a] by (auto simp: is_digit_def)
  then have "split_once (CHR ''/'') (show_ip_mask lib m) = Some (show_ipv4 a, show_word (ipm_cidr m))"
    by (simp add: show_ip_mask_def show_ip_def a split_once_append)
  moreover have "\<not> ipm_cidr m > 32" using assms a by (simp add: cidr_valid_def)
  ultimately show ?thesis
    using a by (simp add: ip_mask_from_str_def parse_ip_v4_def)
qed

text \<open>
  C9: The configuration that the api gives to a client of an AmneziaWG inbound agrees with the
  interface file of the node. When the node's file is accepted with obfuscation parameters
  \<open>obf\<close>, and the api prints a client configuration for an inbound with these parameters, reading
  the printed text with the rules of the file gives back exactly \<open>obf\<close> (a flag that is off is
  left out, which means the same), the private key of the connection and its address.
\<close>

theorem awg_client_matches_node:
  assumes "awg_from_file b64 path contents = Inr cfg" "asc_obfuscation cfg = Some obf"
    and "in_awg i = Some awg" "aws_obfuscation awg = Some obf"
    and "get_amneziawg c = Some param" "cidr_valid (wg_address param)"
    and "lib_pubkey lib (ai_private_key (aws_interface awg)) = Inr server_pubkey"
    and "printable lib server_pubkey param conn_id host label"
  shows "\<exists>text. amneziawg_config lib i conn_id c host label = Inr text
    \<and> awg_obfuscation_of b64 (awg_read text) = Inr (Some (drop_off_flags obf))
    \<and> r_private_key (awg_read text) = Some (privkey (wg_keys param))
    \<and> Option.bind (r_address (awg_read text)) (ip_mask_from_str parse_ip_v4 parse_u8) = Some (wg_address param)"
proof -
  let ?ls = "awg_client_lines lib awg server_pubkey param conn_id host label"
  note obf = awg_from_file_obfuscation[OF assms(1,2)]
  have printed: "amneziawg_config lib i conn_id c host label = Inr (end_lines ?ls)"
    using assms(3,5,7) by (simp add: amneziawg_config_def and_then_def ok_or_def)
  have "list_all plain_line ?ls"
    using assms(4,8) obf(1) by (intro plain_client_lines) auto
  then have "text_lines (end_lines ?ls) = ?ls"
    by (intro text_lines_end_lines) (simp add: list_all_iff)
  then have r: "awg_read (end_lines ?ls) = raw_of_obf (head_raw lib awg param) obf"
    by (simp add: awg_read_def fold_client_lines[OF assms(8,4) obf(1)])
  have "r_private_key (awg_read (end_lines ?ls)) = Some (privkey (wg_keys param))"
    "r_address (awg_read (end_lines ?ls)) = Some (show_ip_mask lib (wg_address param))"
    unfolding r raw_of_obf_def put_opts_def put_flags_def put_texts_def put_words_def head_raw_def by simp_all
  moreover have "is_ipv4 (ipm_address (wg_address param))" using assms(8) by (simp add: printable_def)
  ultimately show ?thesis
    using printed ip_mask_roundtrip[OF _ assms(6)] obfuscation_of_raw_of_obf[OF obf(2)] by (simp add: r)
qed

definition demo_lib :: "string link_lib" where
  "demo_lib =
    \<lparr> lib_uuid = (\<lambda>u. show_nat (unat u)), lib_v6 = (\<lambda>a. show_nat (unat a)), lib_url_parse = Some,
      lib_append_pair = (\<lambda>k v u. u @ ''&'' @ k @ ''='' @ v), lib_set_fragment = (\<lambda>f u. u @ ''#'' @ f),
      lib_url_str = (\<lambda>u. u), lib_json = (\<lambda>_. None), lib_b64 = (\<lambda>s. s), lib_pubkey = (\<lambda>k. Inr ''K'') \<rparr>"

definition demo_param :: wg_param where
  "demo_param = \<lparr> wg_keys = \<lparr> privkey = ''P'' \<rparr>,
                  wg_address = \<lparr> ipm_address = IpAddr_V4 7, ipm_cidr = 32 \<rparr> \<rparr>"

definition demo_file :: string where
  "demo_file = end_lines [kv ''PrivateKey'' ''S'', kv ''Address'' ''9'', kv ''ListenPort'' (show_word (5 :: 16 word)),
    kv ''Jc'' (show_word (4 :: 16 word)), kv ''S1'' (show_word (2 :: 16 word)), kv ''H1'' ''7-9'']"

definition demo_obf :: awg_obfuscation where
  "demo_obf = raw_obfuscation 4 (awg_raw_empty\<lparr>r_s1 := Some 2, r_h1 := Some ''7-9''\<rparr>)"

definition demo_awg :: awg_settings where
  "demo_awg =
    \<lparr> aws_interface = \<lparr> ai_interface = ''awg0'', ai_address = \<lparr> ipm_address = IpAddr_V4 1, ipm_cidr = 24 \<rparr>,
                        ai_listen_port = 5, ai_mtu = None, ai_private_key = \<lparr> privkey = ''S'' \<rparr>, ai_dns = [] \<rparr>,
      aws_obfuscation = Some demo_obf, aws_keepalive = None \<rparr>"

definition demo_awg_inbound :: inbound where
  "demo_awg_inbound =
    \<lparr> in_tag = Tag_AmneziaWg, in_port = 5, in_stream = None, in_wg = None, in_awg = Some demo_awg,
      in_h2 = None, in_mtproto_secret = None \<rparr>"

definition demo_awg_conn :: conn where
  "demo_awg_conn = conn_new 0 Env_Dev None (Proto_AmneziaWg demo_param) None"

lemma demo_file_read:
  "awg_from_file (\<lambda>_. None) ''/etc/awg0.conf'' demo_file
   = Inr \<lparr> asc_interface = ''awg0'', asc_address = ''9'', asc_port = 5, asc_private_key = ''S'',
           asc_dns = Some [], asc_mtu = None, asc_obfuscation = Some demo_obf \<rparr>"
proof -
  have t: "trim ''S'' = ''S''" "trim ''9'' = ''9''" "trim ''7-9'' = ''7-9''"
    by (simp_all add: trim_eq_self is_space_def)
  then have c: "clean ''S''" "clean ''9''" "clean ''7-9''" by (simp_all add: clean_def)
  let ?ls = "[kv ''PrivateKey'' ''S'', kv ''Address'' ''9'', kv ''ListenPort'' (show_word (5 :: 16 word)),
    kv ''Jc'' (show_word (4 :: 16 word)), kv ''S1'' (show_word (2 :: 16 word)), kv ''H1'' ''7-9'']"
  have "text_lines (end_lines ?ls) = ?ls"
    by (intro text_lines_end_lines) (simp add: plain_line_clean c)
  then show ?thesis
    unfolding awg_from_file_def awg_read_def demo_file_def Let_def
    by (simp add: awg_line_keys t awg_obfuscation_of_def awg_raw_empty_def range_specs_def List.map_filter_simps
          interface_of_path_def demo_obf_def raw_obfuscation_def)
qed

theorem awg_client_matches_node_witness:
  "\<exists>out. amneziawg_config demo_lib demo_awg_inbound 3 demo_awg_conn ''h'' ''FI'' = Inr out
    \<and> awg_obfuscation_of (\<lambda>_. None) (awg_read out) = Inr (Some (drop_off_flags demo_obf))
    \<and> r_private_key (awg_read out) = Some ''P''
    \<and> Option.bind (r_address (awg_read out)) (ip_mask_from_str parse_ip_v4 parse_u8) = Some (wg_address demo_param)"
proof -
  have p: "printable demo_lib ''K'' demo_param 3 ''h'' ''FI''"
    unfolding printable_def demo_lib_def link_lib.simps demo_param_def wg_param.simps
    by (simp add: clean_def[of "[_]"] trim_eq_self is_space_def)
  show ?thesis
    using awg_client_matches_node[OF demo_file_read, of demo_obf demo_awg_inbound demo_awg demo_awg_conn demo_param
        demo_lib "''K''" 3 "''h''" "''FI''"] p
    by (simp add: demo_awg_inbound_def demo_awg_def demo_awg_conn_def conn_new_def get_amneziawg_def
          demo_param_def cidr_valid_def demo_lib_def)
qed

end
