(* ===== verification/Node_Store.thy ===== *)
theory Node_Store
  imports Inbound_Config Subscription_Model "HOL-Library.List_Lexorder" "HOL-Library.Char_ord"
begin

text \<open>
  Nodes (\<^verbatim>\<open>src/memory/node.rs\<close>), the collection that holds them by environment
  (\<^verbatim>\<open>src/memory/storage/node.rs\<close>) and the collection of subscriptions
  (\<^verbatim>\<open>src/memory/storage/subscription.rs\<close>).
\<close>

section \<open>Status and type\<close>

datatype node_status = NS_Online | NS_Degraded | NS_Offline

fun is_serving :: "node_status \<Rightarrow> bool" where
  "is_serving NS_Online = True"
| "is_serving NS_Degraded = True"
| "is_serving NS_Offline = False"

fun node_status_display :: "node_status \<Rightarrow> string" where
  "node_status_display NS_Online = ''Online''"
| "node_status_display NS_Degraded = ''Degraded''"
| "node_status_display NS_Offline = ''Offline''"

definition node_status_from_str :: "string \<Rightarrow> unit + node_status" where
  "node_status_from_str s =
    (if s = ''Online'' then Inr NS_Online
     else if s = ''Degraded'' then Inr NS_Degraded
     else if s = ''Offline'' then Inr NS_Offline
     else Inr NS_Offline)"

datatype node_type = NT_Node | NT_PremiumNode | NT_Service | NT_Agent

fun node_type_display :: "node_type \<Rightarrow> string" where
  "node_type_display NT_Node = ''Node''"
| "node_type_display NT_PremiumNode = ''PremiumNode''"
| "node_type_display NT_Service = ''Service''"
| "node_type_display NT_Agent = ''Agent''"

definition node_type_from_str :: "string \<Rightarrow> unit + node_type" where
  "node_type_from_str s =
    (let t = to_lowercase s in
     if t \<in> {''agent'', ''common'', ''node''} then Inr NT_Node
     else if t \<in> {''premium'', ''premiumnode'', ''premium_node''} then Inr NT_PremiumNode
     else if t = ''service'' then Inr NT_Service
     else Inl ())"

interpretation node_status_codec: text_codec "\<lambda>_. True" node_status_display node_status_from_str
  by unfold_locales (case_tac x; simp add: node_status_from_str_def)

text \<open>An agent is read back as a plain node; the other types are read back as printed.\<close>

interpretation node_type_codec: text_codec "\<lambda>t. t \<noteq> NT_Agent" node_type_display node_type_from_str
  by unfold_locales (case_tac x; simp only: node_type_display.simps; code_simp)

lemma agent_type_read_as_node: "node_type_from_str (node_type_display NT_Agent) = Inr NT_Node"
  by code_simp

section \<open>Nodes\<close>

type_synonym ('k, 'v) btree = "('k \<times> 'v) list"

record node =
  n_uuid :: uuid
  n_env :: env
  n_hostname :: string
  n_address :: "32 word"
  n_status :: node_status
  n_label :: string
  n_interface :: string
  n_created_at :: datetime
  n_modified_at :: datetime
  n_inbounds :: "(tag, inbound) hashmap"
  n_cores :: nat
  n_max_bandwidth_bps :: int
  n_country :: string
  n_type :: node_type
  n_cluster :: "string option"
  n_ips :: "32 word list option"
  n_pool :: "string option"
  n_pool_translation :: "(string, string) btree option"
  n_weights :: "(string, int) btree"

definition DEFAULT_NODE_WEIGHT :: int where "DEFAULT_NODE_WEIGHT = 100"

definition entry_ips :: "node \<Rightarrow> string list" where
  "entry_ips n =
    (case n_ips n of
       Some ips \<Rightarrow> if ips = [] then [show_ipv4 (n_address n)] else map show_ipv4 ips
     | None \<Rightarrow> [show_ipv4 (n_address n)])"

definition weight_for :: "node \<Rightarrow> string \<Rightarrow> int" where
  "weight_for n ip =
    (case map_of (n_weights n) ip of
       Some w \<Rightarrow> if w > 0 then w else DEFAULT_NODE_WEIGHT
     | None \<Rightarrow> DEFAULT_NODE_WEIGHT)"

definition weights_by_ip :: "node \<Rightarrow> (string, int) btree" where
  "weights_by_ip n = fold (\<lambda>ip m. AList.update ip (weight_for n ip) m) (entry_ips n) []"

definition max_weight :: "node \<Rightarrow> int" where
  "max_weight n =
    (let ws = map snd (weights_by_ip n) in if ws = [] then DEFAULT_NODE_WEIGHT else Max (set ws))"

definition node_inbound :: "node \<Rightarrow> tag \<Rightarrow> inbound option" where
  "node_inbound n t = List.find (\<lambda>i. in_tag i = t) (hm_values (n_inbounds n))"

definition connection_host :: "node \<Rightarrow> string" where
  "connection_host n =
    (case n_cluster n of
       Some c \<Rightarrow> if c \<noteq> [] then c else show_ipv4 (n_address n)
     | None \<Rightarrow> show_ipv4 (n_address n))"

definition update_status :: "node_status \<Rightarrow> node \<Rightarrow> node" where
  "update_status s n = n\<lparr>n_status := s\<rparr>"

definition get_base_tags :: "node \<Rightarrow> (string, string) btree" where
  "get_base_tags n =
    fold (\<lambda>(k, v) m. AList.update k v m)
      ([(''env'', env_display (n_env n)), (''hostname'', n_hostname n), (''label'', n_label n),
        (''address'', show_ipv4 (n_address n)), (''label'', n_label n), (''cores'', show_nat (n_cores n)),
        (''max_bandwidth_bps'', show_int (n_max_bandwidth_bps n)), (''country'', n_country n),
        (''type'', node_type_display (n_type n))]
       @ (case n_cluster n of None \<Rightarrow> [] | Some c \<Rightarrow> [(''cluster'', c)])) []"

record node_response =
  nr_uuid :: uuid
  nr_env :: string
  nr_hostname :: string
  nr_interface :: string
  nr_address :: "32 word"
  nr_inbounds :: "inbound list"
  nr_status :: node_status
  nr_label :: string
  nr_cores :: nat
  nr_max_bandwidth_bps :: int
  nr_country :: string
  nr_type :: node_type
  nr_cluster :: "string option"
  nr_ips :: "32 word list option"
  nr_pool :: "string option"
  nr_weights :: "(string, int) btree option"

definition as_node_response :: "node \<Rightarrow> node_response" where
  "as_node_response n =
    \<lparr> nr_uuid = n_uuid n, nr_env = env_display (n_env n), nr_hostname = n_hostname n,
      nr_interface = n_interface n, nr_address = n_address n, nr_inbounds = hm_values (n_inbounds n),
      nr_status = n_status n, nr_label = n_label n, nr_cores = n_cores n,
      nr_max_bandwidth_bps = n_max_bandwidth_bps n, nr_country = n_country n, nr_type = n_type n,
      nr_cluster = n_cluster n, nr_ips = n_ips n, nr_pool = n_pool n,
      nr_weights = (if n_weights n = [] then None else Some (n_weights n)) \<rparr>"

text \<open>
  Derived equality. The inbounds are a hash map and the weights and translations sorted maps, so
  that they are compared by their entries.
\<close>

definition hm_eq :: "('k, 'v) hashmap \<Rightarrow> ('k, 'v) hashmap \<Rightarrow> bool" where
  "hm_eq a b \<longleftrightarrow> list_all (\<lambda>(k, _). map_of a k = map_of b k) (a @ b)"

lemma hm_eq_iff: "hm_eq a b \<longleftrightarrow> map_of a = map_of b"
proof
  assume h: "hm_eq a b"
  show "map_of a = map_of b"
  proof
    fix k
    show "map_of a k = map_of b k"
    proof (cases "k \<in> fst ` set (a @ b)")
      case True
      then show ?thesis using h by (auto simp: hm_eq_def list_all_iff)
    next
      case False
      then have "map_of a k = None" "map_of b k = None" by (auto simp: map_of_eq_None_iff)
      then show ?thesis by simp
    qed
  qed
qed (auto simp: hm_eq_def list_all_iff)

definition node_eq :: "node \<Rightarrow> node \<Rightarrow> bool" where
  "node_eq a b \<longleftrightarrow>
    hm_eq (n_inbounds a) (n_inbounds b) \<and> hm_eq (n_weights a) (n_weights b)
    \<and> (case (n_pool_translation a, n_pool_translation b) of
         (None, None) \<Rightarrow> True | (Some x, Some y) \<Rightarrow> hm_eq x y | _ \<Rightarrow> False)
    \<and> a\<lparr>n_inbounds := [], n_weights := [], n_pool_translation := None\<rparr>
      = b\<lparr>n_inbounds := [], n_weights := [], n_pool_translation := None\<rparr>"

lemma node_eq_refl [simp]: "node_eq n n"
  by (simp add: node_eq_def hm_eq_iff split: option.split)

lemma node_eq_key: "node_eq a b \<Longrightarrow> n_uuid a = n_uuid b \<and> n_env a = n_env b"
proof -
  assume "node_eq a b"
  then have e: "a\<lparr>n_inbounds := [], n_weights := [], n_pool_translation := None\<rparr>
      = b\<lparr>n_inbounds := [], n_weights := [], n_pool_translation := None\<rparr>"
    by (simp add: node_eq_def)
  show ?thesis using arg_cong[OF e, of n_uuid] arg_cong[OF e, of n_env] by simp
qed

section \<open>The nodes of the api\<close>

type_synonym nodes = "(env, node list) hashmap"

fun put_node :: "node \<Rightarrow> node list \<Rightarrow> node list \<times> status" where
  "put_node new [] = ([new], St_Ok (n_uuid new))"
| "put_node new (n # ns) =
     (if n_uuid n = n_uuid new
      then if node_eq n new then (n # ns, St_AlreadyExist (n_uuid new))
           else (new # ns, St_Updated (n_uuid new))
      else let (ns', st) = put_node new ns in (n # ns', st))"

definition nodes_add :: "node \<Rightarrow> nodes \<Rightarrow> nodes \<times> status" where
  "nodes_add new m =
    (case map_of m (n_env new) of
       Some ns \<Rightarrow> (let (ns', st) = put_node new ns in (AList.update (n_env new) ns' m, st))
     | None \<Rightarrow> (AList.update (n_env new) [new] m, St_Ok (n_uuid new)))"

definition iter_nodes :: "nodes \<Rightarrow> (uuid \<times> node) list" where
  "iter_nodes m = map (\<lambda>n. (n_uuid n, n)) (concat (hm_values m))"

definition nodes_get :: "nodes \<Rightarrow> env \<Rightarrow> uuid \<Rightarrow> node option" where
  "nodes_get m e u = Option.bind (map_of m e) (List.find (\<lambda>n. n_uuid n = u))"

definition nodes_get_by_env :: "nodes \<Rightarrow> env \<Rightarrow> node list option" where
  "nodes_get_by_env m e = map_of m e"

definition nodes_get_by_id :: "nodes \<Rightarrow> uuid \<Rightarrow> node option" where
  "nodes_get_by_id m u = List.find (\<lambda>n. n_uuid n = u) (concat (hm_values m))"

definition nodes_get_by_cluster :: "nodes \<Rightarrow> string \<Rightarrow> node list" where
  "nodes_get_by_cluster m c = filter (\<lambda>n. n_cluster n = Some c) (concat (hm_values m))"

definition nodes_all :: "nodes \<Rightarrow> node list option" where
  "nodes_all m = none_if_empty (concat (hm_values m))"

text \<open>\<open>sort\<close> and \<open>dedup\<close> of the cluster names; \<open>dedup\<close> drops equal neighbours.\<close>

fun dedup :: "'a list \<Rightarrow> 'a list" where
  "dedup [] = []"
| "dedup [x] = [x]"
| "dedup (x # y # xs) = (if x = y then dedup (y # xs) else x # dedup (y # xs))"

definition nodes_all_clusters :: "nodes \<Rightarrow> string list" where
  "nodes_all_clusters m = dedup (sort (List.map_filter n_cluster (concat (hm_values m))))"

text \<open>\<open>retain\<close> in every environment; the environments that become empty are dropped.\<close>

definition nodes_remove :: "uuid \<Rightarrow> nodes \<Rightarrow> nodes \<times> node option" where
  "nodes_remove u m =
    (let gone = filter (\<lambda>n. n_uuid n = u) (concat (hm_values m));
         kept = map (\<lambda>(e, ns). (e, ns, filter (\<lambda>n. n_uuid n \<noteq> u) ns)) m
     in (List.map_filter (\<lambda>(e, ns, ns'). if ns' = [] \<and> ns \<noteq> [] then None else Some (e, ns')) kept,
         if gone = [] then None else Some (last gone)))"

section \<open>The subscriptions of the api\<close>

type_synonym subscriptions = "(uuid, subscription) hashmap"

definition subs_find :: "subscriptions \<Rightarrow> uuid \<Rightarrow> subscription option" where
  "subs_find m u = map_of m u"

definition subs_find_by_refer_code :: "subscriptions \<Rightarrow> string \<Rightarrow> subscription option" where
  "subs_find_by_refer_code m code = List.find (\<lambda>s. refer_code s = code) (hm_values m)"

definition subs_find_by_premium_token :: "subscriptions \<Rightarrow> string \<Rightarrow> subscription option" where
  "subs_find_by_premium_token m token =
    List.find (\<lambda>s. case sub_premium_token s of Some t \<Rightarrow> t = token | None \<Rightarrow> False) (hm_values m)"

definition subs_find_by_parent_id :: "subscriptions \<Rightarrow> uuid \<Rightarrow> subscription list" where
  "subs_find_by_parent_id m p = filter (\<lambda>s. sub_parent_id s = Some p) (hm_values m)"

definition subs_exist_refer_code :: "subscriptions \<Rightarrow> string \<Rightarrow> bool" where
  "subs_exist_refer_code m code = list_ex (\<lambda>s. refer_code s = code) (hm_values m)"

definition subs_all :: "subscriptions \<Rightarrow> subscription list" where
  "subs_all m = hm_values m"

definition subs_add :: "subscription \<Rightarrow> subscriptions \<Rightarrow> subscriptions \<times> status" where
  "subs_add s m =
    (case map_of m (sub_id s) of
       Some x \<Rightarrow> if x = s then (m, St_AlreadyExist (sub_id s))
                  else (AList.update (sub_id s) s m, St_Updated (sub_id s))
     | None \<Rightarrow> (AList.update (sub_id s) s m, St_Ok (sub_id s)))"

definition subs_delete :: "uuid \<Rightarrow> subscriptions \<Rightarrow> subscriptions" where
  "subs_delete u m = AList.delete u m"

definition subs_update :: "subscription \<Rightarrow> subscriptions \<Rightarrow> subscriptions" where
  "subs_update s m = AList.update (sub_id s) s m"

section \<open>Upsert stores\<close>

text \<open>
  The contract that the subscriptions and the nodes share: \<open>add\<close> inserts a value under its own key,
  keeps the one that is there when it is equal and replaces it otherwise, and says which it did.
\<close>

locale upsert_store =
  fixes wf :: "'s \<Rightarrow> bool"
    and key :: "'v \<Rightarrow> 'k"
    and ident :: "'k \<Rightarrow> uuid"
    and same :: "'v \<Rightarrow> 'v \<Rightarrow> bool"
    and get :: "'s \<Rightarrow> 'k \<Rightarrow> 'v option"
    and add :: "'v \<Rightarrow> 's \<Rightarrow> 's \<times> status"
  assumes wf_add: "wf s \<Longrightarrow> wf (fst (add v s))"
    and get_add: "wf s \<Longrightarrow> get (fst (add v s)) k =
      (if k \<noteq> key v then get s k
       else case get s k of None \<Rightarrow> Some v | Some x \<Rightarrow> if same x v then Some x else Some v)"
    and status_add: "wf s \<Longrightarrow> snd (add v s) =
      (case get s (key v) of
         None \<Rightarrow> St_Ok (ident (key v))
       | Some x \<Rightarrow> if same x v then St_AlreadyExist (ident (key v)) else St_Updated (ident (key v)))"
    and same_refl: "same v v"
begin

lemma get_add_same: "wf s \<Longrightarrow> \<exists>x. get (fst (add v s)) (key v) = Some x \<and> same x v"
  by (cases "get s (key v)") (auto simp: get_add same_refl)

lemma add_again: "wf s \<Longrightarrow>
  snd (add v (fst (add v s))) = St_AlreadyExist (ident (key v)) \<and> get (fst (add v (fst (add v s)))) = get (fst (add v s))"
proof -
  assume wf: "wf s"
  then obtain x where "get (fst (add v s)) (key v) = Some x" "same x v" using get_add_same by blast
  then show ?thesis
    using status_add[OF wf_add[OF wf], of v v] get_add[OF wf_add[OF wf], of v v] by auto
qed

lemma wf_fold_add: "wf s \<Longrightarrow> wf (fold (\<lambda>v s. fst (add v s)) vs s)"
  by (induction vs arbitrary: s) (auto simp: wf_add)

lemma get_fold_add_other: "wf s \<Longrightarrow> k \<notin> key ` set vs \<Longrightarrow> get (fold (\<lambda>v s. fst (add v s)) vs s) k = get s k"
  by (induction vs arbitrary: s) (auto simp: wf_add get_add)

lemma get_fold_add: "wf s \<Longrightarrow> v \<in> set vs \<Longrightarrow> distinct (map key vs) \<Longrightarrow>
  \<exists>x. get (fold (\<lambda>v s. fst (add v s)) vs s) (key v) = Some x \<and> same x v"
proof (induction vs arbitrary: s)
  case (Cons w vs)
  show ?case
  proof (cases "v = w")
    case True
    then have "key v \<notin> key ` set vs" using Cons.prems(3) by auto
    then show ?thesis using Cons.prems(1) True get_add_same[of s w] by (simp add: wf_add get_fold_add_other)
  next
    case False
    then show ?thesis using Cons.IH[of "fst (add w s)"] Cons.prems by (auto simp: wf_add)
  qed
qed simp

end

interpretation sub_store: upsert_store "\<lambda>m. hm_wf m" sub_id id "(=)" subs_find subs_add
  by unfold_locales (auto simp: subs_find_def subs_add_def split: option.splits)

text \<open>
  The nodes of the api: every node is filed under its environment, and no two nodes of one
  environment have the same id.
\<close>

definition nodes_wf :: "nodes \<Rightarrow> bool" where
  "nodes_wf m \<longleftrightarrow> hm_wf m
    \<and> list_all (\<lambda>(e, ns). ns \<noteq> [] \<and> distinct (map n_uuid ns) \<and> list_all (\<lambda>n. n_env n = e) ns) m"

definition node_key :: "node \<Rightarrow> env \<times> uuid" where
  "node_key n = (n_env n, n_uuid n)"

definition nodes_get_key :: "nodes \<Rightarrow> env \<times> uuid \<Rightarrow> node option" where
  "nodes_get_key m k = nodes_get m (fst k) (snd k)"

lemma find_put_node:
  "List.find (\<lambda>n. n_uuid n = u) (fst (put_node new ns)) =
     (if u \<noteq> n_uuid new then List.find (\<lambda>n. n_uuid n = u) ns
      else case List.find (\<lambda>n. n_uuid n = u) ns of
             None \<Rightarrow> Some new | Some x \<Rightarrow> if node_eq x new then Some x else Some new)"
  by (induction ns) (auto simp: Let_def split: prod.splits option.splits)

lemma status_put_node:
  "snd (put_node new ns) =
     (case List.find (\<lambda>n. n_uuid n = n_uuid new) ns of
        None \<Rightarrow> St_Ok (n_uuid new)
      | Some x \<Rightarrow> if node_eq x new then St_AlreadyExist (n_uuid new) else St_Updated (n_uuid new))"
  by (induction ns) (auto simp: Let_def split: prod.splits)

lemma uuids_put_node: "n_uuid ` set (fst (put_node new ns)) = insert (n_uuid new) (n_uuid ` set ns)"
  by (induction ns) (auto simp: Let_def split: prod.splits)

lemma put_node_wf:
  "distinct (map n_uuid ns) \<Longrightarrow> list_all (\<lambda>n. n_env n = e) ns \<Longrightarrow> n_env new = e \<Longrightarrow>
   fst (put_node new ns) \<noteq> [] \<and> distinct (map n_uuid (fst (put_node new ns)))
   \<and> list_all (\<lambda>n. n_env n = e) (fst (put_node new ns))"
proof (induction ns)
  case (Cons n ns)
  then show ?case
    using uuids_put_node[of new ns] by (auto simp: Let_def split: prod.splits)
qed simp

lemma nodes_wf_lookup:
  "nodes_wf m \<Longrightarrow> map_of m e = Some ns \<Longrightarrow> ns \<noteq> [] \<and> distinct (map n_uuid ns) \<and> list_all (\<lambda>n. n_env n = e) ns"
  using map_of_SomeD[of m e ns] by (auto simp: nodes_wf_def list_all_iff)

lemma nodes_wf_update:
  assumes "nodes_wf m" "ns \<noteq> []" "distinct (map n_uuid ns)" "list_all (\<lambda>n. n_env n = e) ns"
  shows "nodes_wf (AList.update e ns m)"
proof -
  have hm: "hm_wf m" using assms(1) by (simp add: nodes_wf_def)
  have "ns' \<noteq> [] \<and> distinct (map n_uuid ns') \<and> list_all (\<lambda>n. n_env n = e') ns'"
    if "(e', ns') \<in> set (AList.update e ns m)" for e' ns'
  proof -
    have "map_of (AList.update e ns m) e' = Some ns'"
      using that hm_mem_iff[OF hm_wf_update[OF hm]] by blast
    then show ?thesis using assms nodes_wf_lookup[of m e' ns'] by (cases "e' = e") auto
  qed
  then show ?thesis using hm by (auto simp: nodes_wf_def list_all_iff)
qed

lemma nodes_wf_add: "nodes_wf m \<Longrightarrow> nodes_wf (fst (nodes_add new m))"
proof -
  assume wf: "nodes_wf m"
  show ?thesis
  proof (cases "map_of m (n_env new)")
    case None
    then show ?thesis using wf by (simp add: nodes_add_def nodes_wf_update)
  next
    case (Some ns)
    then show ?thesis
      using wf nodes_wf_lookup[OF wf Some] put_node_wf[of ns "n_env new" new]
      by (auto simp: nodes_add_def Let_def nodes_wf_update split: prod.splits)
  qed
qed

interpretation node_store: upsert_store nodes_wf node_key snd node_eq nodes_get_key nodes_add
proof unfold_locales
  fix s v k
  assume "nodes_wf s"
  show "nodes_get_key (fst (nodes_add v s)) k =
      (if k \<noteq> node_key v then nodes_get_key s k
       else case nodes_get_key s k of None \<Rightarrow> Some v | Some x \<Rightarrow> if node_eq x v then Some x else Some v)"
  proof (cases "map_of s (n_env v)")
    case None
    then show ?thesis
      by (cases k) (auto simp: nodes_add_def nodes_get_key_def nodes_get_def node_key_def)
  next
    case (Some ns)
    have e: "fst (nodes_add v s) = AList.update (n_env v) (fst (put_node v ns)) s"
      using Some by (simp add: nodes_add_def Let_def split: prod.split)
    show ?thesis
      unfolding e using Some
      by (cases k) (auto simp: nodes_get_key_def nodes_get_def node_key_def find_put_node split: option.splits)
  qed
next
  fix s v
  assume "nodes_wf s"
  show "snd (nodes_add v s) =
      (case nodes_get_key s (node_key v) of
         None \<Rightarrow> St_Ok (snd (node_key v))
       | Some x \<Rightarrow> if node_eq x v then St_AlreadyExist (snd (node_key v)) else St_Updated (snd (node_key v)))"
  proof (cases "map_of s (n_env v)")
    case None
    then show ?thesis by (simp add: nodes_add_def nodes_get_key_def nodes_get_def node_key_def)
  next
    case (Some ns)
    have "snd (nodes_add v s) = snd (put_node v ns)"
      using Some by (simp add: nodes_add_def Let_def split: prod.split)
    then show ?thesis
      using Some by (simp add: status_put_node nodes_get_key_def nodes_get_def node_key_def split: option.split)
  qed
qed (simp_all add: nodes_wf_add)

text \<open>Removal takes the id out of every environment and leaves the other nodes.\<close>

lemma map_of_filter_envs:
  "hm_wf m \<Longrightarrow>
   map_of (List.map_filter (\<lambda>(e, ns, ns'). if ns' = [] \<and> ns \<noteq> [] then None else Some (e, ns'))
            (map (\<lambda>(e, ns). (e, ns, filter P ns)) m)) e
   = (case map_of m e of
        None \<Rightarrow> None
      | Some ns \<Rightarrow> if filter P ns = [] \<and> ns \<noteq> [] then None else Some (filter P ns))"
proof (induction m)
  case (Cons x m)
  obtain e' ns where x: "x = (e', ns)" by (cases x)
  show ?case
  proof (cases "e = e'")
    case True
    then have "map_of m e = None" using Cons.prems x by (auto simp: map_of_eq_None_iff)
    then show ?thesis using Cons True x by (auto simp: List.map_filter_simps)
  next
    case False
    then show ?thesis using Cons x by (auto simp: List.map_filter_simps)
  qed
qed (simp add: List.map_filter_simps)

lemma nodes_remove_fst:
  "hm_wf m \<Longrightarrow> map_of (fst (nodes_remove u m)) e
   = (case map_of m e of
        None \<Rightarrow> None
      | Some ns \<Rightarrow> if filter (\<lambda>n. n_uuid n \<noteq> u) ns = [] \<and> ns \<noteq> [] then None
                    else Some (filter (\<lambda>n. n_uuid n \<noteq> u) ns))"
  by (simp add: nodes_remove_def Let_def map_of_filter_envs)

lemma find_filter_other: "List.find (\<lambda>n. n_uuid n = v) (filter (\<lambda>n. n_uuid n \<noteq> u) ns) =
  (if v = u then None else List.find (\<lambda>n. n_uuid n = v) ns)"
  by (induction ns) auto

lemma nodes_remove_get:
  assumes "hm_wf m"
  shows "nodes_get (fst (nodes_remove u m)) e v = (if v = u then None else nodes_get m e v)"
proof (cases "map_of m e")
  case None
  then show ?thesis by (simp add: nodes_get_def nodes_remove_fst[OF assms])
next
  case (Some ns)
  let ?f = "filter (\<lambda>n. n_uuid n \<noteq> u) ns"
  have "List.find (\<lambda>n. n_uuid n = v) ?f = None" if "?f = []" using that by simp
  then show ?thesis
    using Some find_filter_other[of v u ns] by (auto simp: nodes_get_def nodes_remove_fst[OF assms])
qed

lemma nodes_remove_keys: "map fst (fst (nodes_remove u m)) = map fst (filter (\<lambda>(e, ns). ns = [] \<or> filter (\<lambda>n. n_uuid n \<noteq> u) ns \<noteq> []) m)"
  by (induction m) (auto simp: nodes_remove_def Let_def List.map_filter_simps)

lemma nodes_wf_remove: "nodes_wf m \<Longrightarrow> nodes_wf (fst (nodes_remove u m))"
proof -
  assume wf: "nodes_wf m"
  then have hm: "hm_wf m" by (simp add: nodes_wf_def)
  have hm': "hm_wf (fst (nodes_remove u m))"
    unfolding nodes_remove_keys using hm by (simp add: distinct_map_filter)
  have "ns \<noteq> [] \<and> distinct (map n_uuid ns) \<and> list_all (\<lambda>n. n_env n = e) ns"
    if "(e, ns) \<in> set (fst (nodes_remove u m))" for e ns
  proof -
    have "map_of (fst (nodes_remove u m)) e = Some ns" using that hm_mem_iff[OF hm'] by blast
    then obtain ns0 where n: "map_of m e = Some ns0" "ns = filter (\<lambda>n. n_uuid n \<noteq> u) ns0" "ns \<noteq> [] \<or> ns0 = []"
      by (auto simp: nodes_remove_fst[OF hm] split: option.splits if_splits)
    then show ?thesis
      using nodes_wf_lookup[OF wf n(1)] by (auto simp: distinct_map_filter list_all_iff)
  qed
  then show ?thesis using hm' by (auto simp: nodes_wf_def list_all_iff)
qed

text \<open>
  A node that registers under another environment is filed there as well: the entry under the
  old environment stays.
\<close>

lemma nodes_add_keeps_old_env:
  "nodes_wf m \<Longrightarrow> nodes_get m e u = Some n \<Longrightarrow> n_env new \<noteq> e \<Longrightarrow> nodes_get (fst (nodes_add new m)) e u = Some n"
  using node_store.get_add[of m new "(e, u)"] by (auto simp: node_key_def nodes_get_key_def)

section \<open>Weights\<close>

lemma map_of_weights:
  "map_of (weights_by_ip n) ip = (if ip \<in> set (entry_ips n) then Some (weight_for n ip) else None)"
proof -
  have "map_of (fold (\<lambda>ip m. AList.update ip (f ip) m) ips m) ip
      = (if ip \<in> set ips then Some (f ip) else map_of m ip)" for f :: "string \<Rightarrow> int" and ips m
    by (induction ips arbitrary: m) auto
  then show ?thesis by (simp add: weights_by_ip_def)
qed

lemma weight_for_pos: "0 < weight_for n ip"
  by (simp add: weight_for_def DEFAULT_NODE_WEIGHT_def split: option.split)

lemma entry_ips_nonempty: "entry_ips n \<noteq> []"
  by (simp add: entry_ips_def split: option.split)

end
