(* ===== verification/Metric_Store.thy ===== *)
theory Metric_Store
  imports Node_Store Complex_Main
begin

text \<open>
  The metrics kept in memory, \<^verbatim>\<open>src/metrics/storage.rs\<close>: the storage of the api with its index of series by tag,
  and the buffer of a node that batches samples and entry observations.

  Values are \<^verbatim>\<open>f64\<close> in the code and real numbers here, so rounding is not modelled; counters below 2 to the 53 are
  exact in both. The hash of a series comes from the standard library's hasher, whose output is unspecified: it is a
  parameter, and two series with the same hash share their key as in the code. Maps are iterated in their order,
  sets of hashes in the order of the hashes.
\<close>

section \<open>State\<close>

record point =
  pt_ts :: int
  pt_val :: real

type_synonym tags = "(string \<times> string) list"
type_synonym hasher = "string \<Rightarrow> tags \<Rightarrow> 64 word"

record metric_envelope =
  me_node :: uuid
  me_name :: string
  me_value :: real
  me_ts :: int
  me_tags :: tags

record metric_storage =
  mt_inner :: "(uuid, (64 word, point list) hashmap) hashmap"
  mt_meta :: "(64 word, string \<times> tags) hashmap"
  mt_index :: "(string, (string, 64 word set) hashmap) hashmap"
  mt_max_points :: nat
  mt_retention :: int

definition storage_new :: "nat \<Rightarrow> int \<Rightarrow> metric_storage" where
  "storage_new max_points retention_seconds =
    \<lparr> mt_inner = [], mt_meta = [], mt_index = [], mt_max_points = max_points, mt_retention = retention_seconds \<rparr>"

definition or_default :: "'b \<Rightarrow> ('a, 'b) hashmap \<Rightarrow> 'a \<Rightarrow> 'b" where
  "or_default d m k = (case map_of m k of Some v \<Rightarrow> v | None \<Rightarrow> d)"

section \<open>Insertion\<close>

definition index_tag ::
  "64 word \<Rightarrow> string \<times> string \<Rightarrow> (string, (string, 64 word set) hashmap) hashmap
   \<Rightarrow> (string, (string, 64 word set) hashmap) hashmap" where
  "index_tag key tv m =
    (case tv of (k, v) \<Rightarrow>
       let inner = or_default [] m k in AList.update k (AList.update v (insert key (or_default {} inner v)) inner) m)"

definition trim_series :: "nat \<Rightarrow> int \<Rightarrow> point list \<Rightarrow> point list" where
  "trim_series max_points min_ts ps = dropWhile (\<lambda>p. pt_ts p < min_ts) (drop (length ps - max_points) ps)"

definition insert_envelope :: "hasher \<Rightarrow> metric_envelope \<Rightarrow> metric_storage \<Rightarrow> metric_storage" where
  "insert_envelope make_series_key e st =
    (let key = make_series_key (me_name e) (me_tags e);
         st1 = (case map_of (mt_meta st) key of
                  Some _ \<Rightarrow> st
                | None \<Rightarrow> st\<lparr>mt_index := fold (index_tag key) (me_tags e) (mt_index st),
                             mt_meta := AList.update key (me_name e, me_tags e) (mt_meta st)\<rparr>);
         node_map = or_default [] (mt_inner st1) (me_node e);
         series = or_default [] node_map key @ [\<lparr> pt_ts = me_ts e, pt_val = me_value e \<rparr>];
         min_ts = wrap64 (me_ts e - wrap64 (mt_retention st * 1000))
     in st1\<lparr>mt_inner := AList.update (me_node e)
               (AList.update key (trim_series (mt_max_points st) min_ts series) node_map) (mt_inner st1)\<rparr>)"

section \<open>Queries\<close>

definition metric_name :: "metric_storage \<Rightarrow> 64 word \<Rightarrow> string option" where
  "metric_name st h = map_option fst (map_of (mt_meta st) h)"

definition hashes_with :: "metric_storage \<Rightarrow> string \<times> string \<Rightarrow> 64 word set" where
  "hashes_with st tv = (case tv of (k, v) \<Rightarrow> or_default {} (or_default [] (mt_index st) k) v)"

definition series_for :: "string option \<Rightarrow> tags \<Rightarrow> metric_storage \<Rightarrow> 64 word set" where
  "series_for metric tags st =
    (let result = fold (\<lambda>tv acc. case acc of None \<Rightarrow> Some (hashes_with st tv) | Some prev \<Rightarrow> Some (prev \<inter> hashes_with st tv))
                    tags None;
         hs = (case result of None \<Rightarrow> {} | Some s \<Rightarrow> s)
     in case metric of
          None \<Rightarrow> hs
        | Some m \<Rightarrow> Set.filter (\<lambda>h. metric_name st h = Some m) hs)"

definition latest_sum :: "string option \<Rightarrow> tags \<Rightarrow> metric_storage \<Rightarrow> real" where
  "latest_sum metric tags st =
    sum_list (map (\<lambda>(_, nm). \<Sum>h\<in>series_for metric tags st.
      case map_of nm h of None \<Rightarrow> 0 | Some ps \<Rightarrow> if ps = [] then 0 else pt_val (last ps)) (mt_inner st))"

definition window :: "int \<Rightarrow> int \<Rightarrow> point list \<Rightarrow> point list" where
  "window from to ps = filter (\<lambda>p. pt_ts p \<ge> from \<and> pt_ts p \<le> to) ps"

definition window_delta :: "int \<Rightarrow> int \<Rightarrow> point list \<Rightarrow> real" where
  "window_delta from to ps =
    (case window from to ps of [] \<Rightarrow> 0 | p # qs \<Rightarrow> max 0 (pt_val (last (p # qs)) - pt_val p))"

definition delta_sum :: "string option \<Rightarrow> tags \<Rightarrow> int \<Rightarrow> int \<Rightarrow> metric_storage \<Rightarrow> real" where
  "delta_sum metric tags from to st =
    sum_list (map (\<lambda>(_, nm). \<Sum>h\<in>series_for metric tags st.
      case map_of nm h of None \<Rightarrow> 0 | Some ps \<Rightarrow> window_delta from to ps) (mt_inner st))"

definition query_points :: "string option \<Rightarrow> tags \<Rightarrow> int \<Rightarrow> int \<Rightarrow> metric_storage \<Rightarrow> (uuid, point list) hashmap" where
  "query_points metric tags from to st =
    List.map_filter (\<lambda>(u, nm).
      let ps = concat (map (\<lambda>h. window from to (or_default [] nm h)) (sorted_list_of_set (series_for metric tags st)))
      in if ps = [] then None else Some (u, sort_key pt_ts ps)) (mt_inner st)"

definition get_range :: "uuid \<Rightarrow> 64 word \<Rightarrow> int \<Rightarrow> int \<Rightarrow> metric_storage \<Rightarrow> point list" where
  "get_range u h from to st = window from to (or_default [] (or_default [] (mt_inner st) u) h)"

definition series_named :: "(string \<Rightarrow> bool) \<Rightarrow> uuid \<Rightarrow> metric_storage \<Rightarrow> (64 word \<times> point list) list" where
  "series_named P u st =
    filter (\<lambda>(h, _). case metric_name st h of Some n \<Rightarrow> P n | None \<Rightarrow> False) (or_default [] (mt_inner st) u)"

definition last_point :: "point list \<Rightarrow> point option" where
  "last_point ps = (if ps = [] then None else Some (last ps))"

definition get_last_heartbeat :: "uuid \<Rightarrow> metric_storage \<Rightarrow> int option" where
  "get_last_heartbeat u st =
    fold (\<lambda>(_, ps) latest. case last_point ps of
            None \<Rightarrow> latest
          | Some p \<Rightarrow> (case latest of None \<Rightarrow> Some (pt_ts p) | Some cur \<Rightarrow> Some (max cur (pt_ts p))))
      (series_named (\<lambda>n. n = ''sys.heartbeat'') u st) None"

definition node_series_values :: "(string \<Rightarrow> bool) \<Rightarrow> uuid \<Rightarrow> metric_storage \<Rightarrow> real list" where
  "node_series_values P u st = List.map_filter (\<lambda>(_, ps). map_option pt_val (last_point ps)) (series_named P u st)"

definition node_latest_value :: "string \<Rightarrow> uuid \<Rightarrow> metric_storage \<Rightarrow> real option" where
  "node_latest_value metric u st =
    (case node_series_values (\<lambda>n. n = metric) u st of [] \<Rightarrow> None | v # _ \<Rightarrow> Some v)"

text \<open>\<open>f64::round\<close> rounds halves away from zero; a cast to \<open>u64\<close> truncates and saturates.\<close>

definition f64_round :: "real \<Rightarrow> real" where
  "f64_round x = (if x \<ge> 0 then of_int \<lfloor>x + 1 / 2\<rfloor> else - of_int \<lfloor>- x + 1 / 2\<rfloor>)"

definition as_u64 :: "real \<Rightarrow> 64 word" where
  "as_u64 x = (if x \<le> 0 then 0 else of_int (min \<lfloor>x\<rfloor> (2 ^ 64 - 1)))"

definition node_cpu_avg :: "uuid \<Rightarrow> metric_storage \<Rightarrow> real option" where
  "node_cpu_avg u st =
    (let values = node_series_values (\<lambda>n. starts_with n ''sys.cpu.'') u st in
     if values = [] then None
     else Some (f64_round (sum_list values / real (length values) * 100) / 100))"

definition node_memory :: "uuid \<Rightarrow> metric_storage \<Rightarrow> 64 word option \<times> 64 word option" where
  "node_memory u st =
    (map_option (\<lambda>v. as_u64 (max v 0)) (node_latest_value ''sys.mem_used'' u st),
     map_option (\<lambda>v. as_u64 (max v 0)) (node_latest_value ''sys.mem_total'' u st))"

definition strip_suffix :: "string \<Rightarrow> string \<Rightarrow> string option" where
  "strip_suffix suf s = map_option rev (strip_prefix (rev suf) (rev s))"

definition disk_mount :: "string \<Rightarrow> string option" where
  "disk_mount n = Option.bind (strip_prefix ''sys.disk.'' n) (strip_suffix ''.usage_percent'')"

definition node_disks :: "uuid \<Rightarrow> metric_storage \<Rightarrow> (string \<times> real) list" where
  "node_disks u st =
    sort_key fst (List.map_filter (\<lambda>(h, ps).
      Option.bind (metric_name st h) (\<lambda>n. Option.bind (disk_mount n) (\<lambda>mount.
        map_option (\<lambda>p. (mount, pt_val p)) (last_point ps)))) (or_default [] (mt_inner st) u))"

definition node_disk_usage :: "uuid \<Rightarrow> string \<Rightarrow> metric_storage \<Rightarrow> real option" where
  "node_disk_usage u mount st = node_latest_value (''sys.disk.'' @ mount @ ''.usage_percent'') u st"

definition net_metric :: "string \<Rightarrow> string \<Rightarrow> bool" where
  "net_metric kind n = (case split_on (CHR ''.'') n of [a, _, c] \<Rightarrow> a = ''net'' \<and> c = kind | _ \<Rightarrow> False)"

definition node_network_traffic :: "uuid \<Rightarrow> metric_storage \<Rightarrow> real option \<times> real option" where
  "node_network_traffic u st =
    (let rx = node_series_values (net_metric ''rx_bps'') u st; tx = node_series_values (net_metric ''tx_bps'') u st
     in (if rx = [] then None else Some (sum_list rx), if tx = [] then None else Some (sum_list tx)))"

definition ONLINE_PEER_FRESH_MS :: int where "ONLINE_PEER_FRESH_MS = 180000"

definition node_online_peers :: "int \<Rightarrow> uuid \<Rightarrow> metric_storage \<Rightarrow> real option" where
  "node_online_peers now u st =
    (let since = now - ONLINE_PEER_FRESH_MS; seen = series_named (\<lambda>n. n = ''user.traffic.online'') u st
     in if seen = [] then None
        else Some (real (length (filter (\<lambda>(_, ps). case last_point ps of None \<Rightarrow> False
                                          | Some p \<Rightarrow> pt_ts p \<ge> since \<and> pt_val p \<ge> 1 / 2) seen))))"

definition node_series_avg_window :: "int \<Rightarrow> uuid \<Rightarrow> (string \<Rightarrow> bool) \<Rightarrow> int \<Rightarrow> metric_storage \<Rightarrow> real list" where
  "node_series_avg_window now u P window_ms st =
    (let since = now - window_ms in
     List.map_filter (\<lambda>(_, ps).
       let recent = takeWhile (\<lambda>p. \<not> pt_ts p < since) (rev ps)
       in if recent = [] then None else Some (sum_list (map pt_val recent) / real (length recent)))
     (series_named P u st))"

definition sum_metric :: "string \<Rightarrow> tags \<Rightarrow> metric_storage \<Rightarrow> 64 word" where
  "sum_metric metric tags st =
    sum_list (map (\<lambda>(_, nm). \<Sum>h\<in>series_for (Some metric) tags st.
      case map_of nm h of None \<Rightarrow> 0 | Some ps \<Rightarrow> if ps = [] then 0 else as_u64 (max 0 (pt_val (last ps) - pt_val (hd ps))))
      (mt_inner st))"

text \<open>The printed form of a UUID is a parameter.\<close>

definition conn_tags :: "(uuid \<Rightarrow> string) \<Rightarrow> uuid \<Rightarrow> tags" where
  "conn_tags show_uuid u = [(''conn_id'', show_uuid u)]"

definition sub_tags :: "(uuid \<Rightarrow> string) \<Rightarrow> uuid \<Rightarrow> tags" where
  "sub_tags show_uuid u = [(''subscription_id'', show_uuid u)]"

definition get_connection_total_traffic :: "(uuid \<Rightarrow> string) \<Rightarrow> uuid \<Rightarrow> metric_storage \<Rightarrow> 64 word \<times> 64 word" where
  "get_connection_total_traffic show_uuid u st =
    (sum_metric ''user.traffic.uplink'' (conn_tags show_uuid u) st,
     sum_metric ''user.traffic.downlink'' (conn_tags show_uuid u) st)"

definition get_subscription_total_traffic :: "(uuid \<Rightarrow> string) \<Rightarrow> uuid \<Rightarrow> metric_storage \<Rightarrow> 64 word \<times> 64 word" where
  "get_subscription_total_traffic show_uuid u st =
    (sum_metric ''user.traffic.uplink'' (sub_tags show_uuid u) st,
     sum_metric ''user.traffic.downlink'' (sub_tags show_uuid u) st)"

definition latest_value_sum :: "string \<Rightarrow> tags \<Rightarrow> metric_storage \<Rightarrow> 64 word" where
  "latest_value_sum metric tags st = as_u64 (max 0 (latest_sum (Some metric) tags st))"

definition get_connection_online_count :: "(uuid \<Rightarrow> string) \<Rightarrow> uuid \<Rightarrow> metric_storage \<Rightarrow> 64 word" where
  "get_connection_online_count show_uuid u st = latest_value_sum ''user.traffic.online'' (conn_tags show_uuid u) st"

definition get_subscription_online_count :: "(uuid \<Rightarrow> string) \<Rightarrow> uuid \<Rightarrow> metric_storage \<Rightarrow> 64 word" where
  "get_subscription_online_count show_uuid u st = latest_value_sum ''user.traffic.online'' (sub_tags show_uuid u) st"

definition get_connection_delta_traffic ::
  "(uuid \<Rightarrow> string) \<Rightarrow> uuid \<Rightarrow> int \<Rightarrow> int \<Rightarrow> metric_storage \<Rightarrow> 64 word \<times> 64 word" where
  "get_connection_delta_traffic show_uuid u from to st =
    (as_u64 (delta_sum (Some ''user.traffic.uplink'') (conn_tags show_uuid u) from to st),
     as_u64 (delta_sum (Some ''user.traffic.downlink'') (conn_tags show_uuid u) from to st))"

definition keep_last :: "point list \<Rightarrow> point list" where
  "keep_last ps = drop (length ps - 1) ps"

definition reset_subscription_series :: "(uuid \<Rightarrow> string) \<Rightarrow> uuid \<Rightarrow> metric_storage \<Rightarrow> metric_storage" where
  "reset_subscription_series show_uuid u st =
    (let hs = hashes_with st (''subscription_id'', show_uuid u)
     in st\<lparr>mt_inner := map (\<lambda>(n, nm). (n, map (\<lambda>(h, ps). (h, if h \<in> hs then keep_last ps else ps)) nm)) (mt_inner st)\<rparr>)"

section \<open>The buffer of a node\<close>

record entry_envelope =
  ee_node :: uuid
  ee_conn :: uuid
  ee_sub :: "uuid option"
  ee_proto :: string
  ee_ip :: string
  ee_ts :: int

record metric_buffer =
  mb_batch :: "metric_envelope list"
  mb_entries :: "entry_envelope list"
  mb_entry_seen :: "(uuid, string \<times> int) hashmap"

definition buffer_push :: "int \<Rightarrow> uuid \<Rightarrow> string \<Rightarrow> real \<Rightarrow> tags \<Rightarrow> metric_buffer \<Rightarrow> metric_buffer" where
  "buffer_push now u name value tags b =
    b\<lparr>mb_batch := mb_batch b @ [\<lparr> me_node = u, me_name = name, me_value = value, me_ts = now, me_tags = tags \<rparr>]\<rparr>"

definition ENTRY_REFRESH_MS :: int where "ENTRY_REFRESH_MS = 30 * 60 * 1000"

definition push_entry ::
  "int \<Rightarrow> uuid \<Rightarrow> uuid \<Rightarrow> uuid option \<Rightarrow> string \<Rightarrow> string \<Rightarrow> metric_buffer \<Rightarrow> metric_buffer" where
  "push_entry now u conn_id sid proto ip b =
    (let again = (case map_of (mb_entry_seen b) conn_id of
                    Some (last_ip, last_ms) \<Rightarrow> last_ip = ip \<and> now - last_ms < ENTRY_REFRESH_MS
                  | None \<Rightarrow> False)
     in if again then b
        else b\<lparr>mb_entry_seen := AList.update conn_id (ip, now) (mb_entry_seen b),
               mb_entries := mb_entries b @ [\<lparr> ee_node = u, ee_conn = conn_id, ee_sub = sid, ee_proto = proto, ee_ip = ip, ee_ts = now \<rparr>]\<rparr>)"

text \<open>
  A flush takes the batch and, when the batch was not empty, the entries; what a failed publication held is lost.
\<close>

definition flush_to_zmq :: "metric_buffer \<Rightarrow> metric_buffer \<times> metric_envelope list \<times> entry_envelope list" where
  "flush_to_zmq b =
    (if mb_batch b = [] then (b, [], []) else (b\<lparr>mb_batch := [], mb_entries := []\<rparr>, mb_batch b, mb_entries b))"

definition prom_char :: "char \<Rightarrow> bool" where
  "prom_char c \<longleftrightarrow> (CHR ''0'' \<le> c \<and> c \<le> CHR ''9'') \<or> (CHR ''a'' \<le> c \<and> c \<le> CHR ''z'') \<or> (CHR ''A'' \<le> c \<and> c \<le> CHR ''Z'')
     \<or> c = CHR '':'' \<or> c = CHR ''_''"

definition sanitize_prometheus_name :: "string \<Rightarrow> string" where
  "sanitize_prometheus_name name =
    (case name of
       [] \<Rightarrow> ''metric''
     | c # _ \<Rightarrow> (if is_digit c then ''_'' else []) @ map (\<lambda>c. if prom_char c then c else CHR ''_'') name)"

definition escape_prometheus_label :: "string \<Rightarrow> string" where
  "escape_prometheus_label v =
    concat (map (\<lambda>c. if c = CHR 0x5C then [CHR 0x5C, CHR 0x5C] else if c = CHR 0x22 then [CHR 0x5C, CHR 0x22]
                      else if c = CHR 0x0A then [CHR 0x5C, CHR ''n''] else [c]) v)"

definition format_prometheus_labels :: "tags \<Rightarrow> string" where
  "format_prometheus_labels tags =
    (if tags = [] then []
     else ''{'' @ join_with '','' (map (\<lambda>(k, v). sanitize_prometheus_name k @ ''='' @ [CHR 0x22]
            @ escape_prometheus_label v @ [CHR 0x22]) tags) @ ''}'')"

text \<open>The printed form of a number is a parameter; the tags are kept in the order of their keys.\<close>

definition to_prometheus :: "(real \<Rightarrow> string) \<Rightarrow> (uuid \<Rightarrow> string) \<Rightarrow> uuid \<Rightarrow> metric_buffer \<Rightarrow> string" where
  "to_prometheus show_f64 show_uuid u b =
    concat (map (\<lambda>e. sanitize_prometheus_name (me_name e)
      @ format_prometheus_labels (sort_key fst (AList.update ''node_id'' (show_uuid u) (me_tags e)))
      @ '' '' @ show_f64 (me_value e) @ [newline]) (mb_batch b))"

section \<open>The index\<close>

text \<open>A hash is indexed under exactly the tags of its series.\<close>

definition index_ok :: "metric_storage \<Rightarrow> bool" where
  "index_ok st \<longleftrightarrow>
    (\<forall>h tv. h \<in> hashes_with st tv \<longleftrightarrow> (\<exists>n ts. map_of (mt_meta st) h = Some (n, ts) \<and> tv \<in> set ts))"

lemma hashes_with_index_tag:
  "hashes_with (st\<lparr>mt_index := index_tag key t (mt_index st)\<rparr>) tv = hashes_with st tv \<union> (if tv = t then {key} else {})"
  by (auto simp: hashes_with_def index_tag_def or_default_def Let_def split: prod.splits option.splits)

lemma hashes_with_index_tags:
  "hashes_with (st\<lparr>mt_index := fold (index_tag key) ts (mt_index st)\<rparr>) tv = hashes_with st tv \<union> (if tv \<in> set ts then {key} else {})"
proof (induction ts arbitrary: st)
  case (Cons t ts)
  have "hashes_with (st\<lparr>mt_index := fold (index_tag key) ts (index_tag key t (mt_index st))\<rparr>) tv
      = hashes_with (st\<lparr>mt_index := index_tag key t (mt_index st)\<rparr>) tv \<union> (if tv \<in> set ts then {key} else {})"
    using Cons[of "st\<lparr>mt_index := index_tag key t (mt_index st)\<rparr>"] by simp
  then show ?case by (auto simp: hashes_with_index_tag)
qed simp

lemma hashes_with_cong: "mt_index st = mt_index st' \<Longrightarrow> hashes_with st tv = hashes_with st' tv"
  by (simp add: hashes_with_def)

lemma index_ok_insert:
  assumes "index_ok st"
  shows "index_ok (insert_envelope hash e st)"
proof -
  let ?key = "hash (me_name e) (me_tags e)"
  let ?st = "insert_envelope hash e st"
  show ?thesis
  proof (cases "map_of (mt_meta st) ?key")
    case (Some m)
    then have "mt_index ?st = mt_index st" "mt_meta ?st = mt_meta st" by (simp_all add: insert_envelope_def Let_def)
    then show ?thesis using assms hashes_with_cong[of ?st st] by (simp add: index_ok_def)
  next
    case None
    have i: "mt_index ?st = fold (index_tag ?key) (me_tags e) (mt_index st)"
      and m: "map_of (mt_meta ?st) = (map_of (mt_meta st))(?key \<mapsto> (me_name e, me_tags e))"
      using None by (simp_all add: insert_envelope_def Let_def)
    have "hashes_with ?st tv = hashes_with st tv \<union> (if tv \<in> set (me_tags e) then {?key} else {})" for tv
      using hashes_with_cong[of ?st "st\<lparr>mt_index := fold (index_tag ?key) (me_tags e) (mt_index st)\<rparr>" tv] i
      by (simp add: hashes_with_index_tags)
    then show ?thesis using assms None by (auto simp: index_ok_def m)
  qed
qed

lemma index_ok_new: "index_ok (storage_new n r)"
  by (simp add: index_ok_def storage_new_def hashes_with_def or_default_def split: prod.split)

lemma index_ok_reset: "index_ok st \<Longrightarrow> index_ok (reset_subscription_series show_uuid u st)"
  by (simp add: index_ok_def reset_subscription_series_def Let_def hashes_with_def)

lemma series_for_fold:
  "fold (\<lambda>tv acc. case acc of None \<Rightarrow> Some (f tv) | Some prev \<Rightarrow> Some (prev \<inter> f tv)) ts (Some s)
    = Some (s \<inter> (\<Inter>tv\<in>set ts. f tv))"
  by (induction ts arbitrary: s) auto

lemma series_for_tags: "tags \<noteq> [] \<Longrightarrow> series_for None tags st = (\<Inter>tv\<in>set tags. hashes_with st tv)"
  by (cases tags) (simp_all add: series_for_def series_for_fold)

lemma series_for_name: "series_for (Some m) tags st = Set.filter (\<lambda>h. metric_name st h = Some m) (series_for None tags st)"
  by (simp add: series_for_def Let_def)

text \<open>
  C15: The tag index of the metrics is exact. After any sequence of samples, asking for a non-empty set of tags,
  with or without a metric name, returns exactly the series whose recorded tags include all of them and whose
  recorded name is the one asked for.
\<close>

theorem series_for_exact:
  assumes "st = fold (insert_envelope hash) es (storage_new max_points retention)" "tags \<noteq> []"
  shows "series_for metric tags st =
    {h. \<exists>n ts. map_of (mt_meta st) h = Some (n, ts) \<and> set tags \<subseteq> set ts \<and> (case metric of None \<Rightarrow> True | Some m \<Rightarrow> m = n)}"
proof -
  have "index_ok (fold (insert_envelope hash) es s)" if "index_ok s" for s
    using that by (induction es arbitrary: s) (auto simp: index_ok_insert)
  then have ok: "index_ok st" using assms(1) index_ok_new by simp
  obtain t where "t \<in> set tags" using assms(2) by (cases tags) auto
  have "(\<forall>tv\<in>set tags. h \<in> hashes_with st tv) \<longleftrightarrow> (\<exists>n ts. map_of (mt_meta st) h = Some (n, ts) \<and> set tags \<subseteq> set ts)" for h
  proof -
    have i: "h \<in> hashes_with st tv \<longleftrightarrow> (\<exists>n ts. map_of (mt_meta st) h = Some (n, ts) \<and> tv \<in> set ts)" for tv
      using ok unfolding index_ok_def by blast
    show ?thesis unfolding i using \<open>t \<in> set tags\<close> by (cases t rule: prod.exhaust; cases "map_of (mt_meta st) h") auto
  qed
  then have n: "series_for None tags st = {h. \<exists>n ts. map_of (mt_meta st) h = Some (n, ts) \<and> set tags \<subseteq> set ts}"
    unfolding series_for_tags[OF assms(2)] by (simp add: set_eq_iff)
  show ?thesis
  proof (cases metric)
    case (Some m)
    show ?thesis unfolding Some series_for_name n by (simp add: metric_name_def set_eq_iff) fastforce
  qed (simp add: n)
qed

definition demo_hash :: hasher where
  "demo_hash n ts = of_nat (length n)"

definition demo_sample :: "string \<Rightarrow> tags \<Rightarrow> metric_envelope" where
  "demo_sample n ts = \<lparr> me_node = 1, me_name = n, me_value = 5, me_ts = 10, me_tags = ts \<rparr>"

theorem series_for_exact_witness:
  "let st = fold (insert_envelope demo_hash) [demo_sample ''up'' [(''conn_id'', ''a''), (''env'', ''ru'')], demo_sample ''heartbeat'' []]
              (storage_new 10 60)
   in [(''conn_id'', ''a'')] \<noteq> [] \<and> series_for (Some ''up'') [(''conn_id'', ''a'')] st =
     {h. \<exists>n ts. map_of (mt_meta st) h = Some (n, ts) \<and> set [(''conn_id'', ''a'')] \<subseteq> set ts
        \<and> (case Some ''up'' of None \<Rightarrow> True | Some m \<Rightarrow> m = n)}"
  using series_for_exact[OF refl, of "[(''conn_id'', ''a'')]" "Some ''up''" demo_hash
      "[demo_sample ''up'' [(''conn_id'', ''a''), (''env'', ''ru'')], demo_sample ''heartbeat'' []]" 10 60]
  unfolding Let_def by simp

section \<open>Bounds and windows\<close>

lemma trim_series_length: "length (trim_series n t ps) \<le> n"
proof -
  have "length (trim_series n t ps) \<le> length (drop (length ps - n) ps)" unfolding trim_series_def by (rule length_dropWhile_le)
  then show ?thesis by simp
qed

definition within_bounds :: "metric_storage \<Rightarrow> bool" where
  "within_bounds st \<longleftrightarrow> (\<forall>u nm h ps. map_of (mt_inner st) u = Some nm \<longrightarrow> map_of nm h = Some ps \<longrightarrow> length ps \<le> mt_max_points st)"

lemma within_bounds_insert: "within_bounds st \<Longrightarrow> within_bounds (insert_envelope hash e st)"
  by (auto simp: within_bounds_def insert_envelope_def Let_def or_default_def trim_series_length split: option.splits if_splits)

text \<open>A counter: one sample per time, values that never fall.\<close>

definition counter_series :: "point list \<Rightarrow> bool" where
  "counter_series ps \<longleftrightarrow> sorted_wrt (\<lambda>p q. pt_ts p < pt_ts q \<and> pt_val p \<le> pt_val q) ps"

lemma counter_window: "counter_series ps \<Longrightarrow> counter_series (window a b ps)"
  by (simp add: counter_series_def window_def sorted_wrt_filter)

lemma counter_hd_last:
  assumes "counter_series (p # ps)" "x \<in> set (p # ps)"
  shows "pt_val p \<le> pt_val x" "pt_val x \<le> pt_val (last (p # ps))"
proof -
  show "pt_val p \<le> pt_val x" using assms by (auto simp: counter_series_def)
  show "pt_val x \<le> pt_val (last (p # ps))" using assms
  proof (induction ps arbitrary: p)
    case (Cons q ps)
    have c: "counter_series (q # ps)" "pt_val p \<le> pt_val q" using Cons.prems(1) by (auto simp: counter_series_def)
    show ?case
    proof (cases "x = p")
      case True
      then show ?thesis using Cons.IH[OF c(1)] Cons.prems Cons.IH c by (auto simp: counter_series_def dest: order_trans)
    next
      case False
      then show ?thesis using Cons.IH[OF c(1)] Cons.prems(2) by auto
    qed
  qed simp
qed

lemma counter_order:
  assumes "counter_series ps" "x \<in> set ps" "y \<in> set ps" "pt_ts x \<le> pt_ts y"
  shows "pt_val x \<le> pt_val y"
  using assms by (induction ps) (auto simp: counter_series_def)

lemma window_delta_attained:
  assumes "counter_series ps" "window a b ps \<noteq> []"
  obtains p q where "p \<in> set (window a b ps)" "q \<in> set (window a b ps)" "window_delta a b ps = pt_val q - pt_val p"
proof -
  obtain p qs where w: "window a b ps = p # qs" using assms(2) by (cases "window a b ps") auto
  have "pt_val p \<le> pt_val (last (p # qs))"
    using counter_hd_last(1)[of p qs "last (p # qs)"] counter_window[OF assms(1), of a b] by (simp add: w)
  then have "window_delta a b ps = pt_val (last (p # qs)) - pt_val p" by (simp add: window_delta_def w del: last.simps)
  moreover have "last (p # qs) \<in> set (p # qs)" by (rule last_in_set) simp
  ultimately show ?thesis using that[of p "last (p # qs)"] w by simp
qed

lemma window_delta_bound:
  assumes "counter_series ps" "x \<in> set (window a b ps)" "y \<in> set (window a b ps)"
  shows "pt_val x - pt_val y \<le> window_delta a b ps"
proof -
  obtain p qs where w: "window a b ps = p # qs" using assms(2) by (cases "window a b ps") auto
  note c = counter_window[OF assms(1), of a b, unfolded w]
  show ?thesis
    using counter_hd_last(2)[OF c] counter_hd_last(1)[OF c] assms(2,3) unfolding w window_delta_def
    by (smt (verit) list.simps(5))
qed

lemma window_delta_nonneg: "0 \<le> window_delta a b ps"
  by (simp add: window_delta_def split: list.split)

text \<open>Two adjacent windows never count more than the window they make up.\<close>

lemma window_delta_split:
  assumes c: "counter_series ps" and ab: "a \<le> b" "b \<le> d"
  shows "window_delta a b ps + window_delta b d ps \<le> window_delta a d ps"
proof -
  have sub: "set (window a b ps) \<subseteq> set (window a d ps)" "set (window b d ps) \<subseteq> set (window a d ps)"
    using ab by (auto simp: window_def)
  show ?thesis
  proof (cases "window a b ps = []"; cases "window b d ps = []")
    assume "window a b ps \<noteq> []" "window b d ps \<noteq> []"
    then obtain p q p' q' where 1: "p \<in> set (window a b ps)" "q \<in> set (window a b ps)" "window_delta a b ps = pt_val q - pt_val p"
      and 2: "p' \<in> set (window b d ps)" "q' \<in> set (window b d ps)" "window_delta b d ps = pt_val q' - pt_val p'"
      using window_delta_attained[OF c] by metis
    have "pt_val q \<le> pt_val p'" using counter_order[OF c, of q p'] 1(2) 2(1) by (auto simp: window_def)
    moreover have "pt_val q' - pt_val p \<le> window_delta a d ps" using window_delta_bound[OF c] 1(1) 2(2) sub by blast
    ultimately show ?thesis using 1(3) 2(3) by linarith
  next
    assume "window a b ps \<noteq> []" and e: "window b d ps = []"
    then obtain p q where 1: "p \<in> set (window a b ps)" "q \<in> set (window a b ps)" "window_delta a b ps = pt_val q - pt_val p"
      using window_delta_attained[OF c] by metis
    then show ?thesis using window_delta_bound[OF c, of q a d p] sub e by (auto simp: window_delta_def[of b d])
  next
    assume "window b d ps \<noteq> []" and e: "window a b ps = []"
    then obtain p q where 1: "p \<in> set (window b d ps)" "q \<in> set (window b d ps)" "window_delta b d ps = pt_val q - pt_val p"
      using window_delta_attained[OF c] by metis
    then show ?thesis using window_delta_bound[OF c, of q a d p] sub e by (auto simp: window_delta_def[of a b])
  qed (simp add: window_delta_def[of a b] window_delta_def[of b d] window_delta_nonneg)
qed

text \<open>A window that holds one sample counts nothing.\<close>

lemma window_delta_single: "length (window a b ps) \<le> 1 \<Longrightarrow> window_delta a b ps = 0"
  by (auto simp: window_delta_def split: list.split)

end
