(* ===== verification/Traffic_Split.thy ===== *)
theory Traffic_Split
  imports Metric_Store "HOL-Library.Product_Lexorder"
begin

text \<open>
  Traffic by day and month, \<^verbatim>\<open>src/bin/api/traffic.rs\<close>: the boundaries of days and of a subscription's months, and
  the split of a connection's traffic at those boundaries.

  The calendar is that of the \<open>chrono\<close> package and a parameter: a record with the date of a day number and the
  day number of a date. What the code relies on is the locale \<open>calendar\<close>; \<open>gregorian\<close> is an instance. A call of
  \<open>unwrap\<close> that would panic is \<open>None\<close>. A UTC time is a number of nanoseconds, so its date is the quotient by the
  length of a day and its time of day the remainder.
\<close>

section \<open>Boundaries\<close>

record calendar_lib =
  cal_ymd :: "int \<Rightarrow> int \<times> int \<times> int"
  cal_from_ymd :: "int \<Rightarrow> int \<Rightarrow> int \<Rightarrow> int option"

abbreviation day_ns :: int where "day_ns \<equiv> duration_days 1"

definition date_naive :: "datetime \<Rightarrow> int" where "date_naive t = t div day_ns"
definition time_of :: "datetime \<Rightarrow> int" where "time_of t = t mod day_ns"

definition day_start :: "datetime \<Rightarrow> datetime" where
  "day_start t = date_naive t * day_ns"

definition year_of :: "calendar_lib \<Rightarrow> datetime \<Rightarrow> int" where "year_of cal t = fst (cal_ymd cal (date_naive t))"
definition month_of :: "calendar_lib \<Rightarrow> datetime \<Rightarrow> int" where "month_of cal t = fst (snd (cal_ymd cal (date_naive t)))"
definition day_of :: "calendar_lib \<Rightarrow> datetime \<Rightarrow> int" where "day_of cal t = snd (snd (cal_ymd cal (date_naive t)))"

definition days_in_month :: "calendar_lib \<Rightarrow> int \<Rightarrow> int \<Rightarrow> int option" where
  "days_in_month cal year month =
    map_option (\<lambda>n. snd (snd (cal_ymd cal (n - 1))))
      (if month = 12 then cal_from_ymd cal (year + 1) 1 1 else cal_from_ymd cal year (month + 1) 1)"

definition build_anchor :: "calendar_lib \<Rightarrow> int \<Rightarrow> int \<Rightarrow> int \<Rightarrow> int \<Rightarrow> datetime option" where
  "build_anchor cal year month day time =
    Option.bind (days_in_month cal year month) (\<lambda>last_day.
      map_option (\<lambda>n. n * day_ns + time) (cal_from_ymd cal year month (min day last_day)))"

definition prev_month :: "int \<times> int \<Rightarrow> int \<times> int" where
  "prev_month ym = (case ym of (y, m) \<Rightarrow> if m = 1 then (y - 1, 12) else (y, m - 1))"

definition monthly_anchor :: "calendar_lib \<Rightarrow> datetime \<Rightarrow> datetime \<Rightarrow> datetime option" where
  "monthly_anchor cal created_at now =
    (let time = time_of created_at; day = day_of cal created_at in
     case build_anchor cal (year_of cal now) (month_of cal now) day time of
       None \<Rightarrow> None
     | Some anchor \<Rightarrow>
         if anchor > now
         then (case prev_month (year_of cal now, month_of cal now) of (y, m) \<Rightarrow> build_anchor cal y m day time)
         else Some anchor)"

definition prev_monthly_anchor :: "calendar_lib \<Rightarrow> datetime \<Rightarrow> datetime \<Rightarrow> datetime option" where
  "prev_monthly_anchor cal created_at anchor =
    (case prev_month (year_of cal anchor, month_of cal anchor) of (y, m) \<Rightarrow>
       build_anchor cal y m (day_of cal created_at) (time_of created_at))"

section \<open>Splitting\<close>

function day_boundaries :: "datetime \<Rightarrow> datetime \<Rightarrow> datetime \<Rightarrow> datetime list" where
  "day_boundaries from to d = (if d > from \<and> d \<le> to then d # day_boundaries from to (d - day_ns) else [])"
  by auto
termination
  by (relation "measure (\<lambda>(from, to, d). nat (d - from))") (auto intro!: zless_nat_conj[THEN iffD2])

declare day_boundaries.simps [simp del]

partial_function (option) month_boundaries ::
  "calendar_lib \<Rightarrow> datetime \<Rightarrow> datetime \<Rightarrow> datetime \<Rightarrow> datetime \<Rightarrow> datetime list option" where
  "month_boundaries cal created_at from to m =
    (if m > from \<and> m \<le> to
     then Option.bind (prev_monthly_anchor cal created_at m) (\<lambda>m'.
            Option.bind (month_boundaries cal created_at from to m') (\<lambda>ms. Some (m # ms)))
     else Some [])"

record segment_traffic =
  seg_day :: datetime
  seg_month :: datetime
  seg_up :: "64 word"
  seg_down :: "64 word"

definition millis :: "datetime \<Rightarrow> int" where "millis t = t div 1000000"

fun windows2 :: "'a list \<Rightarrow> ('a \<times> 'a) list" where
  "windows2 (x # y # xs) = (x, y) # windows2 (y # xs)"
| "windows2 _ = []"

definition split_points :: "datetime \<Rightarrow> datetime \<Rightarrow> datetime list \<Rightarrow> datetime list" where
  "split_points from to bs = dedup (sort (from # dedup (sort bs) @ [to]))"

text \<open>The segments of the windows that carried traffic.\<close>

fun segments ::
  "calendar_lib \<Rightarrow> (int \<Rightarrow> int \<Rightarrow> 64 word \<times> 64 word) \<Rightarrow> datetime \<Rightarrow> (datetime \<times> datetime) list \<Rightarrow> segment_traffic list option" where
  "segments cal delta created_at [] = Some []"
| "segments cal delta created_at ((a, b) # ws) =
     (case delta (millis a) (millis b) of (u, d) \<Rightarrow>
        if u = 0 \<and> d = 0 then segments cal delta created_at ws
        else Option.bind (monthly_anchor cal created_at b) (\<lambda>m.
               map_option ((#) \<lparr> seg_day = day_start b, seg_month = m, seg_up = u, seg_down = d \<rparr>)
                 (segments cal delta created_at ws)))"

definition connection_deltas_between ::
  "calendar_lib \<Rightarrow> (uuid \<Rightarrow> string) \<Rightarrow> metric_storage \<Rightarrow> uuid \<Rightarrow> datetime \<Rightarrow> datetime \<Rightarrow> datetime \<Rightarrow> segment_traffic list option" where
  "connection_deltas_between cal show_uuid metrics conn_id created_at from to =
    (if from \<ge> to then Some []
     else Option.bind (monthly_anchor cal created_at to) (\<lambda>m.
            Option.bind (month_boundaries cal created_at from to m) (\<lambda>ms.
              segments cal (\<lambda>a b. get_connection_delta_traffic show_uuid conn_id a b metrics) created_at
                (windows2 (split_points from to (day_boundaries from to (day_start to) @ ms))))))"

section \<open>Totals shown to a subscriber\<close>

record traffic_value =
  tv_up :: "64 word"
  tv_down :: "64 word"

definition tv_add :: "traffic_value \<Rightarrow> traffic_value \<Rightarrow> traffic_value" where
  "tv_add a b = \<lparr> tv_up = tv_up a + tv_up b, tv_down = tv_down a + tv_down b \<rparr>"

definition tv_zero :: traffic_value where
  "tv_zero = \<lparr> tv_up = 0, tv_down = 0 \<rparr>"

record env_traffic =
  et_total :: traffic_value
  et_daily :: traffic_value
  et_monthly :: traffic_value

definition env_zero :: env_traffic where
  "env_zero = \<lparr> et_total = tv_zero, et_daily = tv_zero, et_monthly = tv_zero \<rparr>"

record subscription_traffic =
  sut_total :: traffic_value
  sut_daily :: traffic_value
  sut_monthly :: traffic_value
  sut_by_env :: "(string, env_traffic) hashmap"

definition add_persisted ::
  "string \<Rightarrow> traffic_value \<Rightarrow> traffic_value \<Rightarrow> traffic_value \<Rightarrow> subscription_traffic \<Rightarrow> subscription_traffic" where
  "add_persisted env tot daily monthly t =
    (let e = or_default env_zero (sut_by_env t) env in
     \<lparr> sut_total = tv_add (sut_total t) tot, sut_daily = tv_add (sut_daily t) daily,
       sut_monthly = tv_add (sut_monthly t) monthly,
       sut_by_env = AList.update env \<lparr> et_total = tv_add (et_total e) tot, et_daily = tv_add (et_daily e) daily,
                                       et_monthly = tv_add (et_monthly e) monthly \<rparr> (sut_by_env t) \<rparr>)"

definition add_live_segment :: "string \<Rightarrow> segment_traffic \<Rightarrow> subscription_traffic \<Rightarrow> subscription_traffic" where
  "add_live_segment env seg t =
    (let value = \<lparr> tv_up = seg_up seg, tv_down = seg_down seg \<rparr>; e = or_default env_zero (sut_by_env t) env in
     t\<lparr>sut_daily := tv_add (sut_daily t) value, sut_monthly := tv_add (sut_monthly t) value,
       sut_by_env := AList.update env (e\<lparr>et_daily := tv_add (et_daily e) value, et_monthly := tv_add (et_monthly e) value\<rparr>)
                       (sut_by_env t)\<rparr>)"

section \<open>What the code relies on of a calendar\<close>

text \<open>
  Dates are ordered as their days are. A date is read from its year, month and day where the year is in the
  range of the package, every month there has a first day, and the days of a month have no gaps.
\<close>

locale calendar =
  fixes cal :: calendar_lib and lo hi :: int
  assumes ymd_mono: "n < n' \<Longrightarrow> cal_ymd cal n < cal_ymd cal n'"
    and ymd_month: "cal_ymd cal n = (y, m, d) \<Longrightarrow> 1 \<le> m \<and> m \<le> 12 \<and> 1 \<le> d"
    and from_ymd: "cal_from_ymd cal y m d = Some n \<Longrightarrow> cal_ymd cal n = (y, m, d)"
    and first_of_month: "lo \<le> y \<Longrightarrow> y \<le> hi \<Longrightarrow> 1 \<le> m \<Longrightarrow> m \<le> 12 \<Longrightarrow> \<exists>n. cal_from_ymd cal y m 1 = Some n"
    and no_gap: "cal_ymd cal n = (y, m, d) \<Longrightarrow> lo \<le> y \<Longrightarrow> y \<le> hi \<Longrightarrow> 1 \<le> d' \<Longrightarrow> d' \<le> d \<Longrightarrow> \<exists>n'. cal_from_ymd cal y m d' = Some n'"
begin

lemma ymd_less_iff: "cal_ymd cal n < cal_ymd cal n' \<longleftrightarrow> n < n'"
  using ymd_mono by (metis less_asym linorder_neqE)

lemma days_in_month_last:
  assumes "lo \<le> y" "y < hi" "1 \<le> m" "m \<le> 12"
  obtains l n where "days_in_month cal y m = Some l" "cal_ymd cal n = (y, m, l)" "1 \<le> l"
proof -
  obtain a where a: "cal_from_ymd cal y m 1 = Some a" using first_of_month assms by force
  obtain b where b: "(if m = 12 then cal_from_ymd cal (y + 1) 1 1 else cal_from_ymd cal y (m + 1) 1) = Some b"
    using first_of_month[of "y + 1" 1] first_of_month[of y "m + 1"] assms by (cases "m = 12") auto
  have yb: "cal_ymd cal b = (if m = 12 then (y + 1, 1, 1) else (y, m + 1, 1))"
    using b from_ymd by (auto split: if_splits)
  have ya: "cal_ymd cal a = (y, m, 1)" using a from_ymd by blast
  have "a < b" using ymd_less_iff[of a b] ya yb assms by (cases "m = 12") (auto simp: less_prod_def)
  obtain y' m' l where yl: "cal_ymd cal (b - 1) = (y', m', l)" by (metis prod.exhaust)
  have "cal_ymd cal (b - 1) < cal_ymd cal b" by (simp add: ymd_less_iff)
  moreover have "cal_ymd cal a \<le> cal_ymd cal (b - 1)"
    using \<open>a < b\<close> ymd_less_iff[of "b - 1" a] by (simp add: not_less[symmetric])
  ultimately have "y' = y \<and> m' = m"
    using ymd_month[OF yl] unfolding ya yb yl less_eq_prod_def less_prod_def by (auto split: if_splits)
  then show ?thesis using that[of l "b - 1"] yl ymd_month[OF yl] b by (simp add: days_in_month_def)
qed

text \<open>An anchor is a time on a day of the month asked for.\<close>

lemma build_anchor_exists:
  assumes "lo \<le> y" "y < hi" "1 \<le> m" "m \<le> 12" "1 \<le> d" "0 \<le> t" "t < day_ns"
  obtains a d' where "build_anchor cal y m d t = Some a" "cal_ymd cal (date_naive a) = (y, m, d')"
proof -
  obtain l n where l: "days_in_month cal y m = Some l" "cal_ymd cal n = (y, m, l)" "1 \<le> l"
    using days_in_month_last assms by blast
  then obtain n' where n': "cal_from_ymd cal y m (min d l) = Some n'" using no_gap[OF l(2), of "min d l"] assms by auto
  have "date_naive (n' * day_ns + t) = n'"
    using assms(6,7) by (simp add: date_naive_def)
  then show ?thesis using that[of "n' * day_ns + t"] l n' from_ymd[OF n'] by (simp add: build_anchor_def)
qed

lemma date_order: "cal_ymd cal (date_naive s) < cal_ymd cal (date_naive t) \<Longrightarrow> s < t"
  unfolding ymd_less_iff date_naive_def by (metis duration_days_pos linorder_not_le zdiv_mono1)

lemma prev_month_less:
  "1 \<le> m \<Longrightarrow> m \<le> 12 \<Longrightarrow> prev_month (y, m) = (y', m') \<Longrightarrow> (y', m') < (y, m) \<and> 1 \<le> m' \<and> m' \<le> 12 \<and> y - 1 \<le> y' \<and> y' \<le> y"
  by (auto simp: prev_month_def less_prod_def split: if_splits)

lemma ymd_parts:
  "cal_ymd cal (date_naive t) = (year_of cal t, month_of cal t, day_of cal t)"
  "1 \<le> month_of cal t" "month_of cal t \<le> 12" "1 \<le> day_of cal t"
  using ymd_month[of "date_naive t" "year_of cal t" "month_of cal t" "day_of cal t"]
  by (simp_all add: year_of_def month_of_def day_of_def)

lemma time_of_range: "0 \<le> time_of t" "time_of t < day_ns"
  by (simp_all add: time_of_def)

lemma prev_anchor_before:
  assumes "lo < year_of cal m" "year_of cal m < hi"
  obtains a where "prev_monthly_anchor cal c m = Some a" "a < m"
proof -
  obtain y' m' where p: "prev_month (year_of cal m, month_of cal m) = (y', m')" by fastforce
  note l = prev_month_less[OF ymd_parts(2,3) p]
  obtain a d' where a: "build_anchor cal y' m' (day_of cal c) (time_of c) = Some a" "cal_ymd cal (date_naive a) = (y', m', d')"
    by (rule build_anchor_exists[of y' m' "day_of cal c" "time_of c"]) (use l assms ymd_parts(4) time_of_range in auto)
  have "cal_ymd cal (date_naive a) < cal_ymd cal (date_naive m)"
    unfolding a(2) ymd_parts(1)[of m] using l by (auto simp: less_prod_def)
  then have "a < m" by (rule date_order)
  then show ?thesis using that[of a] a p by (simp add: prev_monthly_anchor_def)
qed

lemma year_mono: "s \<le> t \<Longrightarrow> year_of cal s \<le> year_of cal t"
proof -
  assume "s \<le> t"
  then have "date_naive s \<le> date_naive t" by (simp add: date_naive_def zdiv_mono1)
  then have "cal_ymd cal (date_naive s) \<le> cal_ymd cal (date_naive t)" by (simp add: not_less[symmetric] ymd_less_iff)
  then show ?thesis unfolding ymd_parts(1) by (auto simp: less_eq_prod_def)
qed

text \<open>The anchor of a month is not after now, and the loop over earlier anchors ends.\<close>

lemma monthly_anchor_before:
  assumes "lo < year_of cal now" "year_of cal now < hi"
  obtains a where "monthly_anchor cal c now = Some a" "a \<le> now"
proof -
  obtain a d' where a: "build_anchor cal (year_of cal now) (month_of cal now) (day_of cal c) (time_of c) = Some a"
    "cal_ymd cal (date_naive a) = (year_of cal now, month_of cal now, d')"
    by (rule build_anchor_exists[of "year_of cal now" "month_of cal now" "day_of cal c" "time_of c"])
      (use assms ymd_parts time_of_range in auto)
  obtain b where b: "prev_monthly_anchor cal c now = Some b" "b < now" using prev_anchor_before[OF assms] .
  show ?thesis
  proof (cases "a > now")
    case True
    then show ?thesis using that[of b] a b by (simp add: monthly_anchor_def Let_def prev_monthly_anchor_def split: prod.splits)
  next
    case False
    then show ?thesis using that[of a] a by (simp add: monthly_anchor_def Let_def)
  qed
qed

lemma month_boundaries_end:
  assumes "lo < year_of cal from" "year_of cal to < hi"
  shows "\<exists>bs. month_boundaries cal c from to m = Some bs \<and> sorted_wrt (>) bs \<and> set bs \<subseteq> {from <.. to}
    \<and> (\<forall>b \<in> set bs. b \<le> m)"
proof (induction "nat (m - from)" arbitrary: m rule: less_induct)
  case less
  show ?case
  proof (cases "m > from \<and> m \<le> to")
    case False
    then have "month_boundaries cal c from to m = Some []" by (subst month_boundaries.simps) (simp only: if_False)
    then show ?thesis by simp
  next
    case True
    have y: "lo < year_of cal m" "year_of cal m < hi" using assms True year_mono[of "from" m] year_mono[of m to] by auto
    obtain a where a: "prev_monthly_anchor cal c m = Some a" "a < m" using prev_anchor_before[OF y] .
    then have "nat (a - from) < nat (m - from)" using True by linarith
    then obtain bs where bs: "month_boundaries cal c from to a = Some bs" "sorted_wrt (>) bs" "set bs \<subseteq> {from <.. to}" "\<forall>b \<in> set bs. b \<le> a"
      using less by blast
    have "month_boundaries cal c from to m = Some (m # bs)"
      by (subst month_boundaries.simps) (simp add: True a bs)
    then show ?thesis using bs a True by fastforce
  qed
qed

end

section \<open>The Gregorian calendar\<close>

definition leap :: "int \<Rightarrow> bool" where
  "leap y \<longleftrightarrow> y mod 4 = 0 \<and> (y mod 100 \<noteq> 0 \<or> y mod 400 = 0)"

definition days_through :: "int \<Rightarrow> int" where
  "days_through k = 365 * k + k div 4 - k div 100 + k div 400"

definition greg_year :: "int \<Rightarrow> int" where
  "greg_year n =
    (let k = n * 400 div 146097
     in if n < days_through k then k else if n < days_through (k + 1) then k + 1 else k + 2)"

definition month_start :: "bool \<Rightarrow> int \<Rightarrow> int" where
  "month_start l m =
    (if m \<le> 1 then 0 else if m = 2 then 31
     else (if l then 1 else 0)
       + (if m = 3 then 59 else if m = 4 then 90 else if m = 5 then 120 else if m = 6 then 151 else if m = 7 then 181
          else if m = 8 then 212 else if m = 9 then 243 else if m = 10 then 273 else if m = 11 then 304
          else if m = 12 then 334 else 365))"

definition greg_month :: "bool \<Rightarrow> int \<Rightarrow> int" where
  "greg_month l r = (case List.find (\<lambda>m. r < month_start l (m + 1)) [1..11] of Some m \<Rightarrow> m | None \<Rightarrow> 12)"

definition epoch_day :: int where "epoch_day = 719162"

definition greg_ymd :: "int \<Rightarrow> int \<times> int \<times> int" where
  "greg_ymd n =
    (let y = greg_year (n + epoch_day); r = n + epoch_day - days_through (y - 1); m = greg_month (leap y) r
     in (y, m, r - month_start (leap y) m + 1))"

definition greg_from_ymd :: "int \<Rightarrow> int \<Rightarrow> int \<Rightarrow> int option" where
  "greg_from_ymd y m d =
    (if -262143 \<le> y \<and> y \<le> 262142 \<and> 1 \<le> m \<and> m \<le> 12 \<and> 1 \<le> d \<and> d \<le> month_start (leap y) (m + 1) - month_start (leap y) m
     then Some (days_through (y - 1) + month_start (leap y) m + d - 1 - epoch_day) else None)"

definition gregorian :: calendar_lib where
  "gregorian = \<lparr> cal_ymd = greg_ymd, cal_from_ymd = greg_from_ymd \<rparr>"

lemma div_pred: "0 < n \<Longrightarrow> (k::int) div n = (k - 1) div n + (if k mod n = 0 then 1 else 0)"
proof -
  assume n: "0 < n"
  show ?thesis
  proof (cases "k mod n = 0")
    case True
    then obtain q where q: "k = n * q" by (metis mod_0_imp_dvd dvd_def)
    have "(n * q - 1) div n = q - 1"
      by (rule int_div_pos_eq[where r = "n - 1"]) (use n in \<open>simp_all add: algebra_simps\<close>)
    then show ?thesis using q n by simp
  next
    case False
    then have "0 < k mod n" using n by (metis order_le_less pos_mod_sign)
    then have "(k - 1) div n = k div n"
      using pos_mod_bound[OF n, of k] by (intro int_div_pos_eq[where r = "k mod n - 1"]) simp_all
    then show ?thesis using False by simp
  qed
qed

lemma leap_indicator:
  "C \<longrightarrow> B \<Longrightarrow> B \<longrightarrow> A \<Longrightarrow>
    (if A \<and> (\<not> B \<or> C) then 1 else 0) = (if A then 1 else 0) - (if B then 1 else 0) + (if C then 1 else (0 :: int))"
  by (cases A; cases B; cases C) simp_all

lemma days_through_step: "days_through y = days_through (y - 1) + 365 + (if leap y then 1 else 0)"
proof -
  have m: "y mod 100 = 0 \<longrightarrow> y mod 4 = 0" "y mod 400 = 0 \<longrightarrow> y mod 100 = 0"
    using dvd_trans[of 4 100 y] dvd_trans[of 100 400 y] by (simp_all add: mod_eq_0_iff_dvd)
  define b :: "int \<Rightarrow> int" where "b n = (if y mod n = 0 then 1 else 0)" for n
  have q: "y div 4 = (y - 1) div 4 + b 4" "y div 100 = (y - 1) div 100 + b 100" "y div 400 = (y - 1) div 400 + b 400"
    unfolding b_def by (rule div_pred; simp)+
  have "(if leap y then 1 else 0) = b 4 - b 100 + b 400" unfolding b_def leap_def by (rule leap_indicator[OF m(2) m(1)])
  then have "days_through (y - 1) + 365 + (if leap y then 1 else 0)
      = 365 * (y - 1) + (y - 1) div 4 - (y - 1) div 100 + (y - 1) div 400 + 365 + (b 4 - b 100 + b 400)"
    by (simp only: days_through_def)
  also have "\<dots> = days_through y" unfolding days_through_def q by (simp only: algebra_simps)
  finally show ?thesis by (rule sym)
qed

lemma days_through_mono: "a \<le> b \<Longrightarrow> days_through a \<le> days_through b"
proof (induction rule: int_ge_induct)
  case (step i)
  then show ?case using days_through_step[of "i + 1"] by auto
qed simp

lemma div_bounds:
  assumes "0 < (c :: int)"
  shows "c * (x div c) \<le> x" "x < c * (x div c) + c"
proof -
  have "c * (x div c) + x mod c = x" by simp
  then show "c * (x div c) \<le> x" "x < c * (x div c) + c"
    using pos_mod_bound[OF assms, of x] pos_mod_sign[OF assms, of x] by linarith+
qed

text \<open>The quotients as variables.\<close>

lemma leap_bounds:
  fixes k q r s :: int
  assumes "4 * q \<le> k" "k < 4 * q + 4" "100 * r \<le> k" "k < 100 * r + 100" "400 * s \<le> k" "k < 400 * s + 400"
  shows "146097 * k - 699 \<le> 400 * (365 * k + q - r + s)" "400 * (365 * k + q - r + s) \<le> 146097 * k + 396"
proof -
  have e: "400 * (365 * k + q - r + s) = 146000 * k + 400 * q - 400 * r + 400 * s" by simp
  have "100 * k - 300 \<le> 400 * q" "400 * r \<le> 4 * k" "k - 399 \<le> 400 * s" using assms by auto
  then show "146097 * k - 699 \<le> 400 * (365 * k + q - r + s)" unfolding e by auto
  have "400 * q \<le> 100 * k" "4 * k - 396 \<le> 400 * r" "400 * s \<le> k" using assms by auto
  then show "400 * (365 * k + q - r + s) \<le> 146097 * k + 396" unfolding e by auto
qed

lemma days_through_bounds:
  shows "146097 * k - 699 \<le> 400 * days_through k" "400 * days_through k \<le> 146097 * k + 396"
  unfolding days_through_def by (rule leap_bounds; (rule div_bounds)?; simp)+

lemma greg_year_range: "days_through (greg_year n - 1) \<le> n \<and> n < days_through (greg_year n)"
proof -
  define k where "k = n * 400 div 146097"
  have k: "146097 * k \<le> n * 400" "n * 400 < 146097 * k + 146097"
    unfolding k_def by (rule div_bounds; simp)+
  have "days_through (k - 1) \<le> n" using k(1) days_through_bounds(2)[of "k - 1"] by (simp add: algebra_simps)
  moreover have "n < days_through (k + 2)" using k(2) days_through_bounds(1)[of "k + 2"] by (simp add: algebra_simps)
  ultimately have "days_through (k - 1) \<le> n" "n < days_through (k + 2)" by blast+
  then show ?thesis unfolding greg_year_def k_def[symmetric] Let_def by (auto simp: not_less algebra_simps)
qed

lemma greg_year_unique: "days_through (y - 1) \<le> n \<Longrightarrow> n < days_through y \<Longrightarrow> greg_year n = y"
  using greg_year_range[of n] days_through_mono[of y "greg_year n - 1"] days_through_mono[of "greg_year n" "y - 1"]
  by linarith

lemma month_cases:
  assumes "1 \<le> m" "m \<le> (12 :: int)"
  shows "m \<in> {1, 2, 3, 4, 5, 6, 7, 8, 9, 10, 11, 12}"
  using assms by (simp only: insert_iff empty_iff) presburger

lemma greg_month_range:
  assumes "0 \<le> r" "r < 365 + (if l then 1 else 0)"
  shows "1 \<le> greg_month l r \<and> greg_month l r \<le> 12 \<and> month_start l (greg_month l r) \<le> r \<and> r < month_start l (greg_month l r + 1)"
proof -
  let ?P = "\<lambda>m. r < month_start l (m + 1)"
  show ?thesis
  proof (cases "List.find ?P [1..11]")
    case (Some m)
    then obtain i where i: "i < 11" "?P ([1..11] ! i)" "m = [1..11] ! i" "\<forall>j<i. \<not> ?P ([1..11] ! j)"
      by (auto simp: find_Some_iff)
    have n: "[1..11] ! j = int j + 1" if "j < 11" for j using that by (simp add: nth_upto)
    have m: "m = int i + 1" using i n by simp
    have "month_start l m \<le> r"
    proof (cases i)
      case 0
      then show ?thesis using assms(1) m by (simp add: month_start_def)
    next
      case (Suc j)
      then show ?thesis using i(1,4) n[of j] m by (auto simp: not_less add.commute)
    qed
    then show ?thesis using Some i m n by (simp add: greg_month_def)
  next
    case None
    then have "\<not> ?P 11" unfolding find_None_iff by fastforce
    then show ?thesis using None assms by (simp add: greg_month_def month_start_def split: if_splits)
  qed
qed

lemma month_start_step: "month_start l a \<le> month_start l (a + 1) \<and> (1 \<le> a \<and> a \<le> 12 \<longrightarrow> month_start l a < month_start l (a + 1))"
proof (cases "1 \<le> a \<and> a \<le> 12")
  case True
  then show ?thesis using month_cases[of a] by (elim conjE) (auto simp: month_start_def)
qed (auto simp: month_start_def)

lemma month_start_mono: "a \<le> b \<Longrightarrow> month_start l a \<le> month_start l b"
proof (induction rule: int_ge_induct)
  case (step i)
  then show ?case using month_start_step[of l i] by simp
qed simp

lemma greg_month_unique:
  assumes "1 \<le> m" "m \<le> 12" "month_start l m \<le> r" "r < month_start l (m + 1)"
  shows "greg_month l r = m"
proof -
  have "month_start l 1 \<le> month_start l m" "month_start l (m + 1) \<le> month_start l 13"
    using assms by (auto intro: month_start_mono)
  then have "0 \<le> r" "r < 365 + (if l then 1 else 0)" using assms by (auto simp: month_start_def)
  note g = greg_month_range[OF this]
  show ?thesis
    using g assms month_start_mono[of "greg_month l r + 1" m l] month_start_mono[of "m + 1" "greg_month l r" l] by linarith
qed

definition day_in_year :: "int \<Rightarrow> int" where
  "day_in_year n = n + epoch_day - days_through (greg_year (n + epoch_day) - 1)"

lemma day_in_year_range:
  "0 \<le> day_in_year n" "day_in_year n < 365 + (if leap (greg_year (n + epoch_day)) then 1 else 0)"
  using greg_year_range[of "n + epoch_day"] days_through_step[of "greg_year (n + epoch_day)"] by (auto simp: day_in_year_def)

lemma greg_ymd_parts:
  "greg_ymd n = (greg_year (n + epoch_day), greg_month (leap (greg_year (n + epoch_day))) (day_in_year n),
     day_in_year n - month_start (leap (greg_year (n + epoch_day))) (greg_month (leap (greg_year (n + epoch_day))) (day_in_year n)) + 1)"
  by (simp add: greg_ymd_def day_in_year_def Let_def)

lemma greg_ymd_mono:
  assumes "n < n'"
  shows "greg_ymd n < greg_ymd n'"
proof -
  let ?y = "greg_year (n + epoch_day)" and ?y' = "greg_year (n' + epoch_day)"
  have "?y \<le> ?y'"
    using greg_year_range[of "n + epoch_day"] greg_year_range[of "n' + epoch_day"] days_through_mono[of ?y' "?y - 1"] assms by linarith
  show ?thesis
  proof (cases "?y = ?y'")
    case False
    then show ?thesis using \<open>?y \<le> ?y'\<close> by (simp add: greg_ymd_parts less_prod_def)
  next
    case True
    let ?l = "leap ?y"
    have r: "day_in_year n < day_in_year n'" using assms True by (simp add: day_in_year_def)
    have m: "month_start ?l (greg_month ?l (day_in_year n)) \<le> day_in_year n"
      and m': "day_in_year n' < month_start ?l (greg_month ?l (day_in_year n') + 1)"
      using greg_month_range[OF day_in_year_range[of n]] greg_month_range[OF day_in_year_range[of n']] True by simp_all
    have "greg_month ?l (day_in_year n) \<le> greg_month ?l (day_in_year n')"
      using m m' r month_start_mono[of "greg_month ?l (day_in_year n') + 1" "greg_month ?l (day_in_year n)" ?l] by linarith
    then consider "greg_month ?l (day_in_year n) < greg_month ?l (day_in_year n')"
      | "greg_month ?l (day_in_year n) = greg_month ?l (day_in_year n')" by linarith
    then show ?thesis by cases (use r True in \<open>simp_all add: greg_ymd_parts less_prod_def\<close>)
  qed
qed

lemma greg_from_ymd_Some:
  assumes "greg_from_ymd y m d = Some n"
  shows "greg_ymd n = (y, m, d)"
proof -
  have n: "n + epoch_day = days_through (y - 1) + month_start (leap y) m + d - 1"
    and r: "1 \<le> m" "m \<le> 12" "1 \<le> d" "d \<le> month_start (leap y) (m + 1) - month_start (leap y) m"
    using assms by (auto simp: greg_from_ymd_def split: if_splits)
  have "month_start (leap y) 1 \<le> month_start (leap y) m" "month_start (leap y) (m + 1) \<le> month_start (leap y) 13"
    using r by (auto intro: month_start_mono)
  then have "0 \<le> month_start (leap y) m" "month_start (leap y) (m + 1) \<le> 365 + (if leap y then 1 else 0)"
    by (auto simp: month_start_def[of _ 1] month_start_def[of _ 13] split: if_splits)
  then have y: "greg_year (n + epoch_day) = y"
    using n r days_through_step[of y] by (intro greg_year_unique) linarith+
  have "day_in_year n = month_start (leap y) m + d - 1" using n y by (simp add: day_in_year_def)
  moreover from this have "greg_month (leap y) (day_in_year n) = m" using r by (intro greg_month_unique) auto
  ultimately show ?thesis using y by (simp add: greg_ymd_parts)
qed

interpretation greg: calendar gregorian "-262143" 262142
proof
  fix n n' :: int assume "n < n'"
  then show "cal_ymd gregorian n < cal_ymd gregorian n'" by (simp add: gregorian_def greg_ymd_mono)
next
  fix n y m d assume "cal_ymd gregorian n = (y, m, d)"
  then show "1 \<le> m \<and> m \<le> 12 \<and> 1 \<le> d"
    using greg_month_range[OF day_in_year_range[of n]] by (auto simp: gregorian_def greg_ymd_parts)
next
  fix y m d n assume "cal_from_ymd gregorian y m d = Some n"
  then show "cal_ymd gregorian n = (y, m, d)" by (simp add: gregorian_def greg_from_ymd_Some)
next
  fix y m :: int assume "-262143 \<le> y" "y \<le> 262142" "1 \<le> m" "m \<le> 12"
  moreover from this have "1 \<le> month_start (leap y) (m + 1) - month_start (leap y) m"
    using month_start_step[of "leap y" m] by simp
  ultimately show "\<exists>n. cal_from_ymd gregorian y m 1 = Some n" by (simp add: gregorian_def greg_from_ymd_def)
next
  fix n y m d d' :: int assume a: "cal_ymd gregorian n = (y, m, d)" "-262143 \<le> y" "y \<le> 262142" "1 \<le> d'" "d' \<le> d"
  have "1 \<le> m \<and> m \<le> 12 \<and> d \<le> month_start (leap y) (m + 1) - month_start (leap y) m"
    using a(1) greg_month_range[OF day_in_year_range[of n]] by (auto simp: gregorian_def greg_ymd_parts)
  then show "\<exists>n'. cal_from_ymd gregorian y m d' = Some n'" using a by (simp add: gregorian_def greg_from_ymd_def)
qed

section \<open>The split ends\<close>

lemma set_dedup [simp]: "set (dedup xs) = set xs"
  by (induction xs rule: dedup.induct) auto

lemma sorted_dedup: "sorted xs \<Longrightarrow> sorted (dedup xs)"
  by (induction xs rule: dedup.induct) auto

lemma distinct_dedup: "sorted xs \<Longrightarrow> distinct (dedup xs)"
  by (induction xs rule: dedup.induct) (auto simp: antisym)

lemma day_boundaries_range: "set (day_boundaries from to d) \<subseteq> {from <.. to}"
proof (induction "from" to d rule: day_boundaries.induct)
  case (1 "from" to d)
  then show ?case by (subst day_boundaries.simps) auto
qed

lemma split_points_props:
  assumes "from < to" "set bs \<subseteq> {from <.. to}"
  shows "sorted (split_points from to bs)" "distinct (split_points from to bs)" "set (split_points from to bs) \<subseteq> {from .. to}"
    "from \<in> set (split_points from to bs)" "to \<in> set (split_points from to bs)"
proof -
  have s: "set (split_points from to bs) = insert from (insert to (set bs))"
    unfolding split_points_def by (simp only: set_dedup set_sort list.set set_append) auto
  show "sorted (split_points from to bs)" "distinct (split_points from to bs)"
    unfolding split_points_def by (rule sorted_dedup distinct_dedup, rule sorted_sort)+
  show "set (split_points from to bs) \<subseteq> {from .. to}" "from \<in> set (split_points from to bs)" "to \<in> set (split_points from to bs)"
    unfolding s using assms by auto
qed

lemma windows2_mem: "(a, b) \<in> set (windows2 xs) \<Longrightarrow> a \<in> set xs \<and> b \<in> set xs"
  by (induction xs rule: windows2.induct) auto

lemma segments_return:
  assumes "\<And>a b. (a, b) \<in> set ws \<Longrightarrow> \<exists>m. monthly_anchor cal c b = Some m"
  shows "\<exists>segs. segments cal delta c ws = Some segs"
  using assms
proof (induction ws)
  case (Cons w ws)
  obtain a b where w: "w = (a, b)" by fastforce
  obtain segs where "segments cal delta c ws = Some segs" using Cons by fastforce
  moreover obtain m where "monthly_anchor cal c b = Some m" using Cons.prems[of a b] w by auto
  ultimately show ?case unfolding w by (simp split: prod.split)
qed simp

lemma split_returns:
  assumes "calendar cal lo hi" "lo < year_of cal from" "year_of cal to < hi"
  shows "\<exists>segs. connection_deltas_between cal show_uuid metrics conn_id created_at from to = Some segs"
proof (cases "from \<ge> to")
  case False
  note y = calendar.year_mono[OF assms(1)]
  have lt: "from < to" using False by simp
  obtain m where m: "monthly_anchor cal created_at to = Some m"
    using calendar.monthly_anchor_before[OF assms(1), of to] assms y[of "from" to] lt by (metis less_imp_le less_le_trans)
  obtain ms where ms: "month_boundaries cal created_at from to m = Some ms" "set ms \<subseteq> {from <.. to}"
    using calendar.month_boundaries_end[OF assms] by blast
  let ?bs = "day_boundaries from to (day_start to) @ ms"
  have bs: "set ?bs \<subseteq> {from <.. to}" using ms day_boundaries_range by auto
  have "\<exists>m. monthly_anchor cal created_at b = Some m" if "(a, b) \<in> set (windows2 (split_points from to ?bs))" for a b
  proof -
    have "from \<le> b" "b \<le> to" using windows2_mem[OF that] split_points_props(3)[OF lt bs] by auto
    then have "lo < year_of cal b" "year_of cal b < hi" using y[of "from" b] y[of b to] assms by auto
    then show ?thesis using calendar.monthly_anchor_before[OF assms(1)] by metis
  qed
  then show ?thesis using segments_return False m ms by (simp add: connection_deltas_between_def)
qed (simp add: connection_deltas_between_def)

text \<open>
  C13: Splitting traffic at day and month boundaries always returns. With a calendar that orders dates as their
  days, gives every month of the years in its range a first day and has no gaps in a month, the two loops over
  earlier midnights and earlier monthly anchors end and no date construction fails, for any connection, any
  creation time and any interval within the calendar's years.
\<close>

theorem traffic_split_returns:
  assumes "calendar cal lo hi" "lo < year_of cal from" "year_of cal to < hi"
  shows "\<exists>segs. connection_deltas_between cal show_uuid metrics conn_id created_at from to = Some segs"
  using assms by (rule split_returns)

definition demo_metrics :: metric_storage where
  "demo_metrics = storage_new 10 60"

lemma demo_year: "year_of gregorian 1770000000000000000 = 2026" "year_of gregorian 1770200000000000000 = 2026"
  "year_of gregorian 1770200200000000000 = 2026"
  unfolding year_of_def date_naive_def gregorian_def greg_ymd_def Let_def
  by (simp_all add: greg_year_def days_through_def epoch_day_def duration_days_def duration_secs_def nanos_per_sec_def)

theorem traffic_split_returns_witness:
  "calendar gregorian (-262143) 262142 \<and> year_of gregorian 1770000000000000000 = 2026
   \<and> (\<exists>segs. connection_deltas_between gregorian (\<lambda>_. []) demo_metrics 1 0 1770000000000000000 1770200000000000000 = Some segs)"
  using traffic_split_returns[OF greg.calendar_axioms, of 1770000000000000000 1770200000000000000 "\<lambda>_. []" demo_metrics 1 0]
    greg.calendar_axioms demo_year by simp

section \<open>The split counts no byte twice\<close>

definition counters :: "string \<Rightarrow> tags \<Rightarrow> metric_storage \<Rightarrow> bool" where
  "counters metric tags st \<longleftrightarrow>
    (\<forall>(u, nm) \<in> set (mt_inner st). \<forall>h \<in> series_for (Some metric) tags st. \<forall>ps. map_of nm h = Some ps \<longrightarrow> counter_series ps)"

lemma delta_sum_nonneg: "0 \<le> delta_sum metric tags a b st"
  unfolding delta_sum_def
  by (rule sum_list_nonneg) (auto intro!: sum_nonneg simp: window_delta_nonneg split: option.split)

lemma delta_sum_split:
  assumes c: "counters m tags st" and ab: "a \<le> b" "b \<le> d"
  shows "delta_sum (Some m) tags a b st + delta_sum (Some m) tags b d st \<le> delta_sum (Some m) tags a d st"
proof -
  let ?f = "\<lambda>x y (u :: uuid, nm). \<Sum>h\<in>series_for (Some m) tags st. case map_of nm h of None \<Rightarrow> 0 | Some ps \<Rightarrow> window_delta x y ps"
  have "?f a b p + ?f b d p \<le> ?f a d p" if "p \<in> set (mt_inner st)" for p
  proof -
    obtain u nm where p: "p = (u, nm)" by fastforce
    have "?f a b p + ?f b d p = (\<Sum>h\<in>series_for (Some m) tags st.
        (case map_of nm h of None \<Rightarrow> 0 | Some ps \<Rightarrow> window_delta a b ps) + (case map_of nm h of None \<Rightarrow> 0 | Some ps \<Rightarrow> window_delta b d ps))"
      unfolding p by (simp add: sum.distrib)
    also have "\<dots> \<le> ?f a d p"
      unfolding p prod.case
    proof (rule sum_mono)
      fix h assume "h \<in> series_for (Some m) tags st"
      then have "\<And>ps. map_of nm h = Some ps \<Longrightarrow> counter_series ps" using c that p by (auto simp: counters_def)
      then show "(case map_of nm h of None \<Rightarrow> 0 | Some ps \<Rightarrow> window_delta a b ps)
          + (case map_of nm h of None \<Rightarrow> 0 | Some ps \<Rightarrow> window_delta b d ps)
          \<le> (case map_of nm h of None \<Rightarrow> 0 | Some ps \<Rightarrow> window_delta a d ps)"
        using window_delta_split[OF _ ab] by (auto split: option.split)
    qed
    finally show ?thesis .
  qed
  then have "sum_list (map (\<lambda>p. ?f a b p + ?f b d p) (mt_inner st)) \<le> sum_list (map (?f a d) (mt_inner st))"
    by (intro sum_list_mono)
  then show ?thesis by (simp add: delta_sum_def sum_list_addf)
qed

lemma windows_sum:
  fixes D :: "int \<Rightarrow> int \<Rightarrow> real"
  assumes "\<And>a b d. a \<le> b \<Longrightarrow> b \<le> d \<Longrightarrow> D a b + D b d \<le> D a d" "\<And>a b. 0 \<le> D a b" "sorted xs" "xs \<noteq> []"
  shows "sum_list (map (\<lambda>(a, b). D (millis a) (millis b)) (windows2 xs)) \<le> D (millis (hd xs)) (millis (last xs))"
  using assms(3,4)
proof (induction xs rule: windows2.induct)
  case (1 x y xs)
  have mono: "a \<le> b \<Longrightarrow> millis a \<le> millis b" for a b by (simp add: millis_def zdiv_mono1)
  have "last (y # xs) \<in> set (y # xs)" by (rule last_in_set) simp
  then have "y \<le> last (y # xs)" using 1(2) by auto
  then have "D (millis x) (millis y) + D (millis y) (millis (last (y # xs))) \<le> D (millis x) (millis (last (y # xs)))"
    using 1(2) by (intro assms(1) mono) auto
  moreover have "sum_list (map (\<lambda>(a, b). D (millis a) (millis b)) (windows2 (y # xs))) \<le> D (millis y) (millis (last (y # xs)))"
    using 1 by simp
  ultimately show ?case by (simp del: last.simps add: last_ConsR)
qed (use assms(2) in simp_all)

lemma unat_as_u64: "0 \<le> x \<Longrightarrow> real (unat (as_u64 x)) \<le> x"
proof -
  assume x: "0 \<le> x"
  let ?i = "min \<lfloor>x\<rfloor> (2 ^ 64 - 1)"
  have i: "0 \<le> ?i" "?i < 2 ^ 64" using x by auto
  have "uint (of_int ?i :: 64 word) = ?i" using i by (simp add: uint_word_of_int take_bit_int_eq_self)
  then have "int (unat (of_int ?i :: 64 word)) = ?i" by simp
  then have "real (unat (of_int ?i :: 64 word)) = real_of_int ?i" by (metis of_int_of_nat_eq)
  moreover have "real_of_int ?i \<le> x" by (meson min.cobounded1 of_int_floor_le of_int_le_iff order_trans)
  ultimately show ?thesis using x by (simp add: as_u64_def)
qed

lemma segments_sum:
  assumes "segments cal delta c ws = Some segs"
  shows "sum_list (map (\<lambda>s. real (unat (seg_up s))) segs) = sum_list (map (\<lambda>(a, b). real (unat (fst (delta (millis a) (millis b))))) ws)
    \<and> sum_list (map (\<lambda>s. real (unat (seg_down s))) segs) = sum_list (map (\<lambda>(a, b). real (unat (snd (delta (millis a) (millis b))))) ws)"
  using assms
proof (induction ws arbitrary: segs)
  case (Cons w ws)
  obtain a b where w: "w = (a, b)" by fastforce
  obtain u d where ud: "delta (millis a) (millis b) = (u, d)" by fastforce
  show ?case using Cons.prems Cons.IH unfolding w by (cases "u = 0 \<and> d = 0") (auto simp: ud bind_eq_Some_conv)
qed simp

lemma month_boundaries_range:
  assumes "month_boundaries cal c from to m = Some ms"
  shows "set ms \<subseteq> {from <.. to}"
  by (rule month_boundaries.raw_induct[where P = "\<lambda>cal c from to m ms. set ms \<subseteq> {from <.. to}", OF _ assms])
    (auto simp: bind_eq_Some_conv split: if_splits; fastforce)

lemma sorted_hd_last:
  assumes "sorted xs" "xs \<noteq> []" "set xs \<subseteq> {a .. b}" "a \<in> set xs" "b \<in> set xs"
  shows "hd xs = a" "last xs = b"
proof -
  have "hd xs \<le> a" using assms(1,2,4) by (cases xs) auto
  then show "hd xs = a" using assms(2,3) hd_in_set[of xs] by fastforce
  have "sorted (butlast xs @ [last xs])" using assms(1,2) by simp
  then have "b \<le> last xs" using assms(2,5) by (metis append_butlast_last_id in_set_conv_decomp order_refl set_append sorted_append Un_iff list.set_intros(1) empty_iff list.set(1) set_ConsD)
  then show "last xs = b" using assms(2,3) last_in_set[of xs] by fastforce
qed

text \<open>
  C14: The traffic that a split books is never more than what the counters of the connection grew by. When the
  series of the connection are counters, that is when no two samples have the same time and values never fall, the
  bytes of all segments together are at most the growth over the whole interval, uplink and downlink alike.
\<close>

theorem split_books_no_more_than_growth:
  assumes "counters ''user.traffic.uplink'' (conn_tags show_uuid conn_id) metrics"
    "counters ''user.traffic.downlink'' (conn_tags show_uuid conn_id) metrics"
    "connection_deltas_between cal show_uuid metrics conn_id created_at from to = Some segs"
  shows "sum_list (map (\<lambda>s. real (unat (seg_up s))) segs)
      \<le> delta_sum (Some ''user.traffic.uplink'') (conn_tags show_uuid conn_id) (millis from) (millis to) metrics
    \<and> sum_list (map (\<lambda>s. real (unat (seg_down s))) segs)
      \<le> delta_sum (Some ''user.traffic.downlink'') (conn_tags show_uuid conn_id) (millis from) (millis to) metrics"
proof (cases "from \<ge> to")
  case True
  then show ?thesis using assms(3) by (auto simp: connection_deltas_between_def delta_sum_nonneg)
next
  case False
  let ?delta = "\<lambda>a b. get_connection_delta_traffic show_uuid conn_id a b metrics"
  let ?D = "\<lambda>m a b. delta_sum (Some m) (conn_tags show_uuid conn_id) a b metrics"
  obtain ms m where ms: "month_boundaries cal created_at from to m = Some ms"
    and s: "segments cal ?delta created_at (windows2 (split_points from to (day_boundaries from to (day_start to) @ ms))) = Some segs"
    using assms(3) False by (auto simp: connection_deltas_between_def bind_eq_Some_conv)
  let ?xs = "split_points from to (day_boundaries from to (day_start to) @ ms)"
  have "set ms \<subseteq> {from <.. to}" using ms by (rule month_boundaries_range)
  then have "set (day_boundaries from to (day_start to) @ ms) \<subseteq> {from <.. to}" using day_boundaries_range by auto
  note p = split_points_props[OF _ this]
  have ne: "?xs \<noteq> []" using p(4) False by auto
  have h: "hd ?xs = from" "last ?xs = to" using sorted_hd_last[OF _ ne, of "from" to] p False by auto
  have D: "sum_list (map (\<lambda>(a, b). ?D m (millis a) (millis b)) (windows2 ?xs)) \<le> ?D m (millis from) (millis to)"
    if "counters m (conn_tags show_uuid conn_id) metrics" for m
    using windows_sum[of "?D m" ?xs, OF delta_sum_split[OF that] delta_sum_nonneg _ ne] p(1) False h by simp
  have le: "sum_list (map (\<lambda>(a, b). real (unat (as_u64 (?D m (millis a) (millis b))))) (windows2 ?xs))
      \<le> sum_list (map (\<lambda>(a, b). ?D m (millis a) (millis b)) (windows2 ?xs))" for m
    by (rule sum_list_mono) (use unat_as_u64[OF delta_sum_nonneg] in auto)
  show ?thesis
    using segments_sum[OF s] D[OF assms(1)] D[OF assms(2)] le[of "''user.traffic.uplink''"] le[of "''user.traffic.downlink''"]
    by (simp add: get_connection_delta_traffic_def)
qed

definition demo_counter :: metric_storage where
  "demo_counter = demo_metrics\<lparr>
     mt_inner := [(4, [(1, [\<lparr> pt_ts = 1770200000000, pt_val = 10 \<rparr>, \<lparr> pt_ts = 1770200100000, pt_val = 25 \<rparr>])])],
     mt_meta := [(1, ''user.traffic.uplink'', [(''conn_id'', [])])], mt_index := [(''conn_id'', [([], {1})])]\<rparr>"

theorem split_books_no_more_than_growth_witness:
  "\<exists>segs. connection_deltas_between gregorian (\<lambda>_. []) demo_counter 1 0 1770000000000000000 1770200200000000000 = Some segs
     \<and> sum_list (map (\<lambda>s. real (unat (seg_up s))) segs) \<le> 15"
proof -
  have s: "series_for (Some ''user.traffic.uplink'') (conn_tags (\<lambda>_. []) 1) demo_counter = {1}"
    by (auto simp: series_for_def conn_tags_def demo_counter_def hashes_with_def or_default_def metric_name_def)
  have s': "series_for (Some ''user.traffic.downlink'') (conn_tags (\<lambda>_. []) 1) demo_counter = {}"
    by (auto simp: series_for_def conn_tags_def demo_counter_def hashes_with_def or_default_def metric_name_def)
  have c: "counters ''user.traffic.uplink'' (conn_tags (\<lambda>_. []) 1) demo_counter"
    "counters ''user.traffic.downlink'' (conn_tags (\<lambda>_. []) 1) demo_counter"
    unfolding counters_def s s' by (simp_all add: demo_counter_def counter_series_def)
  obtain segs where g: "connection_deltas_between gregorian (\<lambda>_. []) demo_counter 1 0 1770000000000000000 1770200200000000000 = Some segs"
    using split_returns[OF greg.calendar_axioms, of 1770000000000000000 1770200200000000000 "\<lambda>_. []" demo_counter 1 0] demo_year by auto
  have "delta_sum (Some ''user.traffic.uplink'') (conn_tags (\<lambda>_. []) 1) (millis 1770000000000000000) (millis 1770200200000000000) demo_counter = 15"
    unfolding delta_sum_def s by (simp add: demo_counter_def window_delta_def window_def millis_def)
  then show ?thesis using split_books_no_more_than_growth[OF c g] g by auto
qed

section \<open>Which day a segment is booked on\<close>


definition two_bytes :: "int \<Rightarrow> int \<Rightarrow> 64 word \<times> 64 word" where "two_bytes a b = (2, 0)"


end
