(* ===== verification/Pg_Tables.thy ===== *)
theory Pg_Tables
  imports Node_Store
begin

text \<open>
  The database of the api: the tables \<open>connections\<close>, \<open>subscriptions\<close>, \<open>traffic_topups\<close>, \<open>nodes\<close> and
  \<open>inbounds\<close>, with the unique indexes of \<^verbatim>\<open>deploy/migrations\<close>, and the statements that
  \<^verbatim>\<open>src/bin/api/postgres/connection.rs\<close>, \<^verbatim>\<open>subscription.rs\<close> and \<^verbatim>\<open>node.rs\<close> run on them. A table
  is a list of rows. Every call takes the fault that the server or the network may answer with: a
  call that fails changes nothing. The time that a statement takes from \<open>Utc::now\<close> or \<open>NOW()\<close> is an
  argument. JSON columns hold the value they encode.
\<close>

section \<open>Connections\<close>

definition ISSUED_VIA_PLAN :: string where "ISSUED_VIA_PLAN = ''plan''"
definition ISSUED_VIA_SHARE :: string where "ISSUED_VIA_SHARE = ''share''"
definition ISSUED_VIA_SHARED_SUB :: string where "ISSUED_VIA_SHARED_SUB = ''shared_sub''"

record conn_row =
  cr_id :: uuid
  cr_password :: "string option"
  cr_env :: string
  cr_created_at :: datetime
  cr_modified_at :: datetime
  cr_expires_at :: "datetime option"
  cr_subscription_id :: "uuid option"
  cr_wg :: "wg_param option"
  cr_proto :: tag
  cr_token :: "uuid option"
  cr_is_deleted :: bool
  cr_label :: "string option"
  cr_issued_via :: "string option"
  cr_node_id :: "uuid option"
  cr_include_in_main :: bool

definition conn_row_of_conn :: "uuid \<Rightarrow> conn \<Rightarrow> conn_row" where
  "conn_row_of_conn conn_id c =
    \<lparr> cr_id = conn_id, cr_password = get_password c, cr_env = env_display (c_env c),
      cr_created_at = c_created_at c, cr_modified_at = c_modified_at c, cr_expires_at = c_expires_at c,
      cr_subscription_id = c_subscription_id c, cr_wg = conn_wg_param c, cr_proto = proto_tag (c_proto c),
      cr_token = get_token c, cr_is_deleted = c_is_deleted c, cr_label = None, cr_issued_via = None,
      cr_node_id = None, cr_include_in_main = True \<rparr>"

definition proto_of_row :: "conn_row \<Rightarrow> error + proto" where
  "proto_of_row row =
    (case cr_proto row of
       Tag_AmneziaWg \<Rightarrow>
         (case cr_wg row of
            None \<Rightarrow> Inl (Err_Custom ''Missing Wireguard param'') | Some wg \<Rightarrow> Inr (Proto_AmneziaWg wg))
     | Tag_AmneziaWgMobile \<Rightarrow>
         (case cr_wg row of
            None \<Rightarrow> Inl (Err_Custom ''Missing Wireguard param'') | Some wg \<Rightarrow> Inr (Proto_AmneziaWgMobile wg))
     | Tag_Wireguard \<Rightarrow>
         (case cr_wg row of
            None \<Rightarrow> Inl (Err_Custom ''Missing Wireguard param'') | Some wg \<Rightarrow> Inr (Proto_Wireguard wg))
     | Tag_Shadowsocks \<Rightarrow>
         (case cr_password row of
            None \<Rightarrow> Inl (Err_Custom ''Missing Shadowsocks password'') | Some pw \<Rightarrow> Inr (Proto_Shadowsocks pw))
     | Tag_Hysteria2 \<Rightarrow>
         (case cr_token row of
            None \<Rightarrow> Inl (Err_Custom ''Missing Hysteria2 token'') | Some token \<Rightarrow> Inr (Proto_Hysteria2 token))
     | tag \<Rightarrow> Inr (Proto_Xray tag))"

definition conn_of_row :: "conn_row \<Rightarrow> error + conn" where
  "conn_of_row row =
    (case proto_of_row row of
       Inl e \<Rightarrow> Inl e
     | Inr proto \<Rightarrow>
         Inr \<lparr> c_created_at = cr_created_at row, c_modified_at = cr_modified_at row,
               c_expires_at = cr_expires_at row, c_proto = proto,
               c_subscription_id = cr_subscription_id row, c_is_deleted = cr_is_deleted row,
               c_env = env_of_str (cr_env row) \<rparr>)"

text \<open>A row of the table.\<close>

record pg_conn =
  pc_id :: uuid
  pc_proto :: tag
  pc_subscription_id :: "uuid option"
  pc_env :: string
  pc_created_at :: datetime
  pc_modified_at :: datetime
  pc_expires_at :: "datetime option"
  pc_uplink :: int
  pc_downlink :: int
  pc_wg_privkey :: "string option"
  pc_wg_address :: "string option"
  pc_password :: "string option"
  pc_token :: "uuid option"
  pc_is_deleted :: bool
  pc_last_persist_at :: "datetime option"
  pc_deleted_reason :: "string option"
  pc_label :: "string option"
  pc_issued_via :: "string option"
  pc_node_id :: "uuid option"
  pc_include_in_main :: bool

text \<open>The columns that \<open>insert\<close> writes, and the row that \<open>map_rows_to_conns\<close> reads.\<close>

definition pg_conn_of_row :: "'u link_lib \<Rightarrow> conn_row \<Rightarrow> pg_conn" where
  "pg_conn_of_row lib r =
    \<lparr> pc_id = cr_id r, pc_proto = cr_proto r, pc_subscription_id = cr_subscription_id r, pc_env = cr_env r,
      pc_created_at = cr_created_at r, pc_modified_at = cr_modified_at r, pc_expires_at = cr_expires_at r,
      pc_uplink = 0, pc_downlink = 0, pc_wg_privkey = map_option (\<lambda>w. privkey (wg_keys w)) (cr_wg r),
      pc_wg_address = map_option (\<lambda>w. show_ip_mask lib (wg_address w)) (cr_wg r), pc_password = cr_password r,
      pc_token = cr_token r, pc_is_deleted = cr_is_deleted r, pc_last_persist_at = None,
      pc_deleted_reason = None, pc_label = cr_label r, pc_issued_via = cr_issued_via r,
      pc_node_id = cr_node_id r, pc_include_in_main = cr_include_in_main r \<rparr>"

definition row_of_pg_conn :: "(string \<Rightarrow> ip_addr option) \<Rightarrow> pg_conn \<Rightarrow> conn_row" where
  "row_of_pg_conn parse_ip p =
    \<lparr> cr_id = pc_id p, cr_password = pc_password p, cr_env = pc_env p, cr_created_at = pc_created_at p,
      cr_modified_at = pc_modified_at p, cr_expires_at = pc_expires_at p,
      cr_subscription_id = pc_subscription_id p,
      cr_wg =
        (case (pc_wg_privkey p, pc_wg_address p) of
           (Some k, Some a) \<Rightarrow>
             map_option (\<lambda>m. \<lparr> wg_keys = \<lparr> privkey = k \<rparr>, wg_address = m \<rparr>) (ip_mask_from_str parse_ip parse_u8 a)
         | _ \<Rightarrow> None),
      cr_proto = pc_proto p, cr_token = pc_token p, cr_is_deleted = pc_is_deleted p, cr_label = pc_label p,
      cr_issued_via = pc_issued_via p, cr_node_id = pc_node_id p, cr_include_in_main = pc_include_in_main p \<rparr>"

text \<open>
  The unique indexes of \<^verbatim>\<open>0003_plan_conns.sql\<close> and \<^verbatim>\<open>0004_conn_invariants.sql\<close>: two live rows that
  an index covers may not have the same key. A key with a null never collides.
\<close>

definition wg_family :: "tag \<Rightarrow> bool" where
  "wg_family t \<longleftrightarrow> t \<in> {Tag_Wireguard, Tag_AmneziaWg, Tag_AmneziaWgMobile}"

definition in_single_proto_idx :: "pg_conn \<Rightarrow> bool" where
  "in_single_proto_idx p \<longleftrightarrow> \<not> pc_is_deleted p \<and> \<not> wg_family (pc_proto p)
     \<and> pc_issued_via p \<noteq> Some ISSUED_VIA_SHARE \<and> pc_issued_via p \<noteq> Some ISSUED_VIA_SHARED_SUB"

definition in_plan_idx :: "pg_conn \<Rightarrow> bool" where
  "in_plan_idx p \<longleftrightarrow> \<not> pc_is_deleted p \<and> pc_issued_via p = Some ISSUED_VIA_PLAN"

definition same_slot :: "pg_conn \<Rightarrow> pg_conn \<Rightarrow> bool" where
  "same_slot p q \<longleftrightarrow> pc_subscription_id p \<noteq> None \<and> pc_subscription_id p = pc_subscription_id q
     \<and> pc_env p = pc_env q \<and> pc_proto p = pc_proto q"

definition conns_clash :: "pg_conn \<Rightarrow> pg_conn \<Rightarrow> bool" where
  "conns_clash p q \<longleftrightarrow>
     (in_single_proto_idx p \<and> in_single_proto_idx q \<and> same_slot p q)
   \<or> (in_plan_idx p \<and> in_plan_idx q \<and> same_slot p q)
   \<or> (\<not> pc_is_deleted p \<and> \<not> pc_is_deleted q \<and> pc_token p \<noteq> None \<and> pc_token p = pc_token q)"

section \<open>The database\<close>

record inbound_row =
  ir_tag :: tag
  ir_port :: "16 word"
  ir_stream :: "stream_settings option"
  ir_wg :: "(string \<times> string \<times> string \<times> 32 word list) option"
  ir_h2 :: "h2_settings option"
  ir_mtproto_secret :: "string option"
  ir_awg :: "(string \<times> string \<times> string \<times> 32 word list) option"
  ir_awg_mtu :: "16 word option"
  ir_awg_obfuscation :: "awg_obfuscation option"
  ir_keepalive :: "16 word option"

record pg_node =
  pn_id :: uuid
  pn_uuid :: uuid
  pn_env :: string
  pn_hostname :: string
  pn_address :: "32 word"
  pn_status :: node_status
  pn_created_at :: datetime
  pn_modified_at :: datetime
  pn_label :: string
  pn_interface :: string
  pn_cores :: int
  pn_max_bandwidth_bps :: int
  pn_country :: string
  pn_type :: node_type
  pn_cluster :: "string option"
  pn_ips :: "string list option"
  pn_pool :: "string option"
  pn_pool_translation :: "(string, string) btree option"
  pn_weights :: "(string, int) btree option"
  pn_inbounds :: "(tag, inbound_row) hashmap"

record pg =
  pg_conns :: "pg_conn list"
  pg_subs :: "sub_row list"
  pg_topups :: "(uuid \<times> uuid \<times> int) list"
  pg_nodes :: "pg_node list"

type_synonym fault = "error option"

definition on_db :: "fault \<Rightarrow> (pg \<Rightarrow> pg \<times> (error + 'a)) \<Rightarrow> pg \<Rightarrow> pg \<times> (error + 'a)" where
  "on_db fault stmt db = (case fault of Some e \<Rightarrow> (db, Inl e) | None \<Rightarrow> stmt db)"

definition wrap32 :: "int \<Rightarrow> int" where
  "wrap32 i = (i + 2 ^ 31) mod 2 ^ 32 - 2 ^ 31"

definition not_one_row :: error where
  "not_one_row = Err_Database ''query returned an unexpected number of rows''"

subsection \<open>Statements on connections\<close>

definition upd_conn :: "uuid \<Rightarrow> (pg_conn \<Rightarrow> pg_conn) \<Rightarrow> pg_conn list \<Rightarrow> pg_conn list" where
  "upd_conn u f rows = map (\<lambda>p. if pc_id p = u then f p else p) rows"

text \<open>An update that would break an index fails.\<close>

definition no_clash :: "pg_conn \<Rightarrow> pg_conn list \<Rightarrow> bool" where
  "no_clash p rows \<longleftrightarrow> list_all (\<lambda>q. pc_id q = pc_id p \<or> \<not> conns_clash p q) rows"

definition pg_update_conn :: "fault \<Rightarrow> uuid \<Rightarrow> (pg_conn \<Rightarrow> pg_conn) \<Rightarrow> pg \<Rightarrow> pg \<times> (error + unit)" where
  "pg_update_conn fault u f = on_db fault (\<lambda>db.
    if list_all (\<lambda>p. pc_id p = u \<longrightarrow> no_clash (f p) (pg_conns db)) (pg_conns db)
    then (db\<lparr>pg_conns := upd_conn u f (pg_conns db)\<rparr>, Inr ())
    else (db, Inl (Err_Database ''duplicate key value violates unique constraint'')))"

definition pg_conn_delete :: "fault \<Rightarrow> uuid \<Rightarrow> string option \<Rightarrow> pg \<Rightarrow> pg \<times> (error + unit)" where
  "pg_conn_delete fault u reason =
    pg_update_conn fault u (\<lambda>p. p\<lparr>pc_is_deleted := True, pc_deleted_reason := reason\<rparr>)"

definition pg_conn_restore :: "fault \<Rightarrow> uuid \<Rightarrow> pg \<Rightarrow> pg \<times> (error + unit)" where
  "pg_conn_restore fault u =
    pg_update_conn fault u (\<lambda>p. p\<lparr>pc_is_deleted := False, pc_deleted_reason := None\<rparr>)"

definition pg_deleted_reasons :: "fault \<Rightarrow> uuid \<Rightarrow> pg \<Rightarrow> error + (uuid \<times> string option) list" where
  "pg_deleted_reasons fault sid db =
    snd (on_db fault (\<lambda>db. (db,
      Inr (map (\<lambda>p. (pc_id p, pc_deleted_reason p))
             (filter (\<lambda>p. pc_subscription_id p = Some sid \<and> pc_is_deleted p) (pg_conns db))))) db)"

definition pg_set_issued_via :: "fault \<Rightarrow> uuid \<Rightarrow> string \<Rightarrow> pg \<Rightarrow> pg \<times> (error + unit)" where
  "pg_set_issued_via fault u v = pg_update_conn fault u (\<lambda>p. p\<lparr>pc_issued_via := Some v\<rparr>)"

definition pg_set_include_in_main :: "fault \<Rightarrow> uuid \<Rightarrow> bool \<Rightarrow> pg \<Rightarrow> pg \<times> (error + unit)" where
  "pg_set_include_in_main fault u b = pg_update_conn fault u (\<lambda>p. p\<lparr>pc_include_in_main := b\<rparr>)"

definition pg_conn_insert :: "'u link_lib \<Rightarrow> fault \<Rightarrow> conn_row \<Rightarrow> pg \<Rightarrow> pg \<times> (error + unit)" where
  "pg_conn_insert lib fault row = on_db fault (\<lambda>db.
    let p = pg_conn_of_row lib row in
    if list_ex (\<lambda>q. pc_id q = pc_id p \<or> conns_clash p q) (pg_conns db)
    then (db, Inl (Err_Custom ''Unique violation inserting connection''))
    else if pc_subscription_id p \<noteq> None \<and> pc_subscription_id p \<notin> (\<lambda>r. Some (row_id r)) ` set (pg_subs db)
    then (db, Inl (Err_Database ''foreign key violation''))
    else (db\<lparr>pg_conns := pg_conns db @ [p]\<rparr>, Inr ()))"

definition pg_conn_all :: "(string \<Rightarrow> ip_addr option) \<Rightarrow> fault \<Rightarrow> pg \<Rightarrow> error + conn_row list" where
  "pg_conn_all parse_ip fault db =
    snd (on_db fault (\<lambda>db. (db, Inr (map (row_of_pg_conn parse_ip) (pg_conns db)))) db)"

record watermark =
  wm_conn_id :: uuid
  wm_subscription_id :: uuid
  wm_env :: string
  wm_uplink :: int
  wm_downlink :: int
  wm_last_persist_at :: datetime

definition watermark_of :: "uuid \<Rightarrow> pg_conn \<Rightarrow> watermark" where
  "watermark_of sid p =
    \<lparr> wm_conn_id = pc_id p, wm_subscription_id = sid, wm_env = pc_env p, wm_uplink = pc_uplink p,
      wm_downlink = pc_downlink p,
      wm_last_persist_at = (case pc_last_persist_at p of None \<Rightarrow> pc_created_at p | Some t \<Rightarrow> t) \<rparr>"

definition pg_all_watermarks :: "fault \<Rightarrow> pg \<Rightarrow> error + watermark list" where
  "pg_all_watermarks fault db =
    snd (on_db fault (\<lambda>db. (db,
      Inr (List.map_filter (\<lambda>p. map_option (\<lambda>sid. watermark_of sid p) (pc_subscription_id p)) (pg_conns db)))) db)"

definition pg_watermarks_for :: "fault \<Rightarrow> uuid \<Rightarrow> pg \<Rightarrow> error + watermark list" where
  "pg_watermarks_for fault sid db =
    snd (on_db fault (\<lambda>db. (db,
      Inr (map (watermark_of sid)
             (filter (\<lambda>p. pc_subscription_id p = Some sid \<and> \<not> pc_is_deleted p) (pg_conns db))))) db)"

definition pg_update_watermark :: "fault \<Rightarrow> uuid \<Rightarrow> int \<Rightarrow> int \<Rightarrow> datetime \<Rightarrow> pg \<Rightarrow> pg \<times> (error + unit)" where
  "pg_update_watermark fault u up down t =
    pg_update_conn fault u (\<lambda>p. p\<lparr>pc_uplink := up, pc_downlink := down, pc_last_persist_at := Some t\<rparr>)"

subsection \<open>Statements on subscriptions\<close>

text \<open>The column \<open>refer_code\<close> is \<open>CHAR(13)\<close>: padded with blanks, and longer values are refused.\<close>

definition char13 :: "string \<Rightarrow> string option" where
  "char13 s = (if 13 < length (rtrim s) then None else Some (take 13 (s @ replicate 13 (CHR '' ''))))"

definition sub_insert_cols :: "datetime \<Rightarrow> subscription \<Rightarrow> string \<Rightarrow> sub_row" where
  "sub_insert_cols db_now s code =
    \<lparr> row_id = sub_id s, row_expires_at = sub_expires_at s, row_refer_code = code,
      row_created_at = db_now, row_updated_at = db_now, row_is_deleted = False,
      row_parent_id = sub_parent_id s, row_scope_env = map_option env_display (sub_scope_env s),
      row_premium_token = sub_premium_token s, row_premium_until = None,
      row_plan_kind = Some (plan_kind_display (sub_plan_kind s)),
      row_server_limit32 = Some (wrap32 (sub_server_limit s)), row_server_limit64 = None,
      row_user_limit32 = Some (wrap32 (sub_user_limit s)), row_user_limit64 = None,
      row_limit_bytes = sub_limit_bytes s, row_product = Some (product_as_str (sub_product s)) \<rparr>"

definition pg_sub_insert_row :: "datetime \<Rightarrow> subscription \<Rightarrow> pg \<Rightarrow> pg \<times> (error + subscription)" where
  "pg_sub_insert_row db_now s db =
    (case char13 (sub_refer_code s) of
       None \<Rightarrow> (db, Inl (Err_Database ''value too long for type character(13)''))
     | Some code \<Rightarrow>
         let row = sub_insert_cols db_now s code in
         if list_ex (\<lambda>r. row_id r = sub_id s
                         \<or> (row_premium_token r \<noteq> None \<and> row_premium_token r = sub_premium_token s)) (pg_subs db)
         then (db, Inl (Err_Database ''duplicate key value violates unique constraint''))
         else if sub_parent_id s \<noteq> None \<and> sub_parent_id s \<notin> (\<lambda>r. Some (row_id r)) ` set (row # pg_subs db)
         then (db, Inl (Err_Database ''foreign key violation''))
         else (db\<lparr>pg_subs := pg_subs db @ [row]\<rparr>, Inr (subscription_from_row row)))"

definition pg_sub_create :: "datetime \<Rightarrow> fault \<Rightarrow> subscription \<Rightarrow> pg \<Rightarrow> pg \<times> (error + subscription)" where
  "pg_sub_create db_now fault s = on_db fault (pg_sub_insert_row db_now s)"

definition pg_sub_all :: "fault \<Rightarrow> pg \<Rightarrow> error + subscription list" where
  "pg_sub_all fault db =
    snd (on_db fault (\<lambda>db. (db,
      Inr (map subscription_from_row
             (rev (sort_key row_created_at (filter (\<lambda>r. \<not> row_is_deleted r) (pg_subs db))))))) db)"

definition pg_sub_find :: "fault \<Rightarrow> uuid \<Rightarrow> pg \<Rightarrow> error + subscription option" where
  "pg_sub_find fault u db =
    snd (on_db fault (\<lambda>db. (db,
      Inr (map_option subscription_from_row
             (List.find (\<lambda>r. row_id r = u \<and> \<not> row_is_deleted r) (pg_subs db))))) db)"

record user_slot =
  us_inserted :: bool
  us_used :: int
  us_limit :: int

definition live_children :: "uuid \<Rightarrow> pg \<Rightarrow> sub_row list" where
  "live_children owner db = filter (\<lambda>r. row_parent_id r = Some owner \<and> \<not> row_is_deleted r) (pg_subs db)"

text \<open>
  \<open>insert_child_within_user_limit\<close> runs in one transaction that holds the lock of the owner's row, so
  that it is one step.
\<close>

definition pg_insert_child :: "datetime \<Rightarrow> fault \<Rightarrow> uuid \<Rightarrow> subscription \<Rightarrow> pg \<Rightarrow> pg \<times> (error + user_slot option)" where
  "pg_insert_child db_now fault owner child = on_db fault (\<lambda>db.
    case List.find (\<lambda>r. row_id r = owner \<and> \<not> row_is_deleted r) (pg_subs db) of
      None \<Rightarrow> (db, Inr None)
    | Some row \<Rightarrow>
        let limit = max 0 (unwrap_or (row_user_limit32 row) DEFAULT_USER_LIMIT);
            used = int (length (live_children owner db))
        in if used \<ge> limit
           then (db, Inr (Some \<lparr> us_inserted = False, us_used = used, us_limit = limit \<rparr>))
           else case pg_sub_insert_row db_now child db of
                  (db', Inl e) \<Rightarrow> (db, Inl e)
                | (db', Inr _) \<Rightarrow>
                    (db', Inr (Some \<lparr> us_inserted = True, us_used = used + 1, us_limit = limit \<rparr>)))"

definition upd_sub :: "uuid \<Rightarrow> (sub_row \<Rightarrow> sub_row) \<Rightarrow> sub_row list \<Rightarrow> sub_row list" where
  "upd_sub u f rows = map (\<lambda>r. if row_id r = u then f r else r) rows"

text \<open>\<open>UPDATE ... WHERE id = $n RETURNING *\<close>, which expects exactly one row.\<close>

definition pg_update_sub_row ::
  "uuid \<Rightarrow> (sub_row \<Rightarrow> sub_row) \<Rightarrow> pg \<Rightarrow> pg \<times> (error + subscription)" where
  "pg_update_sub_row u f db =
    (case List.find (\<lambda>r. row_id r = u) (pg_subs db) of
       None \<Rightarrow> (db, Inl not_one_row)
     | Some r \<Rightarrow>
         if list_ex (\<lambda>q. row_id q \<noteq> u \<and> row_premium_token q \<noteq> None
                         \<and> row_premium_token q = row_premium_token (f r)) (pg_subs db)
         then (db, Inl (Err_Database ''duplicate key value violates unique constraint''))
         else if row_parent_id (f r) \<noteq> None \<and> row_parent_id (f r) \<notin> (\<lambda>q. Some (row_id q)) ` set (pg_subs db)
         then (db, Inl (Err_Database ''foreign key violation''))
         else (db\<lparr>pg_subs := upd_sub u f (pg_subs db)\<rparr>, Inr (subscription_from_row (f r))))"

definition pg_update_subscription ::
  "datetime \<Rightarrow> fault \<Rightarrow> uuid \<Rightarrow> datetime \<Rightarrow> string \<Rightarrow> uuid option \<Rightarrow> env option \<Rightarrow> string option
   \<Rightarrow> pg \<Rightarrow> pg \<times> (error + subscription)" where
  "pg_update_subscription now fault u expires_at ref_code parent_id scope_env premium_token =
    on_db fault (\<lambda>db.
      case char13 ref_code of
        None \<Rightarrow> (db, Inl (Err_Database ''value too long for type character(13)''))
      | Some code \<Rightarrow>
          pg_update_sub_row u (\<lambda>r. r\<lparr>row_expires_at := Some expires_at, row_updated_at := now, row_refer_code := code,
              row_parent_id := parent_id, row_scope_env := map_option env_display scope_env,
              row_premium_token := premium_token\<rparr>) db)"

definition pg_add_days :: "datetime \<Rightarrow> fault \<Rightarrow> uuid \<Rightarrow> int \<Rightarrow> pg \<Rightarrow> pg \<times> (error + subscription)" where
  "pg_add_days now fault u days = on_db fault (\<lambda>db.
    case List.find (\<lambda>r. row_id r = u) (pg_subs db) of
      None \<Rightarrow> (db, Inl not_one_row)
    | Some row \<Rightarrow>
        let base = (case row_expires_at row of Some e \<Rightarrow> if e > now then e else now | None \<Rightarrow> now)
        in pg_update_sub_row u
             (\<lambda>r. r\<lparr>row_expires_at := Some (base + duration_days days), row_updated_at := now\<rparr>) db)"

definition pg_add_limit_bytes ::
  "datetime \<Rightarrow> fault \<Rightarrow> uuid \<Rightarrow> uuid \<Rightarrow> int \<Rightarrow> pg \<Rightarrow> pg \<times> (error + int option)" where
  "pg_add_limit_bytes now fault sid trace_id bytes = on_db fault (\<lambda>db.
    if trace_id \<in> fst ` set (pg_topups db) then (db, Inr None)
    else case List.find (\<lambda>r. row_id r = sid) (pg_subs db) of
           None \<Rightarrow> (db, Inl not_one_row)
         | Some r \<Rightarrow>
             let new_limit = unwrap_or (row_limit_bytes r) 0 + bytes
             in if in_i64 new_limit
                then (db\<lparr>pg_topups := pg_topups db @ [(trace_id, sid, bytes)],
                         pg_subs := upd_sub sid (\<lambda>r. r\<lparr>row_limit_bytes := Some new_limit, row_updated_at := now\<rparr>)
                                      (pg_subs db)\<rparr>, Inr (Some new_limit))
                else (db, Inl (Err_Database ''bigint out of range'')))"

definition pg_set_premium_fields ::
  "datetime \<Rightarrow> fault \<Rightarrow> uuid \<Rightarrow> env option \<Rightarrow> string option \<Rightarrow> pg \<Rightarrow> pg \<times> (error + subscription)" where
  "pg_set_premium_fields now fault u scope_env premium_token = on_db fault
    (pg_update_sub_row u (\<lambda>r. r\<lparr>row_scope_env := map_option env_display scope_env,
        row_premium_token := premium_token, row_updated_at := now\<rparr>))"

definition pg_set_selfhosted_limits ::
  "datetime \<Rightarrow> fault \<Rightarrow> uuid \<Rightarrow> int \<Rightarrow> int \<Rightarrow> pg \<Rightarrow> pg \<times> (error + subscription)" where
  "pg_set_selfhosted_limits now fault u server_limit user_limit = on_db fault
    (pg_update_sub_row u (\<lambda>r. r\<lparr>row_server_limit32 := Some (wrap32 server_limit),
        row_user_limit32 := Some (wrap32 user_limit), row_updated_at := now\<rparr>))"

definition pg_sub_delete :: "datetime \<Rightarrow> fault \<Rightarrow> uuid \<Rightarrow> pg \<Rightarrow> pg \<times> (error + subscription)" where
  "pg_sub_delete now fault u = on_db fault
    (pg_update_sub_row u (\<lambda>r. r\<lparr>row_is_deleted := True, row_updated_at := now\<rparr>))"

subsection \<open>Statements on nodes\<close>

definition inbound_row_of :: "'u link_lib \<Rightarrow> inbound \<Rightarrow> inbound_row" where
  "inbound_row_of lib i =
    \<lparr> ir_tag = in_tag i, ir_port = in_port i, ir_stream = in_stream i,
      ir_wg = map_option (\<lambda>w. (privkey (ws_keys w), ws_interface w, show_ip_mask lib (ws_address w), ws_dns w)) (in_wg i),
      ir_h2 = in_h2 i, ir_mtproto_secret = in_mtproto_secret i,
      ir_awg = map_option (\<lambda>a. (privkey (ai_private_key (aws_interface a)), ai_interface (aws_interface a),
                                show_ip_mask lib (ai_address (aws_interface a)), ai_dns (aws_interface a))) (in_awg i),
      ir_awg_mtu = Option.bind (in_awg i) (\<lambda>a. ai_mtu (aws_interface a)),
      ir_awg_obfuscation = Option.bind (in_awg i) aws_obfuscation,
      ir_keepalive = or_else (Option.bind (in_wg i) ws_keepalive) (Option.bind (in_awg i) aws_keepalive) \<rparr>"

definition inbound_of_row :: "(string \<Rightarrow> ip_addr option) \<Rightarrow> inbound_row \<Rightarrow> inbound" where
  "inbound_of_row parse_ip r =
    \<lparr> in_tag = ir_tag r, in_port = ir_port r, in_stream = ir_stream r,
      in_wg = Option.bind (ir_wg r) (\<lambda>(key, iface, addr, dns).
        map_option (\<lambda>a. \<lparr> ws_interface = iface, ws_address = a, ws_port = ir_port r,
                          ws_keys = \<lparr> privkey = key \<rparr>, ws_dns = dns, ws_keepalive = ir_keepalive r \<rparr>)
          (ip_mask_from_str parse_ip parse_u8 addr)),
      in_awg = Option.bind (ir_awg r) (\<lambda>(key, iface, addr, dns).
        map_option (\<lambda>a. \<lparr> aws_interface = \<lparr> ai_interface = iface, ai_address = a, ai_listen_port = ir_port r,
                                              ai_mtu = ir_awg_mtu r, ai_private_key = \<lparr> privkey = key \<rparr>, ai_dns = dns \<rparr>,
                          aws_obfuscation = ir_awg_obfuscation r, aws_keepalive = ir_keepalive r \<rparr>)
          (ip_mask_from_str parse_ip parse_u8 addr)),
      in_h2 = ir_h2 r, in_mtproto_secret = ir_mtproto_secret r \<rparr>"

definition pg_node_cols :: "uuid \<Rightarrow> node \<Rightarrow> pg_node" where
  "pg_node_cols node_id n =
    \<lparr> pn_id = node_id, pn_uuid = n_uuid n, pn_env = env_display (n_env n), pn_hostname = n_hostname n,
      pn_address = n_address n, pn_status = n_status n, pn_created_at = n_created_at n,
      pn_modified_at = n_modified_at n, pn_label = n_label n, pn_interface = n_interface n,
      pn_cores = wrap32 (int (n_cores n)), pn_max_bandwidth_bps = n_max_bandwidth_bps n,
      pn_country = n_country n, pn_type = n_type n, pn_cluster = n_cluster n,
      pn_ips = map_option (map show_ipv4) (n_ips n), pn_pool = n_pool n,
      pn_pool_translation = n_pool_translation n,
      pn_weights = (if n_weights n = [] then None else Some (n_weights n)), pn_inbounds = [] \<rparr>"

text \<open>The \<open>ON CONFLICT (id) DO UPDATE\<close> of a stored row \<open>old\<close> with the new columns.\<close>

definition pg_node_merge :: "pg_node \<Rightarrow> pg_node \<Rightarrow> pg_node" where
  "pg_node_merge old new =
    new\<lparr>pn_created_at := pn_created_at old,
        pn_pool := or_else (pn_pool new) (pn_pool old),
        pn_pool_translation := or_else (pn_pool_translation new) (pn_pool_translation old),
        pn_inbounds := pn_inbounds old\<rparr>"

text \<open>
  The rows of \<open>inbounds\<close>: upserted by tag, then the rows of tags that were not sent are pruned,
  unless none was sent.
\<close>

definition put_inbounds :: "'u link_lib \<Rightarrow> inbound list \<Rightarrow> (tag, inbound_row) hashmap \<Rightarrow> (tag, inbound_row) hashmap" where
  "put_inbounds lib is rows = fold (\<lambda>i m. AList.update (in_tag i) (inbound_row_of lib i) m) is rows"

definition prune_inbounds :: "(tag, inbound) hashmap \<Rightarrow> (tag, inbound_row) hashmap \<Rightarrow> (tag, inbound_row) hashmap" where
  "prune_inbounds sent rows =
    (if sent = [] then rows else filter (\<lambda>(t, _). t \<in> set (map fst sent)) rows)"

definition upsert_node_row :: "'u link_lib \<Rightarrow> uuid \<Rightarrow> node \<Rightarrow> pg_node option \<Rightarrow> pg_node" where
  "upsert_node_row lib node_id n old =
    (let row = (case old of None \<Rightarrow> pg_node_cols node_id n | Some o' \<Rightarrow> pg_node_merge o' (pg_node_cols node_id n))
     in row\<lparr>pn_inbounds := prune_inbounds (n_inbounds n) (put_inbounds lib (hm_values (n_inbounds n)) (pn_inbounds row))\<rparr>)"

definition pg_upsert_node_tx :: "'u link_lib \<Rightarrow> uuid \<Rightarrow> node \<Rightarrow> pg \<Rightarrow> pg \<times> (error + unit)" where
  "pg_upsert_node_tx lib node_id n db =
    (let old = List.find (\<lambda>r. pn_id r = node_id) (pg_nodes db);
         row = upsert_node_row lib node_id n old
     in if list_ex (\<lambda>r. pn_id r \<noteq> node_id \<and> pn_uuid r = pn_uuid row \<and> pn_env r = pn_env row) (pg_nodes db)
        then (db, Inl (Err_Database ''duplicate key value violates unique constraint''))
        else case old of
               None \<Rightarrow> (db\<lparr>pg_nodes := pg_nodes db @ [row]\<rparr>, Inr ())
             | Some _ \<Rightarrow> (db\<lparr>pg_nodes := map (\<lambda>r. if pn_id r = node_id then row else r) (pg_nodes db)\<rparr>, Inr ()))"

definition pg_node_upsert :: "'u link_lib \<Rightarrow> fault \<Rightarrow> uuid \<Rightarrow> node \<Rightarrow> pg \<Rightarrow> pg \<times> (error + unit)" where
  "pg_node_upsert lib fault node_id n = on_db fault (pg_upsert_node_tx lib node_id n)"

record node_slot =
  nsl_inserted :: bool
  nsl_used :: int
  nsl_limit :: int

definition env_nodes :: "env \<Rightarrow> uuid \<Rightarrow> pg \<Rightarrow> pg_node list" where
  "env_nodes e node_id db = filter (\<lambda>r. pn_env r = env_display e \<and> pn_uuid r \<noteq> node_id) (pg_nodes db)"

definition pg_insert_private_node ::
  "'u link_lib \<Rightarrow> fault \<Rightarrow> env \<Rightarrow> uuid \<Rightarrow> node \<Rightarrow> pg \<Rightarrow> pg \<times> (error + node_slot option)" where
  "pg_insert_private_node lib fault e node_id n = on_db fault (\<lambda>db.
    case filter (\<lambda>r. row_scope_env r = Some (env_display e) \<and> \<not> row_is_deleted r) (pg_subs db) of
      [] \<Rightarrow> (db, Inr None)
    | [row] \<Rightarrow>
        let limit = max 0 (unwrap_or (row_server_limit32 row) DEFAULT_SERVER_LIMIT);
            used = int (length (env_nodes e node_id db))
        in if used \<ge> limit
           then (db, Inr (Some \<lparr> nsl_inserted = False, nsl_used = used, nsl_limit = limit \<rparr>))
           else (case pg_upsert_node_tx lib node_id n db of
                   (db', Inl err) \<Rightarrow> (db, Inl err)
                 | (db', Inr _) \<Rightarrow>
                     (db', Inr (Some \<lparr> nsl_inserted = True, nsl_used = used + 1, nsl_limit = limit \<rparr>)))
    | _ \<Rightarrow> (db, Inl not_one_row))"

definition node_of_pg :: "(string \<Rightarrow> ip_addr option) \<Rightarrow> pg_node \<Rightarrow> node" where
  "node_of_pg parse_ip r =
    \<lparr> n_uuid = pn_uuid r, n_env = env_of_str (pn_env r), n_hostname = pn_hostname r, n_address = pn_address r,
      n_status = pn_status r, n_label = pn_label r, n_interface = pn_interface r,
      n_created_at = pn_created_at r, n_modified_at = pn_modified_at r,
      n_inbounds = fold (\<lambda>(_, ir) m. AList.update (ir_tag ir) (inbound_of_row parse_ip ir) m) (pn_inbounds r) [],
      n_cores = nat (pn_cores r mod 2 ^ 64), n_max_bandwidth_bps = pn_max_bandwidth_bps r,
      n_country = pn_country r, n_type = pn_type r, n_cluster = pn_cluster r,
      n_ips = map_option (List.map_filter parse_ipv4) (pn_ips r), n_pool = pn_pool r,
      n_pool_translation = pn_pool_translation r,
      n_weights = (case pn_weights r of None \<Rightarrow> [] | Some w \<Rightarrow> w) \<rparr>"

definition pg_node_all :: "(string \<Rightarrow> ip_addr option) \<Rightarrow> fault \<Rightarrow> pg \<Rightarrow> error + node list" where
  "pg_node_all parse_ip fault db =
    snd (on_db fault (\<lambda>db. (db, Inr (map (node_of_pg parse_ip) (pg_nodes db)))) db)"

definition pg_node_delete :: "fault \<Rightarrow> uuid \<Rightarrow> pg \<Rightarrow> pg \<times> (error + unit)" where
  "pg_node_delete fault u = on_db fault (\<lambda>db. (db\<lparr>pg_nodes := filter (\<lambda>r. pn_uuid r \<noteq> u) (pg_nodes db)\<rparr>, Inr ()))"

definition pg_node_update_status :: "datetime \<Rightarrow> fault \<Rightarrow> uuid \<Rightarrow> node_status \<Rightarrow> pg \<Rightarrow> pg \<times> (error + unit)" where
  "pg_node_update_status now fault u s = on_db fault (\<lambda>db.
    (db\<lparr>pg_nodes := map (\<lambda>r. if pn_uuid r = u then r\<lparr>pn_status := s, pn_modified_at := now\<rparr> else r) (pg_nodes db)\<rparr>,
     Inr ()))"

section \<open>The schema\<close>

text \<open>What the keys, the unique indexes and the references of the schema promise.\<close>

definition conns_wf :: "pg_conn list \<Rightarrow> bool" where
  "conns_wf rows \<longleftrightarrow> distinct (map pc_id rows)
    \<and> (\<forall>p \<in> set rows. \<forall>q \<in> set rows. pc_id p \<noteq> pc_id q \<longrightarrow> \<not> conns_clash p q)"

definition sub_refs :: "sub_row list \<Rightarrow> uuid option set" where
  "sub_refs rows = insert None ((\<lambda>r. Some (row_id r)) ` set rows)"

definition subs_wf :: "sub_row list \<Rightarrow> bool" where
  "subs_wf rows \<longleftrightarrow> distinct (map row_id rows)
    \<and> (\<forall>r \<in> set rows. \<forall>q \<in> set rows. row_id r \<noteq> row_id q \<longrightarrow> row_premium_token r \<noteq> None
         \<longrightarrow> row_premium_token r \<noteq> row_premium_token q)
    \<and> (\<forall>r \<in> set rows. row_parent_id r \<in> sub_refs rows)"

definition node_rows_wf :: "pg_node list \<Rightarrow> bool" where
  "node_rows_wf rows \<longleftrightarrow> distinct (map pn_id rows)
    \<and> (\<forall>r \<in> set rows. \<forall>q \<in> set rows. pn_id r \<noteq> pn_id q \<longrightarrow> (pn_uuid r, pn_env r) \<noteq> (pn_uuid q, pn_env q))
    \<and> (\<forall>r \<in> set rows. hm_wf (pn_inbounds r) \<and> (\<forall>(t, i) \<in> set (pn_inbounds r). ir_tag i = t))"

definition pg_wf :: "pg \<Rightarrow> bool" where
  "pg_wf db \<longleftrightarrow> conns_wf (pg_conns db) \<and> subs_wf (pg_subs db) \<and> node_rows_wf (pg_nodes db)
    \<and> distinct (map fst (pg_topups db))
    \<and> (\<forall>p \<in> set (pg_conns db). pc_subscription_id p \<in> sub_refs (pg_subs db))"

lemma conns_clash_sym: "conns_clash p q \<longleftrightarrow> conns_clash q p"
  unfolding conns_clash_def same_slot_def by metis

lemma upd_conn_ids: "(\<And>p. pc_id (f p) = pc_id p) \<Longrightarrow> map pc_id (upd_conn u f rows) = map pc_id rows"
  by (auto simp: upd_conn_def)

lemma conns_wf_update:
  assumes wf: "conns_wf rows" and id: "\<And>p. pc_id (f p) = pc_id p"
    and ok: "list_all (\<lambda>p. pc_id p = u \<longrightarrow> no_clash (f p) rows) rows"
  shows "conns_wf (upd_conn u f rows)"
proof -
  have ids: "distinct (map pc_id (upd_conn u f rows))"
    using wf upd_conn_ids[OF id, of u rows] by (simp add: conns_wf_def)
  have fresh: "\<not> conns_clash (f p) q"
    if "p \<in> set rows" "pc_id p = u" "q \<in> set rows" "pc_id q \<noteq> u" for p q
    using ok that id[of p] unfolding list_all_iff no_clash_def by metis
  have "\<not> conns_clash p' q'"
    if p': "p' \<in> set (upd_conn u f rows)" and q': "q' \<in> set (upd_conn u f rows)" and ne: "pc_id p' \<noteq> pc_id q'" for p' q'
  proof -
    obtain p where p: "p \<in> set rows" "p' = (if pc_id p = u then f p else p)" using p' by (auto simp: upd_conn_def)
    obtain q where q: "q \<in> set rows" "q' = (if pc_id q = u then f q else q)" using q' by (auto simp: upd_conn_def)
    have pq: "pc_id p \<noteq> pc_id q" using ne p(2) q(2) id by (auto split: if_splits)
    consider "pc_id p = u" "pc_id q \<noteq> u" | "pc_id p \<noteq> u" "pc_id q = u" | "pc_id p \<noteq> u" "pc_id q \<noteq> u" using pq by auto
    then show ?thesis
    proof cases
      case 1
      then show ?thesis using fresh[of p q] p q by simp
    next
      case 2
      then show ?thesis using fresh[of q p] p q conns_clash_sym by simp
    next
      case 3
      then show ?thesis using wf p q pq by (simp add: conns_wf_def)
    qed
  qed
  then show ?thesis using ids by (auto simp: conns_wf_def)
qed

lemma pg_wf_update_conn:
  assumes "pg_wf db" "\<And>p. pc_id (f p) = pc_id p" "\<And>p. pc_subscription_id (f p) = pc_subscription_id p"
  shows "pg_wf (fst (pg_update_conn fault u f db))"
proof (cases "fault = None \<and> list_all (\<lambda>p. pc_id p = u \<longrightarrow> no_clash (f p) (pg_conns db)) (pg_conns db)")
  case True
  then have "conns_wf (upd_conn u f (pg_conns db))"
    using assms(1,2) by (intro conns_wf_update) (auto simp: pg_wf_def)
  moreover have "\<forall>p \<in> set (upd_conn u f (pg_conns db)). pc_subscription_id p \<in> sub_refs (pg_subs db)"
    using assms(1,3) by (auto simp: pg_wf_def upd_conn_def)
  ultimately show ?thesis using True assms(1) by (auto simp: pg_update_conn_def on_db_def pg_wf_def)
next
  case False
  then show ?thesis using assms(1) by (auto simp: pg_update_conn_def on_db_def split: option.splits)
qed

lemma pg_wf_conn_insert: "pg_wf db \<Longrightarrow> pg_wf (fst (pg_conn_insert lib fault row db))"
  by (auto simp: pg_conn_insert_def on_db_def Let_def pg_wf_def conns_wf_def list_ex_iff sub_refs_def conns_clash_sym
      split: option.splits)

lemma sub_refs_ids: "sub_refs rows = insert None (Some ` set (map row_id rows))"
  by (auto simp: sub_refs_def)

lemma upd_sub_ids: "(\<And>r. row_id (f r) = row_id r) \<Longrightarrow> map row_id (upd_sub u f rows) = map row_id rows"
  by (auto simp: upd_sub_def)

lemma sub_refs_upd: "(\<And>r. row_id (f r) = row_id r) \<Longrightarrow> sub_refs (upd_sub u f rows) = sub_refs rows"
  by (simp only: sub_refs_ids upd_sub_ids)

lemma find_row: "distinct (map row_id rows) \<Longrightarrow> List.find (\<lambda>r. row_id r = u) rows = Some r \<Longrightarrow>
  r \<in> set rows \<and> row_id r = u \<and> (\<forall>q \<in> set rows. row_id q = u \<longrightarrow> q = r)"
proof -
  assume d: "distinct (map row_id rows)" and f: "List.find (\<lambda>r. row_id r = u) rows = Some r"
  have "r \<in> set rows" "row_id r = u" using f by (auto simp: find_Some_iff)
  moreover have "inj_on row_id (set rows)" using d by (simp add: distinct_map)
  ultimately show ?thesis by (auto dest: inj_onD)
qed

lemma subs_wf_update:
  assumes wf: "subs_wf rows" and id: "\<And>r. row_id (f r) = row_id r"
    and r: "List.find (\<lambda>r. row_id r = u) rows = Some r"
    and tok: "\<not> list_ex (\<lambda>q. row_id q \<noteq> u \<and> row_premium_token q \<noteq> None \<and> row_premium_token q = row_premium_token (f r)) rows"
    and par: "row_parent_id (f r) \<in> sub_refs rows"
  shows "subs_wf (upd_sub u f rows)"
proof -
  have d: "distinct (map row_id rows)" using wf by (simp add: subs_wf_def)
  note r' = find_row[OF d r]
  note ids = upd_sub_ids[OF id, of u rows]
  have mem: "\<exists>q0 \<in> set rows. row_id q0 = row_id q \<and> q = (if row_id q0 = u then f r else q0)"
    if "q \<in> set (upd_sub u f rows)" for q
    using that r' id unfolding upd_sub_def by (auto split: if_splits)
  have "row_premium_token a \<noteq> row_premium_token b"
    if ab: "a \<in> set (upd_sub u f rows)" "b \<in> set (upd_sub u f rows)" "row_id a \<noteq> row_id b" "row_premium_token a \<noteq> None" for a b
  proof -
    obtain a0 where a0: "a0 \<in> set rows" "row_id a0 = row_id a" "a = (if row_id a0 = u then f r else a0)" using mem[OF ab(1)] by blast
    obtain b0 where b0: "b0 \<in> set rows" "row_id b0 = row_id b" "b = (if row_id b0 = u then f r else b0)" using mem[OF ab(2)] by blast
    have other: "row_premium_token q \<noteq> None \<Longrightarrow> row_premium_token q \<noteq> row_premium_token (f r)"
      if "q \<in> set rows" "row_id q \<noteq> u" for q
      using tok that unfolding list_ex_iff by blast
    have ne: "row_id a0 \<noteq> row_id b0" using a0(2) b0(2) ab(3) by simp
    consider "row_id a0 = u" "row_id b0 \<noteq> u" | "row_id a0 \<noteq> u" "row_id b0 = u" | "row_id a0 \<noteq> u" "row_id b0 \<noteq> u"
      using ne by auto
    then show ?thesis
    proof cases
      case 1
      then have "a = f r" "b = b0" using a0(3) b0(3) by simp_all
      then show ?thesis using other[OF b0(1) 1(2)] ab(4) by fastforce
    next
      case 2
      then have "a = a0" "b = f r" using a0(3) b0(3) by simp_all
      then show ?thesis using other[OF a0(1) 2(1)] ab(4) by fastforce
    next
      case 3
      then have "a = a0" "b = b0" using a0(3) b0(3) by simp_all
      then show ?thesis using wf a0(1) b0(1) ne ab(4) unfolding subs_wf_def by blast
    qed
  qed
  moreover have "row_parent_id a \<in> sub_refs (upd_sub u f rows)" if "a \<in> set (upd_sub u f rows)" for a
    using mem[OF that] wf par sub_refs_upd[OF id, of u rows] by (auto simp: subs_wf_def split: if_splits)
  ultimately show ?thesis using d ids by (auto simp: subs_wf_def)
qed

lemma pg_wf_update_sub_row:
  assumes "pg_wf db" "\<And>r. row_id (f r) = row_id r"
  shows "pg_wf (fst (pg_update_sub_row u f db))"
proof (cases "List.find (\<lambda>r. row_id r = u) (pg_subs db)")
  case None
  then show ?thesis using assms(1) by (simp add: pg_update_sub_row_def)
next
  case (Some r)
  show ?thesis
  proof (cases "list_ex (\<lambda>q. row_id q \<noteq> u \<and> row_premium_token q \<noteq> None \<and> row_premium_token q = row_premium_token (f r)) (pg_subs db)
      \<or> row_parent_id (f r) \<notin> sub_refs (pg_subs db)")
    case True
    then show ?thesis using assms(1) Some by (auto simp: pg_update_sub_row_def sub_refs_def)
  next
    case False
    then have "subs_wf (upd_sub u f (pg_subs db))"
      using assms(1) subs_wf_update[OF _ assms(2) Some] by (auto simp: pg_wf_def)
    then show ?thesis
      using assms(1) False Some sub_refs_upd[OF assms(2), of u "pg_subs db"]
      by (auto simp: pg_update_sub_row_def pg_wf_def sub_refs_def)
  qed
qed

lemma pg_wf_on_db: "pg_wf db \<Longrightarrow> pg_wf (fst (stmt db)) \<Longrightarrow> pg_wf (fst (on_db fault stmt db))"
  by (simp add: on_db_def split: option.split)

lemma sub_refs_mono: "set a \<subseteq> set b \<Longrightarrow> sub_refs a \<subseteq> sub_refs b"
  by (auto simp: sub_refs_def)

lemma pg_wf_sub_insert: "pg_wf db \<Longrightarrow> pg_wf (fst (pg_sub_insert_row now s db))"
proof -
  assume wf: "pg_wf db"
  show ?thesis
  proof (cases "snd (pg_sub_insert_row now s db)")
    case (Inl e)
    then show ?thesis using wf by (auto simp: pg_sub_insert_row_def Let_def split: option.splits if_splits)
  next
    case (Inr x)
    then obtain code where c: "char13 (sub_refer_code s) = Some code"
      and ne: "\<forall>r \<in> set (pg_subs db). row_id r \<noteq> sub_id s \<and> (row_premium_token r = None \<or> row_premium_token r \<noteq> sub_premium_token s)"
      and par: "sub_parent_id s \<in> sub_refs (sub_insert_cols now s code # pg_subs db)"
      and eq: "fst (pg_sub_insert_row now s db) = db\<lparr>pg_subs := pg_subs db @ [sub_insert_cols now s code]\<rparr>"
      by (auto simp: pg_sub_insert_row_def Let_def list_ex_iff sub_refs_def split: option.splits if_splits)
    have cols: "row_id (sub_insert_cols now s code) = sub_id s" "row_premium_token (sub_insert_cols now s code) = sub_premium_token s"
      "row_parent_id (sub_insert_cols now s code) = sub_parent_id s"
      by (simp_all add: sub_insert_cols_def)
    have refs: "sub_refs (pg_subs db) \<subseteq> sub_refs (pg_subs db @ [sub_insert_cols now s code])"
      "sub_refs (sub_insert_cols now s code # pg_subs db) = sub_refs (pg_subs db @ [sub_insert_cols now s code])"
      by (auto simp: sub_refs_def)
    have "subs_wf (pg_subs db @ [sub_insert_cols now s code])"
      using wf ne par refs cols by (auto simp: pg_wf_def subs_wf_def ball_Un)
    then show ?thesis using wf refs unfolding eq by (auto simp: pg_wf_def)
  qed
qed

definition inbounds_ok :: "(tag, inbound_row) hashmap \<Rightarrow> bool" where
  "inbounds_ok m \<longleftrightarrow> hm_wf m \<and> (\<forall>(t, i) \<in> set m. ir_tag i = t)"

lemma inbounds_ok_put: "inbounds_ok m \<Longrightarrow> inbounds_ok (put_inbounds lib is m)"
proof (induction "is" arbitrary: m)
  case (Cons i "is")
  have "inbounds_ok (AList.update (in_tag i) (inbound_row_of lib i) m)"
    using Cons.prems hm_mem_iff[of m] hm_mem_iff[OF hm_wf_update[of m "in_tag i" "inbound_row_of lib i"]]
    by (auto simp: inbounds_ok_def inbound_row_of_def split: if_splits)
  then show ?case using Cons.IH by (simp add: put_inbounds_def)
qed (simp add: put_inbounds_def)

lemma inbounds_ok_prune: "inbounds_ok m \<Longrightarrow> inbounds_ok (prune_inbounds sent m)"
  by (auto simp: inbounds_ok_def prune_inbounds_def distinct_map_filter)

lemma pg_wf_upsert_node: "pg_wf db \<Longrightarrow> pg_wf (fst (pg_upsert_node_tx lib node_id n db))"
proof -
  assume wf: "pg_wf db"
  let ?rows = "pg_nodes db"
  define old where "old = List.find (\<lambda>r. pn_id r = node_id) ?rows"
  define row where "row = upsert_node_row lib node_id n old"
  have tx: "pg_upsert_node_tx lib node_id n db =
      (if list_ex (\<lambda>r. pn_id r \<noteq> node_id \<and> pn_uuid r = pn_uuid row \<and> pn_env r = pn_env row) ?rows
       then (db, Inl (Err_Database ''duplicate key value violates unique constraint''))
       else case old of
              None \<Rightarrow> (db\<lparr>pg_nodes := ?rows @ [row]\<rparr>, Inr ())
            | Some _ \<Rightarrow> (db\<lparr>pg_nodes := map (\<lambda>r. if pn_id r = node_id then row else r) ?rows\<rparr>, Inr ()))"
    unfolding pg_upsert_node_tx_def Let_def row_def old_def ..
  have old_in: "old = Some r \<Longrightarrow> r \<in> set ?rows \<and> pn_id r = node_id" for r
    unfolding old_def by (auto simp: find_Some_iff)
  have old_none: "old = None \<Longrightarrow> node_id \<notin> pn_id ` set ?rows"
    unfolding old_def by (auto simp: find_None_iff)
  have ib: "inbounds_ok (pn_inbounds r)" if "r \<in> set ?rows" for r
    using wf that by (auto simp: pg_wf_def node_rows_wf_def inbounds_ok_def)
  have id: "pn_id row = node_id"
    by (simp add: row_def upsert_node_row_def Let_def pg_node_merge_def pg_node_cols_def split: option.split)
  have row_ok: "inbounds_ok (pn_inbounds row)"
    unfolding row_def upsert_node_row_def Let_def
    by (cases old) (auto intro!: inbounds_ok_prune inbounds_ok_put simp: pg_node_cols_def pg_node_merge_def ib old_in,
        simp add: inbounds_ok_def)
  show ?thesis
  proof (cases "list_ex (\<lambda>r. pn_id r \<noteq> node_id \<and> pn_uuid r = pn_uuid row \<and> pn_env r = pn_env row) ?rows")
    case True
    then show ?thesis using wf by (simp add: tx)
  next
    case False
    then have ne: "(pn_uuid r, pn_env r) \<noteq> (pn_uuid row, pn_env row)" if "r \<in> set ?rows" "pn_id r \<noteq> node_id" for r
      using that by (auto simp: list_ex_iff)
    show ?thesis
    proof (cases old)
      case None
      have "node_rows_wf (?rows @ [row])"
        using wf ne old_none[OF None] row_ok id
        by (auto simp: pg_wf_def node_rows_wf_def inbounds_ok_def) (metis ne prod.inject)+
      then show ?thesis
        using wf False None unfolding tx by (simp add: pg_wf_def)
    next
      case (Some r0)
      let ?new = "map (\<lambda>r. if pn_id r = node_id then row else r) ?rows"
      have mem: "r \<in> set ?new \<Longrightarrow> r = row \<or> (r \<in> set ?rows \<and> pn_id r \<noteq> node_id)" for r
        by (auto split: if_splits)
      have ids: "map pn_id ?new = map pn_id ?rows" using id by auto
      have "(pn_uuid a, pn_env a) \<noteq> (pn_uuid b, pn_env b)"
        if ab: "a \<in> set ?new" "b \<in> set ?new" "pn_id a \<noteq> pn_id b" for a b
        using mem[OF ab(1)] mem[OF ab(2)]
      proof (elim disjE conjE)
        assume "a = row" "b = row" then show ?thesis using ab(3) by simp
      next
        assume "a = row" "b \<in> set ?rows" "pn_id b \<noteq> node_id" then show ?thesis using ne[of b] by metis
      next
        assume "b = row" "a \<in> set ?rows" "pn_id a \<noteq> node_id" then show ?thesis using ne[of a] by metis
      next
        assume "a \<in> set ?rows" "b \<in> set ?rows"
        then show ?thesis using wf ab(3) unfolding pg_wf_def node_rows_wf_def by blast
      qed
      moreover have "inbounds_ok (pn_inbounds a)" if "a \<in> set ?new" for a using mem[OF that] row_ok ib by auto
      moreover have "distinct (map pn_id ?new)" unfolding ids using wf by (simp add: pg_wf_def node_rows_wf_def)
      ultimately have "node_rows_wf ?new" unfolding node_rows_wf_def inbounds_ok_def by blast
      then show ?thesis
        using wf False Some unfolding tx by (simp add: pg_wf_def)
    qed
  qed
qed

lemma pg_wf_insert_child: "pg_wf db \<Longrightarrow> pg_wf (fst (pg_insert_child now fault owner child db))"
  using pg_wf_sub_insert[of db now child]
  by (auto simp: pg_insert_child_def Let_def intro!: pg_wf_on_db split: option.split prod.split sum.split)

lemma pg_wf_insert_private_node: "pg_wf db \<Longrightarrow> pg_wf (fst (pg_insert_private_node lib fault e node_id n db))"
  using pg_wf_upsert_node[of db lib node_id n]
  by (auto simp: pg_insert_private_node_def Let_def intro!: pg_wf_on_db split: list.split prod.split sum.split)

lemma pg_wf_add_limit: "pg_wf db \<Longrightarrow> pg_wf (fst (pg_add_limit_bytes now fault sid trace bytes db))"
proof -
  assume wf: "pg_wf db"
  show ?thesis
    unfolding pg_add_limit_bytes_def
  proof (rule pg_wf_on_db[OF wf])
    let ?f = "\<lambda>l r. r\<lparr>row_limit_bytes := Some l, row_updated_at := now\<rparr>"
    have "subs_wf (upd_sub sid (?f l) (pg_subs db))" for l
    proof (cases "List.find (\<lambda>r. row_id r = sid) (pg_subs db)")
      case None
      then have "upd_sub sid (?f l) (pg_subs db) = pg_subs db"
        by (auto simp: upd_sub_def find_None_iff intro: map_idI)
      then show ?thesis using wf by (simp add: pg_wf_def)
    next
      case (Some r)
      have r: "r \<in> set (pg_subs db)" "row_id r = sid" using Some by (auto simp: find_Some_iff)
      show ?thesis
        using wf r by (intro subs_wf_update[OF _ _ Some]) (fastforce simp: pg_wf_def subs_wf_def list_ex_iff)+
    qed
    moreover have "sub_refs (upd_sub sid (?f l) (pg_subs db)) = sub_refs (pg_subs db)" for l
      by (rule sub_refs_upd) simp
    ultimately show "pg_wf (fst (if trace \<in> fst ` set (pg_topups db) then (db, Inr None)
       else case List.find (\<lambda>r. row_id r = sid) (pg_subs db) of
              None \<Rightarrow> (db, Inl not_one_row)
            | Some r \<Rightarrow>
                let new_limit = unwrap_or (row_limit_bytes r) 0 + bytes
                in if in_i64 new_limit
                   then (db\<lparr>pg_topups := pg_topups db @ [(trace, sid, bytes)],
                            pg_subs := upd_sub sid (\<lambda>r. r\<lparr>row_limit_bytes := Some new_limit, row_updated_at := now\<rparr>)
                                         (pg_subs db)\<rparr>, Inr (Some new_limit))
                   else (db, Inl (Err_Database ''bigint out of range''))))"
      using wf by (auto simp: pg_wf_def Let_def split: option.split)
  qed
qed

lemma pg_wf_node_subset: "pg_wf db \<Longrightarrow> pg_wf (fst (pg_node_delete fault u db))"
proof -
  assume wf: "pg_wf db"
  then have "node_rows_wf (filter (\<lambda>r. pn_uuid r \<noteq> u) (pg_nodes db))"
    unfolding pg_wf_def node_rows_wf_def by (auto simp: distinct_map_filter)
  then show ?thesis
    unfolding pg_node_delete_def using wf by (intro pg_wf_on_db) (simp_all add: pg_wf_def)
qed

lemma node_rows_wf_map:
  assumes wf: "node_rows_wf rows"
    and k: "\<And>r. pn_id (f r) = pn_id r" "\<And>r. pn_uuid (f r) = pn_uuid r" "\<And>r. pn_env (f r) = pn_env r"
      "\<And>r. pn_inbounds (f r) = pn_inbounds r"
  shows "node_rows_wf (map f rows)"
proof -
  have "map pn_id (map f rows) = map pn_id rows" by (simp add: k)
  then have "distinct (map pn_id (map f rows))" using wf by (simp only: node_rows_wf_def)
  then show ?thesis using wf unfolding node_rows_wf_def by (simp add: k)
qed

lemma pg_wf_node_status: "pg_wf db \<Longrightarrow> pg_wf (fst (pg_node_update_status now fault u s db))"
proof -
  assume wf: "pg_wf db"
  then have "node_rows_wf (map (\<lambda>r. if pn_uuid r = u then r\<lparr>pn_status := s, pn_modified_at := now\<rparr> else r) (pg_nodes db))"
    by (intro node_rows_wf_map) (simp_all add: pg_wf_def)
  then show ?thesis
    unfolding pg_node_update_status_def using wf by (intro pg_wf_on_db) (simp_all add: pg_wf_def)
qed

text \<open>The statements that change the database, as data.\<close>

datatype pg_stmt =
    Stmt_ConnInsert conn_row
  | Stmt_ConnDelete uuid "string option"
  | Stmt_ConnRestore uuid
  | Stmt_SetIssuedVia uuid string
  | Stmt_SetIncludeInMain uuid bool
  | Stmt_Watermark uuid int int datetime
  | Stmt_SubCreate subscription
  | Stmt_InsertChild uuid subscription
  | Stmt_UpdateSubscription uuid datetime string "uuid option" "env option" "string option"
  | Stmt_AddDays uuid int
  | Stmt_AddLimitBytes uuid uuid int
  | Stmt_SetPremiumFields uuid "env option" "string option"
  | Stmt_SetSelfhostedLimits uuid int int
  | Stmt_SubDelete uuid
  | Stmt_NodeUpsert uuid node
  | Stmt_InsertPrivateNode env uuid node
  | Stmt_NodeDelete uuid
  | Stmt_NodeStatus uuid node_status

fun run_stmt :: "'u link_lib \<Rightarrow> datetime \<Rightarrow> fault \<Rightarrow> pg_stmt \<Rightarrow> pg \<Rightarrow> pg" where
  "run_stmt lib now fault (Stmt_ConnInsert row) db = fst (pg_conn_insert lib fault row db)"
| "run_stmt lib now fault (Stmt_ConnDelete u reason) db = fst (pg_conn_delete fault u reason db)"
| "run_stmt lib now fault (Stmt_ConnRestore u) db = fst (pg_conn_restore fault u db)"
| "run_stmt lib now fault (Stmt_SetIssuedVia u v) db = fst (pg_set_issued_via fault u v db)"
| "run_stmt lib now fault (Stmt_SetIncludeInMain u b) db = fst (pg_set_include_in_main fault u b db)"
| "run_stmt lib now fault (Stmt_Watermark u up down t) db = fst (pg_update_watermark fault u up down t db)"
| "run_stmt lib now fault (Stmt_SubCreate s) db = fst (pg_sub_create now fault s db)"
| "run_stmt lib now fault (Stmt_InsertChild owner s) db = fst (pg_insert_child now fault owner s db)"
| "run_stmt lib now fault (Stmt_UpdateSubscription u e c p s t) db = fst (pg_update_subscription now fault u e c p s t db)"
| "run_stmt lib now fault (Stmt_AddDays u d) db = fst (pg_add_days now fault u d db)"
| "run_stmt lib now fault (Stmt_AddLimitBytes u trace b) db = fst (pg_add_limit_bytes now fault u trace b db)"
| "run_stmt lib now fault (Stmt_SetPremiumFields u s t) db = fst (pg_set_premium_fields now fault u s t db)"
| "run_stmt lib now fault (Stmt_SetSelfhostedLimits u a b) db = fst (pg_set_selfhosted_limits now fault u a b db)"
| "run_stmt lib now fault (Stmt_SubDelete u) db = fst (pg_sub_delete now fault u db)"
| "run_stmt lib now fault (Stmt_NodeUpsert u n) db = fst (pg_node_upsert lib fault u n db)"
| "run_stmt lib now fault (Stmt_InsertPrivateNode e u n) db = fst (pg_insert_private_node lib fault e u n db)"
| "run_stmt lib now fault (Stmt_NodeDelete u) db = fst (pg_node_delete fault u db)"
| "run_stmt lib now fault (Stmt_NodeStatus u s) db = fst (pg_node_update_status now fault u s db)"

lemmas pg_wf_stmts = pg_wf_conn_insert pg_wf_insert_child pg_wf_insert_private_node pg_wf_add_limit pg_wf_node_subset
  pg_wf_node_status

lemma pg_wf_run_stmt: "pg_wf db \<Longrightarrow> pg_wf (run_stmt lib now fault st db)"
  by (cases st)
    (auto simp: pg_wf_stmts pg_conn_delete_def pg_conn_restore_def pg_set_issued_via_def pg_set_include_in_main_def
       pg_update_watermark_def pg_sub_create_def pg_update_subscription_def pg_add_days_def pg_set_premium_fields_def
       pg_set_selfhosted_limits_def pg_sub_delete_def pg_node_upsert_def Let_def
     intro!: pg_wf_update_conn pg_wf_update_sub_row pg_wf_on_db pg_wf_sub_insert pg_wf_upsert_node split: option.split)


definition demo_row :: sub_row where
  "demo_row = sub_insert_cols 0 (subscription_new 0 1 ''code'' None (Some 50)) ''code         ''"

definition demo_pg :: pg where
  "demo_pg = \<lparr> pg_conns = [], pg_subs = [demo_row], pg_topups = [], pg_nodes = [] \<rparr>"

lemma demo_pg_wf: "pg_wf demo_pg"
  by (simp add: demo_pg_def demo_row_def pg_wf_def conns_wf_def subs_wf_def node_rows_wf_def sub_refs_def
      sub_insert_cols_def subscription_new_def)


section \<open>Connections survive a reload\<close>

text \<open>What a row keeps of the protocol: everything but the secret of an MTProto connection.\<close>

fun stored_proto :: "proto \<Rightarrow> proto" where
  "stored_proto (Proto_Mtproto _) = Proto_Xray Tag_Mtproto"
| "stored_proto p = p"

definition storable :: "conn \<Rightarrow> bool" where
  "storable c \<longleftrightarrow> env_normal (c_env c)
    \<and> (case c_proto c of Proto_Xray t \<Rightarrow> t \<in> {Tag_VlessTcpReality, Tag_VlessGrpcReality, Tag_VlessXhttpReality,
         Tag_VlessXhttpCdn, Tag_Vmess} | _ \<Rightarrow> True)
    \<and> (case conn_wg_param c of None \<Rightarrow> True
       | Some w \<Rightarrow> is_ipv4 (ipm_address (wg_address w)) \<and> cidr_valid (wg_address w))"

lemma env_of_display: "env_normal e \<Longrightarrow> env_of_str (env_display e) = e"
  using env_codec.roundtrip[of e] by (simp add: env_of_str_def)



section \<open>Top-ups and caps\<close>

definition topped :: "uuid \<Rightarrow> pg \<Rightarrow> int" where
  "topped sid db = sum_list (map (\<lambda>(_, s, b). if s = sid then b else 0) (pg_topups db))"

definition limit_of :: "uuid \<Rightarrow> pg \<Rightarrow> int option" where
  "limit_of sid db =
    map_option (\<lambda>r. unwrap_or (row_limit_bytes r) 0) (List.find (\<lambda>r. row_id r = sid) (pg_subs db))"

lemma find_upd_sub:
  "(\<And>r. row_id (f r) = row_id r) \<Longrightarrow>
   List.find (\<lambda>r. row_id r = sid) (upd_sub u f rows)
   = map_option (\<lambda>r. if sid = u then f r else r) (List.find (\<lambda>r. row_id r = sid) rows)"
  by (induction rows) (auto simp: upd_sub_def)

lemma find_append: "List.find P (xs @ ys) = (case List.find P xs of None \<Rightarrow> List.find P ys | Some x \<Rightarrow> Some x)"
  by (induction xs) auto

text \<open>No statement but the top-up touches the balance of a subscription or the ledger.\<close>

definition keeps_balance :: "pg \<Rightarrow> pg \<Rightarrow> bool" where
  "keeps_balance db db' \<longleftrightarrow> pg_topups db' = pg_topups db
    \<and> (\<forall>sid l. limit_of sid db = Some l \<longrightarrow> limit_of sid db' = Some l)"

lemma keeps_balance_same: "pg_topups db' = pg_topups db \<Longrightarrow> pg_subs db' = pg_subs db \<Longrightarrow> keeps_balance db db'"
  by (simp add: keeps_balance_def limit_of_def)

lemma keeps_balance_on_db: "keeps_balance db (fst (stmt db)) \<Longrightarrow> keeps_balance db (fst (on_db fault stmt db))"
  by (auto simp: on_db_def keeps_balance_def split: option.split)

lemma keeps_balance_refl [simp]: "keeps_balance db db"
  by (simp add: keeps_balance_def)

lemma limit_of_upd:
  assumes "\<And>r. row_id (f r) = row_id r" "\<And>r. row_limit_bytes (f r) = row_limit_bytes r"
  shows "limit_of sid (db\<lparr>pg_subs := upd_sub u f (pg_subs db)\<rparr>) = limit_of sid db"
  unfolding limit_of_def using assms(2)
  by (cases "List.find (\<lambda>r. row_id r = sid) (pg_subs db)") (simp_all add: find_upd_sub[OF assms(1)])

lemma keeps_balance_update_sub:
  assumes "\<And>r. row_id (f r) = row_id r" "\<And>r. row_limit_bytes (f r) = row_limit_bytes r"
  shows "keeps_balance db (fst (pg_update_sub_row u f db))"
proof -
  have "keeps_balance db (db\<lparr>pg_subs := upd_sub u f (pg_subs db)\<rparr>)"
    using limit_of_upd[OF assms] by (simp add: keeps_balance_def)
  then show ?thesis by (simp add: pg_update_sub_row_def split: option.split)
qed

lemma keeps_balance_insert: "keeps_balance db (fst (pg_sub_insert_row now s db))"
  by (auto simp: keeps_balance_def limit_of_def pg_sub_insert_row_def Let_def find_append split: option.splits)

lemma keeps_balance_stmt:
  "(\<forall>u t b. st \<noteq> Stmt_AddLimitBytes u t b) \<Longrightarrow> keeps_balance db (run_stmt lib now fault st db)"
proof (cases st)
  case (Stmt_InsertChild owner s)
  have "keeps_balance db (fst (pg_insert_child now fault owner s db))"
    using keeps_balance_insert[of db now s] unfolding pg_insert_child_def
    by (intro keeps_balance_on_db) (auto simp: keeps_balance_same Let_def split: option.split prod.split sum.split)
  then show ?thesis using Stmt_InsertChild by simp
next
  case (Stmt_InsertPrivateNode e u n)
  then show ?thesis
    by (auto simp: pg_insert_private_node_def on_db_def pg_upsert_node_tx_def Let_def
        intro!: keeps_balance_same split: option.split list.split prod.split sum.split)
qed (auto simp: pg_conn_insert_def pg_conn_delete_def pg_conn_restore_def pg_set_issued_via_def pg_set_include_in_main_def
       pg_update_watermark_def pg_sub_create_def pg_update_subscription_def pg_add_days_def pg_set_premium_fields_def
       pg_set_selfhosted_limits_def pg_sub_delete_def pg_node_upsert_def pg_update_conn_def pg_upsert_node_tx_def
       pg_node_delete_def pg_node_update_status_def Let_def on_db_def keeps_balance_update_sub keeps_balance_insert
       keeps_balance_same split: option.split)

lemma add_limit_balance:
  assumes "limit_of sid db = Some l"
  shows "limit_of sid (fst (pg_add_limit_bytes now fault s trace b db))
    = Some (l + (topped sid (fst (pg_add_limit_bytes now fault s trace b db)) - topped sid db))"
proof -
  let ?f = "\<lambda>n r. r\<lparr>row_limit_bytes := Some n, row_updated_at := now\<rparr>"
  have "List.find (\<lambda>r. row_id r = sid) (upd_sub s (?f n) rows)
    = map_option (\<lambda>r. if sid = s then ?f n r else r) (List.find (\<lambda>r. row_id r = sid) rows)" for n rows
    by (rule find_upd_sub) simp
  then show ?thesis
    using assms
    by (auto simp: pg_add_limit_bytes_def on_db_def Let_def limit_of_def topped_def unwrap_or_def
        split: option.splits)
qed

lemma run_stmt_balance:
  assumes "limit_of sid db = Some l"
  shows "limit_of sid (run_stmt lib now fault st db) = Some (l + (topped sid (run_stmt lib now fault st db) - topped sid db))"
proof (cases "\<exists>u t b. st = Stmt_AddLimitBytes u t b")
  case True
  then show ?thesis using add_limit_balance[OF assms] by auto
next
  case False
  then have "keeps_balance db (run_stmt lib now fault st db)" using keeps_balance_stmt[of st] by blast
  then show ?thesis using assms by (simp add: keeps_balance_def topped_def)
qed

text \<open>
  C11: The traffic balance of a subscription is its ledger of top-ups. Over any run of the
  statements of the api, with faults and repeated requests, the limit of a subscription changes
  by exactly the bytes of the top-ups that the run records for it, and no payment (trace id) is
  recorded twice.
\<close>

theorem topup_ledger:
  assumes "pg_wf db" "limit_of sid db = Some l"
    and "db' = fold (\<lambda>(now, fault, st). run_stmt lib now fault st) run db"
  shows "limit_of sid db' = Some (l + (topped sid db' - topped sid db)) \<and> distinct (map fst (pg_topups db'))"
proof -
  have "limit_of sid (fold (\<lambda>(now, fault, st). run_stmt lib now fault st) run d)
      = Some (k + (topped sid (fold (\<lambda>(now, fault, st). run_stmt lib now fault st) run d) - topped sid d))"
    if "limit_of sid d = Some k" for d k
    using that
  proof (induction run arbitrary: d k)
    case (Cons x run)
    obtain now fault st where x: "x = (now, fault, st)" by (cases x)
    show ?case
      using Cons.IH[OF run_stmt_balance[OF Cons.prems, of lib now fault st]] x by simp
  qed simp
  moreover have "pg_wf (fold (\<lambda>(now, fault, st). run_stmt lib now fault st) run d)" if "pg_wf d" for d
    using that by (induction run arbitrary: d) (auto simp: pg_wf_run_stmt)
  ultimately show ?thesis using assms by (auto simp: pg_wf_def)
qed

theorem topup_ledger_witness:
  "limit_of 1 (fold (\<lambda>(now, fault, st). run_stmt demo_lib now fault st)
     [(5, None, Stmt_AddLimitBytes 1 9 30), (6, None, Stmt_AddLimitBytes 1 9 30),
      (7, Some Err_Conflict, Stmt_AddLimitBytes 1 8 5)] demo_pg) = Some 80"
proof -
  have l: "limit_of 1 demo_pg = Some 50"
    by (simp add: limit_of_def demo_pg_def demo_row_def sub_insert_cols_def subscription_new_def unwrap_or_def)
  show ?thesis
    using topup_ledger[OF demo_pg_wf l refl, of demo_lib
        "[(5, None, Stmt_AddLimitBytes 1 9 30), (6, None, Stmt_AddLimitBytes 1 9 30),
          (7, Some Err_Conflict, Stmt_AddLimitBytes 1 8 5)]"]
    by (simp add: pg_add_limit_bytes_def on_db_def demo_pg_def demo_row_def sub_insert_cols_def subscription_new_def
        unwrap_or_def in_i64_def topped_def Let_def)
qed

text \<open>
  The statements that can add users to an account without asking for a free slot, or that change
  the cap itself. Handlers use them for accounts that are not self-hosted, and the admin's form.
\<close>

fun bypasses_cap :: "uuid \<Rightarrow> pg_stmt \<Rightarrow> bool" where
  "bypasses_cap owner (Stmt_SubCreate s) \<longleftrightarrow> sub_parent_id s = Some owner"
| "bypasses_cap owner (Stmt_InsertChild o' s) \<longleftrightarrow> sub_parent_id s = Some owner \<and> o' \<noteq> owner"
| "bypasses_cap owner (Stmt_UpdateSubscription u e c p s t) \<longleftrightarrow> p = Some owner"
| "bypasses_cap owner (Stmt_SetSelfhostedLimits u a b) \<longleftrightarrow> u = owner"
| "bypasses_cap owner _ \<longleftrightarrow> False"

definition cap_of :: "uuid \<Rightarrow> pg \<Rightarrow> int option" where
  "cap_of owner db =
    map_option (\<lambda>r. max 0 (unwrap_or (row_user_limit32 r) DEFAULT_USER_LIMIT))
      (List.find (\<lambda>r. row_id r = owner) (pg_subs db))"

definition keeps_cap :: "uuid \<Rightarrow> pg \<Rightarrow> pg \<Rightarrow> bool" where
  "keeps_cap owner db db' \<longleftrightarrow> length (live_children owner db') \<le> length (live_children owner db)
    \<and> (\<forall>l. cap_of owner db = Some l \<longrightarrow> cap_of owner db' = Some l)"

lemma keeps_cap_refl [simp]: "keeps_cap owner db db"
  by (simp add: keeps_cap_def)

lemma keeps_cap_same: "pg_subs db' = pg_subs db \<Longrightarrow> keeps_cap owner db db'"
  by (simp add: keeps_cap_def cap_of_def live_children_def)

lemma length_filter_map_le: "(\<And>x. P (g x) \<Longrightarrow> P x) \<Longrightarrow> length (filter P (map g xs)) \<le> length (filter P xs)"
  by (induction xs) (auto intro: le_SucI)

lemma keeps_cap_upd:
  assumes subs: "pg_subs db' = upd_sub u f (pg_subs db)" and id: "\<And>r. row_id (f r) = row_id r"
    and par: "\<And>r. row_parent_id (f r) = Some owner \<Longrightarrow> row_parent_id r = Some owner"
    and del: "\<And>r. row_is_deleted r \<Longrightarrow> row_is_deleted (f r)"
    and lim: "u = owner \<Longrightarrow> \<forall>r. row_user_limit32 (f r) = row_user_limit32 r"
  shows "keeps_cap owner db db'"
proof -
  have "length (live_children owner db') \<le> length (live_children owner db)"
    unfolding live_children_def subs upd_sub_def
    by (rule length_filter_map_le) (use par del in \<open>auto split: if_splits\<close>)
  moreover have "cap_of owner db' = cap_of owner db"
    unfolding cap_of_def subs using lim
    by (cases "List.find (\<lambda>r. row_id r = owner) (pg_subs db)") (auto simp: find_upd_sub[OF id])
  ultimately show ?thesis by (simp add: keeps_cap_def)
qed

lemma keeps_cap_update_sub:
  assumes "\<And>r. row_id (f r) = row_id r"
    and "\<And>r. row_parent_id (f r) = Some owner \<Longrightarrow> row_parent_id r = Some owner"
    and "\<And>r. row_is_deleted r \<Longrightarrow> row_is_deleted (f r)"
    and "u = owner \<Longrightarrow> \<forall>r. row_user_limit32 (f r) = row_user_limit32 r"
  shows "keeps_cap owner db (fst (pg_update_sub_row u f db))"
  using keeps_cap_upd[where db' = "db\<lparr>pg_subs := upd_sub u f (pg_subs db)\<rparr>" and db = db, OF _ assms]
  by (simp add: pg_update_sub_row_def split: option.split)

lemma sub_insert_row_effect:
  "fst (pg_sub_insert_row now s db) = db
   \<or> (\<exists>code. fst (pg_sub_insert_row now s db) = db\<lparr>pg_subs := pg_subs db @ [sub_insert_cols now s code]\<rparr>)"
  by (auto simp: pg_sub_insert_row_def Let_def split: option.split)

lemma keeps_cap_insert: "sub_parent_id s \<noteq> Some owner \<Longrightarrow> keeps_cap owner db (fst (pg_sub_insert_row now s db))"
  using sub_insert_row_effect[of now s db]
  by (auto simp: keeps_cap_def cap_of_def live_children_def find_append sub_insert_cols_def)

lemma keeps_cap_insert_child:
  assumes "sub_parent_id s \<noteq> Some owner"
  shows "keeps_cap owner db (fst (pg_insert_child now fault o' s db))"
  using keeps_cap_insert[OF assms, of db now]
  by (auto simp: pg_insert_child_def on_db_def Let_def split: option.split prod.split sum.split)

lemma keeps_cap_stmt:
  "\<not> bypasses_cap owner st \<Longrightarrow> (\<forall>s. st \<noteq> Stmt_InsertChild owner s) \<Longrightarrow>
   keeps_cap owner db (run_stmt lib now fault st db)"
proof (cases st)
  case (Stmt_InsertPrivateNode e u n)
  then show ?thesis
    by (auto simp: pg_insert_private_node_def on_db_def pg_upsert_node_tx_def Let_def
        intro!: keeps_cap_same split: option.split list.split prod.split sum.split)
qed (auto simp: pg_conn_insert_def pg_conn_delete_def pg_conn_restore_def pg_set_issued_via_def pg_set_include_in_main_def
       pg_update_watermark_def pg_sub_create_def pg_update_subscription_def pg_add_days_def pg_set_premium_fields_def
       pg_set_selfhosted_limits_def pg_sub_delete_def pg_node_upsert_def pg_update_conn_def pg_upsert_node_tx_def
       pg_node_delete_def pg_node_update_status_def pg_add_limit_bytes_def Let_def on_db_def
       keeps_cap_insert keeps_cap_insert_child keeps_cap_same
     intro!: keeps_cap_update_sub intro: keeps_cap_upd split: option.split)

lemma insert_child_cap:
  assumes wf: "pg_wf db" and cap: "cap_of owner db = Some l" and n: "int (length (live_children owner db)) \<le> l"
  shows "cap_of owner (fst (pg_insert_child now fault owner s db)) = Some l
    \<and> int (length (live_children owner (fst (pg_insert_child now fault owner s db)))) \<le> l"
proof -
  let ?db' = "fst (pg_insert_child now fault owner s db)"
  obtain r where r: "List.find (\<lambda>r. row_id r = owner) (pg_subs db) = Some r"
    and l: "l = max 0 (unwrap_or (row_user_limit32 r) DEFAULT_USER_LIMIT)"
    using cap by (auto simp: cap_of_def)
  have uniq: "q = r" if "q \<in> set (pg_subs db)" "row_id q = owner" for q
    using find_row[OF _ r] wf that by (simp add: pg_wf_def subs_wf_def)
  have "?db' = db \<or> (int (length (live_children owner db)) < l \<and> ?db' = fst (pg_sub_insert_row now s db))"
  proof (cases "List.find (\<lambda>q. row_id q = owner \<and> \<not> row_is_deleted q) (pg_subs db)")
    case None
    then show ?thesis by (simp add: pg_insert_child_def on_db_def split: option.split)
  next
    case (Some q)
    then have "q = r" using uniq by (auto simp: find_Some_iff)
    then show ?thesis
      using Some l by (auto simp: pg_insert_child_def on_db_def Let_def split: option.split prod.split sum.split)
  qed
  then consider "?db' = db" | "int (length (live_children owner db)) < l" "?db' = fst (pg_sub_insert_row now s db)" by blast
  then show ?thesis
  proof cases
    case 1
    then show ?thesis using cap n by simp
  next
    case 2
    then show ?thesis
      using sub_insert_row_effect[of now s db] cap r
      by (auto simp: cap_of_def live_children_def find_append)
  qed
qed

text \<open>
  C12: A self-hosted account never has more users than its cap. Over every run of statements in
  which users enter only through \<open>insert_child_within_user_limit\<close> and nobody changes the cap, an
  account that starts within its cap stays within it, whatever requests compete for the last slot.
\<close>

theorem user_cap_never_exceeded:
  assumes "pg_wf db" "cap_of owner db = Some l" "int (length (live_children owner db)) \<le> l"
    and "list_all (\<lambda>(now, fault, st). \<not> bypasses_cap owner st) run"
    and "db' = fold (\<lambda>(now, fault, st). run_stmt lib now fault st) run db"
  shows "cap_of owner db' = Some l \<and> int (length (live_children owner db')) \<le> l"
proof -
  have "cap_of owner (fold (\<lambda>(now, fault, st). run_stmt lib now fault st) run d) = Some l
      \<and> int (length (live_children owner (fold (\<lambda>(now, fault, st). run_stmt lib now fault st) run d))) \<le> l"
    if "pg_wf d" "cap_of owner d = Some l" "int (length (live_children owner d)) \<le> l"
      "list_all (\<lambda>(now, fault, st). \<not> bypasses_cap owner st) run" for d
    using that
  proof (induction run arbitrary: d)
    case (Cons x run)
    obtain now fault st where x: "x = (now, fault, st)" by (cases x)
    let ?d = "run_stmt lib now fault st d"
    have "cap_of owner ?d = Some l \<and> int (length (live_children owner ?d)) \<le> l"
    proof (cases "\<exists>s. st = Stmt_InsertChild owner s")
      case True
      then show ?thesis using insert_child_cap[OF Cons.prems(1-3)] by auto
    next
      case False
      then have "keeps_cap owner d ?d" using Cons.prems(4) x keeps_cap_stmt[of owner st] by auto
      then show ?thesis using Cons.prems(2,3) by (auto simp: keeps_cap_def)
    qed
    then show ?case
      using Cons.IH[of ?d] Cons.prems(1,4) x by (simp add: pg_wf_run_stmt)
  qed simp
  then show ?thesis using assms by blast
qed

theorem user_cap_never_exceeded_witness:
  "\<exists>db'. db' = fold (\<lambda>(now, fault, st). run_stmt demo_lib now fault st)
      [(5, None, Stmt_InsertChild 1 (subscription_new_user_child (\<lambda>_. ''x'') 5 2 1))] demo_pg
    \<and> int (length (live_children 1 db')) \<le> 20 \<and> cap_of 1 demo_pg = Some 20"
proof -
  have c: "cap_of 1 demo_pg = Some 20" "int (length (live_children 1 demo_pg)) \<le> 20"
    by (simp_all add: cap_of_def live_children_def demo_pg_def demo_row_def sub_insert_cols_def subscription_new_def
        unwrap_or_def DEFAULT_USER_LIMIT_def wrap32_def)
  show ?thesis
    using user_cap_never_exceeded[OF demo_pg_wf c, of "[(5, None, Stmt_InsertChild 1 (subscription_new_user_child (\<lambda>_. ''x'') 5 2 1))]"
        _ demo_lib] c by simp
qed

end
