(* ===== verification/Traffic_Table.thy ===== *)
theory Traffic_Table
  imports Pg_Tables "HOL-Library.Product_Lexorder"
begin

text \<open>
  The table of traffic buckets and the statements of \<^verbatim>\<open>src/bin/api/postgres/traffic.rs\<close>. A row holds the bytes of
  one connection in one bucket of one period, \<open>day\<close> or \<open>month\<close>; the daily rows are the lifetime total.

  A row's own creation and update times are left out: no statement reads them. Sums are numbers of any size
  in the database and are cast to 64 bits when they are read, so a sum out of range is an error. The groups
  of a query come in the order in which the rows first show them where the query has no \<open>ORDER BY\<close>.
\<close>

section \<open>Rows and statements\<close>

record traffic_row =
  tr_conn :: uuid
  tr_sub :: uuid
  tr_env :: string
  tr_period :: string
  tr_bucket :: datetime
  tr_up :: int
  tr_down :: int

definition DAY :: string where "DAY = ''day''"
definition MONTH :: string where "MONTH = ''month''"

definition bucket_key :: "traffic_row \<Rightarrow> uuid \<times> string \<times> datetime" where
  "bucket_key r = (tr_conn r, tr_period r, tr_bucket r)"

definition merge_bucket :: "traffic_row \<Rightarrow> traffic_row \<Rightarrow> traffic_row" where
  "merge_bucket new r = r\<lparr>tr_up := tr_up r + tr_up new, tr_down := tr_down r + tr_down new\<rparr>"

definition upsert_bucket ::
  "fault \<Rightarrow> traffic_row \<Rightarrow> pg \<Rightarrow> traffic_row list \<Rightarrow> traffic_row list \<times> (error + unit)" where
  "upsert_bucket fault new db rows =
    (case fault of
       Some e \<Rightarrow> (rows, Inl e)
     | None \<Rightarrow>
         if tr_period new \<notin> {DAY, MONTH}
         then (rows, Inl (Err_Database ''new row violates check constraint''))
         else if Some (tr_sub new) \<notin> (\<lambda>r. Some (row_id r)) ` set (pg_subs db)
         then (rows, Inl (Err_Database ''foreign key violation''))
         else if bucket_key new \<notin> bucket_key ` set rows then (rows @ [new], Inr ())
         else if list_all (\<lambda>r. bucket_key r = bucket_key new \<longrightarrow>
                             in_i64 (tr_up r + tr_up new) \<and> in_i64 (tr_down r + tr_down new)) rows
         then (map (\<lambda>r. if bucket_key r = bucket_key new then merge_bucket new r else r) rows, Inr ())
         else (rows, Inl (Err_Database ''bigint out of range'')))"

definition sum_up :: "traffic_row list \<Rightarrow> int" where
  "sum_up rows = sum_list (map tr_up rows)"

definition sum_down :: "traffic_row list \<Rightarrow> int" where
  "sum_down rows = sum_list (map tr_down rows)"

text \<open>\<open>COALESCE(SUM(...)::BIGINT, 0)\<close> of both columns.\<close>

definition byte_sums :: "traffic_row list \<Rightarrow> error + int \<times> int" where
  "byte_sums rows =
    (if in_i64 (sum_up rows) \<and> in_i64 (sum_down rows) then Inr (sum_up rows, sum_down rows)
     else Inl (Err_Database ''bigint out of range''))"

fun collect :: "(error + 'a) list \<Rightarrow> error + 'a list" where
  "collect [] = Inr []"
| "collect (Inl e # xs) = Inl e"
| "collect (Inr x # xs) = (case collect xs of Inl e \<Rightarrow> Inl e | Inr ys \<Rightarrow> Inr (x # ys))"

definition group_sums :: "(traffic_row \<Rightarrow> 'k) \<Rightarrow> traffic_row list \<Rightarrow> error + ('k \<times> int \<times> int) list" where
  "group_sums key rows =
    collect (map (\<lambda>k. case byte_sums (filter (\<lambda>r. key r = k) rows) of Inl e \<Rightarrow> Inl e | Inr s \<Rightarrow> Inr (k, s))
               (remdups (map key rows)))"

definition live_conn :: "pg \<Rightarrow> uuid \<Rightarrow> bool" where
  "live_conn db u \<longleftrightarrow> list_ex (\<lambda>p. pc_id p = u \<and> \<not> pc_is_deleted p) (pg_conns db)"

definition day_rows :: "uuid \<Rightarrow> traffic_row list \<Rightarrow> traffic_row list" where
  "day_rows sid rows = filter (\<lambda>r. tr_sub r = sid \<and> tr_period r = DAY) rows"

definition total_for_subscription :: "fault \<Rightarrow> uuid \<Rightarrow> pg \<Rightarrow> traffic_row list \<Rightarrow> error + int \<times> int" where
  "total_for_subscription fault sid db rows =
    (case fault of Some e \<Rightarrow> Inl e | None \<Rightarrow> byte_sums (filter (\<lambda>r. live_conn db (tr_conn r)) (day_rows sid rows)))"

definition per_connection_for_subscription ::
  "fault \<Rightarrow> uuid \<Rightarrow> traffic_row list \<Rightarrow> error + (uuid \<times> int \<times> int) list" where
  "per_connection_for_subscription fault sid rows =
    (case fault of Some e \<Rightarrow> Inl e | None \<Rightarrow> group_sums tr_conn (day_rows sid rows))"

definition env_totals_for_subscription ::
  "fault \<Rightarrow> uuid \<Rightarrow> pg \<Rightarrow> traffic_row list \<Rightarrow> error + (string \<times> int \<times> int) list" where
  "env_totals_for_subscription fault sid db rows =
    (case fault of Some e \<Rightarrow> Inl e
     | None \<Rightarrow> group_sums tr_env (filter (\<lambda>r. live_conn db (tr_conn r)) (day_rows sid rows)))"

definition in_range :: "datetime option \<Rightarrow> datetime option \<Rightarrow> datetime \<Rightarrow> bool" where
  "in_range a b t \<longleftrightarrow> (case a of None \<Rightarrow> True | Some x \<Rightarrow> t \<ge> x) \<and> (case b of None \<Rightarrow> True | Some y \<Rightarrow> t \<le> y)"

definition history ::
  "fault \<Rightarrow> uuid \<Rightarrow> string \<Rightarrow> datetime option \<Rightarrow> datetime option \<Rightarrow> traffic_row list
   \<Rightarrow> error + ((datetime \<times> string) \<times> int \<times> int) list" where
  "history fault sid period from to rows =
    (case fault of Some e \<Rightarrow> Inl e
     | None \<Rightarrow>
         map_sum id (sort_key fst)
           (group_sums (\<lambda>r. (tr_bucket r, tr_env r))
              (filter (\<lambda>r. tr_sub r = sid \<and> tr_period r = period \<and> in_range from to (tr_bucket r)) rows)))"

definition env_breakdown ::
  "fault \<Rightarrow> uuid \<Rightarrow> string \<Rightarrow> datetime \<Rightarrow> pg \<Rightarrow> traffic_row list \<Rightarrow> error + (string \<times> int \<times> int) list" where
  "env_breakdown fault sid period bucket db rows =
    (case fault of Some e \<Rightarrow> Inl e
     | None \<Rightarrow>
         group_sums tr_env
           (filter (\<lambda>r. tr_sub r = sid \<and> tr_period r = period \<and> tr_bucket r = bucket \<and> live_conn db (tr_conn r)) rows))"

section \<open>Sums\<close>

definition traffic_wf :: "traffic_row list \<Rightarrow> bool" where
  "traffic_wf rows \<longleftrightarrow> distinct (map bucket_key rows) \<and> (\<forall>r \<in> set rows. tr_period r \<in> {DAY, MONTH})"

lemma map_merge_keys: "map bucket_key (map (\<lambda>r. if bucket_key r = k then merge_bucket new r else r) rows) = map bucket_key rows"
  by (simp add: merge_bucket_def bucket_key_def)

lemma traffic_wf_upsert: "traffic_wf rows \<Longrightarrow> traffic_wf (fst (upsert_bucket fault new db rows))"
proof -
  assume wf: "traffic_wf rows"
  have "traffic_wf (map (\<lambda>r. if bucket_key r = bucket_key new then merge_bucket new r else r) rows)"
    using wf unfolding traffic_wf_def map_merge_keys by (auto simp: merge_bucket_def)
  moreover have "bucket_key new \<notin> bucket_key ` set rows \<Longrightarrow> tr_period new \<in> {DAY, MONTH} \<Longrightarrow> traffic_wf (rows @ [new])"
    using wf by (auto simp: traffic_wf_def)
  ultimately show ?thesis using wf by (auto simp: upsert_bucket_def split: option.splits)
qed

text \<open>
  What an accepted upsert adds to any sum over rows chosen by their connection, period and bucket: the new
  bytes when the bucket's rows are chosen.
\<close>

lemma sum_list_update_one:
  fixes f g :: "'a \<Rightarrow> int"
  assumes "distinct (map key rows)" "k \<in> key ` set rows" "\<And>r. r \<in> set rows \<Longrightarrow> key r = k \<Longrightarrow> g r = f r + d"
    "\<And>r. r \<in> set rows \<Longrightarrow> key r \<noteq> k \<Longrightarrow> g r = f r"
  shows "sum_list (map g rows) = sum_list (map f rows) + d"
  using assms
proof (induction rows)
  case (Cons r rows)
  show ?case
  proof (cases "key r = k")
    case True
    then have "\<And>q. q \<in> set rows \<Longrightarrow> key q \<noteq> k" using Cons.prems(1) by (metis distinct.simps(2) image_eqI list.simps(9) list.set_map)
    then have "map g rows = map f rows" using Cons.prems(4) by auto
    moreover have "g r = f r + d" using Cons.prems(3)[of r] True by simp
    ultimately show ?thesis by (simp only: list.map sum_list.Cons add.assoc add.commute[of d])
  next
    case False
    then show ?thesis using Cons.IH Cons.prems by auto
  qed
qed simp

definition col_sum :: "(traffic_row \<Rightarrow> int) \<Rightarrow> (traffic_row \<Rightarrow> bool) \<Rightarrow> traffic_row list \<Rightarrow> int" where
  "col_sum col P rows = sum_list (map col (filter P rows))"

lemma col_sum_alt: "col_sum col P rows = sum_list (map (\<lambda>r. if P r then col r else 0) rows)"
  by (induction rows) (simp_all add: col_sum_def)

lemma upsert_col_sum:
  assumes wf: "traffic_wf rows" and ok: "upsert_bucket fault new db rows = (rows', Inr ())"
    and col: "\<And>r. col (merge_bucket new r) = col r + col new"
    and P: "\<And>r. P (merge_bucket new r) = P r" "\<And>r. bucket_key r = bucket_key new \<Longrightarrow> r \<in> set rows \<Longrightarrow> P r = P new"
  shows "col_sum col P rows' = col_sum col P rows + (if P new then col new else 0)"
proof (cases "bucket_key new \<in> bucket_key ` set rows")
  case False
  then have "rows' = rows @ [new]" using ok by (auto simp: upsert_bucket_def split: option.splits if_splits)
  then show ?thesis by (simp add: col_sum_def)
next
  case True
  let ?m = "\<lambda>r. if bucket_key r = bucket_key new then merge_bucket new r else r"
  have r': "rows' = map ?m rows"
    using ok True by (auto simp: upsert_bucket_def split: option.splits if_splits)
  have d: "distinct (map bucket_key rows)" using wf by (simp add: traffic_wf_def)
  have "sum_list (map (\<lambda>r. if P (?m r) then col (?m r) else 0) rows)
      = sum_list (map (\<lambda>r. if P r then col r else 0) rows) + (if P new then col new else 0)"
    by (rule sum_list_update_one[OF d True]) (auto simp: col P)
  then show ?thesis unfolding col_sum_alt r' by (simp add: comp_def)
qed

lemma sum_list_group:
  fixes f :: "'a \<Rightarrow> int"
  assumes "distinct ks" "key ` set rows \<subseteq> set ks"
  shows "sum_list (map (\<lambda>k. sum_list (map f (filter (\<lambda>r. key r = k) rows))) ks) = sum_list (map f rows)"
  using assms(2)
proof (induction rows)
  case (Cons r rows)
  have "sum_list (map (\<lambda>k. sum_list (map f (filter (\<lambda>q. key q = k) (r # rows)))) ks)
      = sum_list (map (\<lambda>k. sum_list (map f (filter (\<lambda>q. key q = k) rows))) ks) + f r"
    by (rule sum_list_update_one[where key = "\<lambda>k. k" and k = "key r"]) (use Cons.prems assms(1) in auto)
  then show ?case using Cons by simp
qed simp

lemma collect_Inr: "collect xs = Inr ys \<longleftrightarrow> xs = map Inr ys"
proof -
  have "collect (map Inr zs) = Inr zs" for zs :: "'a list" by (induction zs) auto
  moreover have "collect xs = Inr ys \<Longrightarrow> xs = map Inr ys"
    by (induction xs arbitrary: ys rule: collect.induct) (auto split: sum.splits)
  ultimately show ?thesis by auto
qed

lemma map_Inr_images: "map h ks = map Inr gs \<Longrightarrow> (\<And>k z. h k = Inr z \<Longrightarrow> z = g k) \<Longrightarrow> gs = map g ks"
  by (induction ks arbitrary: gs) (auto simp: Cons_eq_map_conv)

definition group_of :: "(traffic_row \<Rightarrow> 'k) \<Rightarrow> traffic_row list \<Rightarrow> 'k \<Rightarrow> 'k \<times> int \<times> int" where
  "group_of key rows k = (k, sum_up (filter (\<lambda>r. key r = k) rows), sum_down (filter (\<lambda>r. key r = k) rows))"

lemma group_sums_Inr: "group_sums key rows = Inr gs \<Longrightarrow> gs = map (group_of key rows) (remdups (map key rows))"
  unfolding group_sums_def collect_Inr
  by (erule map_Inr_images) (auto simp: group_of_def byte_sums_def split: if_splits)

lemma group_sums_total:
  assumes "group_sums key rows = Inr gs"
  shows "sum_list (map (\<lambda>(_, u, _). u) gs) = sum_up rows" "sum_list (map (\<lambda>(_, _, d). d) gs) = sum_down rows"
  unfolding group_sums_Inr[OF assms] sum_up_def sum_down_def
  using sum_list_group[of "remdups (map key rows)" key rows tr_up] sum_list_group[of "remdups (map key rows)" key rows tr_down]
  by (simp_all add: comp_def group_of_def sum_up_def sum_down_def)

text \<open>The totals per environment add up to the total of the subscription.\<close>

lemma env_totals_add_up:
  assumes "env_totals_for_subscription None sid db rows = Inr gs" "total_for_subscription None sid db rows = Inr (u, d)"
  shows "sum_list (map (\<lambda>(_, u, _). u) gs) = u" "sum_list (map (\<lambda>(_, _, d). d) gs) = d"
  using assms group_sums_total[of tr_env "filter (\<lambda>r. live_conn db (tr_conn r)) (day_rows sid rows)" gs]
  by (auto simp: env_totals_for_subscription_def total_for_subscription_def byte_sums_def split: if_splits)

text \<open>A subscription without a live connection has used nothing.\<close>

lemma total_no_live:
  assumes "\<And>r. r \<in> set rows \<Longrightarrow> tr_sub r = sid \<Longrightarrow> \<not> live_conn db (tr_conn r)"
  shows "total_for_subscription None sid db rows = Inr (0, 0)"
proof -
  have "filter (\<lambda>r. live_conn db (tr_conn r)) (day_rows sid rows) = []"
    using assms by (auto simp: day_rows_def filter_empty_conv)
  then show ?thesis by (simp add: total_for_subscription_def byte_sums_def sum_up_def sum_down_def in_i64_def)
qed

end
