(* ===== verification/Sync_Ops.thy ===== *)
theory Sync_Ops
  imports Traffic_Table
begin

text \<open>
  The synchronised state of the api, \<^verbatim>\<open>MemSync\<close> of \<^verbatim>\<open>src/bin/api/sync/\<close>: the in-memory cache
  (\<^verbatim>\<open>Cache\<close> of \<^verbatim>\<open>src/bin/api/service.rs\<close>), the database behind it and the message bus, with every operation of
  \<^verbatim>\<open>SyncOp\<close> and the loaders of \<^verbatim>\<open>src/bin/api/postgres/pg.rs\<close>.

  Each call of the database takes a fault and each publication a bus fault: \<open>None\<close> lets it through, an
  error makes it fail without an effect. The bus is the list of what has been published. Log and audit lines
  are left out. The set of private nodes in the main feed is the table of \<^verbatim>\<open>postgres/private_feed.rs\<close>. The restorations that \<open>join_all\<close> runs side by side touch one connection each and are run in
  the order of the list.
\<close>

section \<open>State\<close>

record cache =
  ca_connections :: "(uuid, conn) hashmap"
  ca_subscriptions :: subscriptions
  ca_nodes :: nodes
  ca_conn_labels :: "(uuid, string) hashmap"
  ca_share_conns :: "uuid set"
  ca_conn_nodes :: "(uuid, uuid) hashmap"
  ca_main_feed_nodes :: "uuid set"
  ca_main_feed_excluded :: "uuid set"

definition cache_new :: cache where
  "cache_new = \<lparr> ca_connections = [], ca_subscriptions = [], ca_nodes = [], ca_conn_labels = [], ca_share_conns = {},
     ca_conn_nodes = [], ca_main_feed_nodes = {}, ca_main_feed_excluded = {} \<rparr>"

record mem_sync =
  ms_memory :: cache
  ms_db :: pg
  ms_traffic :: "traffic_row list"
  ms_private_feed :: "uuid set"
  ms_published :: "(topic \<times> message list) list"

text \<open>The statements on the private feed.\<close>

definition private_feed_insert :: "fault \<Rightarrow> uuid \<Rightarrow> mem_sync \<Rightarrow> mem_sync \<times> (error + unit)" where
  "private_feed_insert fault u s =
    (case fault of Some e \<Rightarrow> (s, Inl e) | None \<Rightarrow> (s\<lparr>ms_private_feed := insert u (ms_private_feed s)\<rparr>, Inr ()))"

definition private_feed_delete :: "fault \<Rightarrow> uuid \<Rightarrow> mem_sync \<Rightarrow> mem_sync \<times> (error + unit)" where
  "private_feed_delete fault u s =
    (case fault of Some e \<Rightarrow> (s, Inl e) | None \<Rightarrow> (s\<lparr>ms_private_feed := ms_private_feed s - {u}\<rparr>, Inr ()))"

type_synonym bus_fault = "sync_error option"

abbreviation on_memory :: "(cache \<Rightarrow> cache) \<Rightarrow> mem_sync \<Rightarrow> mem_sync" where
  "on_memory f s \<equiv> s\<lparr>ms_memory := f (ms_memory s)\<rparr>"

section \<open>Loading the cache\<close>

definition cache_add_conn :: "conn_row \<Rightarrow> cache \<Rightarrow> cache \<times> (error + status)" where
  "cache_add_conn row m =
    (case conn_of_row row of
       Inl e \<Rightarrow> (m, Inl e)
     | Inr c \<Rightarrow>
         let u = cr_id row;
             m1 = (case cr_label row of None \<Rightarrow> m | Some l \<Rightarrow> m\<lparr>ca_conn_labels := AList.update u l (ca_conn_labels m)\<rparr>);
             m2 = (case cr_node_id row of None \<Rightarrow> m1
                   | Some n \<Rightarrow> m1\<lparr>ca_conn_nodes := AList.update u n (ca_conn_nodes m1)\<rparr>);
             m3 = (if cr_issued_via row = Some ISSUED_VIA_SHARE
                   then m2\<lparr>ca_share_conns := insert u (ca_share_conns m2)\<rparr> else m2);
             m4 = (if cr_include_in_main row then m3
                   else m3\<lparr>ca_main_feed_excluded := insert u (ca_main_feed_excluded m3)\<rparr>);
             (conns, st) = conns_add u c (ca_connections m4)
         in (m4\<lparr>ca_connections := conns\<rparr>, Inr st))"

definition cache_add_node :: "node \<Rightarrow> cache \<Rightarrow> cache" where
  "cache_add_node n m = m\<lparr>ca_nodes := fst (nodes_add n (ca_nodes m))\<rparr>"

definition cache_add_subscription :: "subscription \<Rightarrow> cache \<Rightarrow> cache \<times> status" where
  "cache_add_subscription sub m =
    (let (subs, st) = subs_add sub (ca_subscriptions m) in (m\<lparr>ca_subscriptions := subs\<rparr>, st))"

section \<open>Nodes and subscriptions\<close>

definition add_node :: "'u link_lib \<Rightarrow> fault \<Rightarrow> uuid \<Rightarrow> node \<Rightarrow> mem_sync \<Rightarrow> mem_sync \<times> (sync_error + status)" where
  "add_node lib fault node_id n s =
    (case pg_node_upsert lib fault node_id n (ms_db s) of
       (db, Inl e) \<Rightarrow> (s\<lparr>ms_db := db\<rparr>, Inl (SyncErr_Database e))
     | (db, Inr _) \<Rightarrow>
         let (ns, st) = nodes_add n (ca_nodes (ms_memory s));
             s' = on_memory (\<lambda>m. m\<lparr>ca_nodes := ns\<rparr>) (s\<lparr>ms_db := db\<rparr>)
         in (s', case st of
                   St_Ok _ \<Rightarrow> Inr (St_Ok node_id)
                 | St_AlreadyExist _ \<Rightarrow> Inr (St_Ok node_id)
                 | St_Updated _ \<Rightarrow> Inr (St_Ok node_id)
                 | St_NotModified u \<Rightarrow> Inr (St_NotModified u)
                 | _ \<Rightarrow> Inl (SyncErr_Memory ''Unexpected operation status'')))"

definition delete_node :: "fault \<Rightarrow> uuid \<Rightarrow> mem_sync \<Rightarrow> mem_sync \<times> (sync_error + status)" where
  "delete_node fault u s =
    (case pg_node_delete fault u (ms_db s) of
       (db, Inl e) \<Rightarrow> (s\<lparr>ms_db := db\<rparr>, Inl (SyncErr_Database e))
     | (db, Inr _) \<Rightarrow>
         let (ns, gone) = nodes_remove u (ca_nodes (ms_memory s))
         in (on_memory (\<lambda>m. m\<lparr>ca_nodes := ns\<rparr>) (s\<lparr>ms_db := db\<rparr>),
             Inr (case gone of Some _ \<Rightarrow> St_Ok u | None \<Rightarrow> St_NotFound u)))"

text \<open>The node found in memory is a clone; the new status is written to the clone.\<close>

definition update_node_status ::
  "datetime \<Rightarrow> fault \<Rightarrow> uuid \<Rightarrow> env \<Rightarrow> node_status \<Rightarrow> mem_sync \<Rightarrow> mem_sync \<times> (sync_error + unit)" where
  "update_node_status now fault u e st s =
    (case pg_node_update_status now fault u st (ms_db s) of
       (db, Inl e) \<Rightarrow> (s\<lparr>ms_db := db\<rparr>, Inl (SyncErr_Database e))
     | (db, Inr _) \<Rightarrow> (s\<lparr>ms_db := db\<rparr>, Inr ()))"

definition add_sub :: "datetime \<Rightarrow> fault \<Rightarrow> subscription \<Rightarrow> mem_sync \<Rightarrow> mem_sync \<times> (sync_error + status)" where
  "add_sub db_now fault sub s =
    (case pg_sub_create db_now fault sub (ms_db s) of
       (db, Inl e) \<Rightarrow> (s\<lparr>ms_db := db\<rparr>, Inl (SyncErr_Database e))
     | (db, Inr _) \<Rightarrow>
         let (subs, st) = subs_add sub (ca_subscriptions (ms_memory s));
             s' = on_memory (\<lambda>m. m\<lparr>ca_subscriptions := subs\<rparr>) (s\<lparr>ms_db := db\<rparr>)
         in (s', case st of
                   St_Ok u \<Rightarrow> Inr (St_Ok u)
                 | St_Updated u \<Rightarrow> Inr (St_Updated u)
                 | St_AlreadyExist u \<Rightarrow> Inr (St_AlreadyExist u)
                 | St_BadRequest u msg \<Rightarrow> Inr (St_BadRequest u msg)
                 | _ \<Rightarrow> Inl (SyncErr_Memory ''Unexpected operation status'')))"

section \<open>Connections\<close>

definition add_conn ::
  "'u link_lib \<Rightarrow> fault \<Rightarrow> uuid \<Rightarrow> conn \<Rightarrow> string option \<Rightarrow> uuid option \<Rightarrow> string option \<Rightarrow> bool
   \<Rightarrow> mem_sync \<Rightarrow> mem_sync \<times> (sync_error + status)" where
  "add_conn lib fault u c label node_id issued_via include_in_main s =
    (let row = (conn_row_of_conn u c)\<lparr>cr_label := label, cr_node_id := node_id, cr_issued_via := issued_via,
                  cr_include_in_main := include_in_main\<rparr>
     in case pg_conn_insert lib fault row (ms_db s) of
          (db, Inl e) \<Rightarrow> (s\<lparr>ms_db := db\<rparr>, Inl (SyncErr_Database e))
        | (db, Inr _) \<Rightarrow>
            let m = ms_memory s;
                labels = (case label of None \<Rightarrow> ca_conn_labels m | Some l \<Rightarrow> AList.update u l (ca_conn_labels m));
                pins = (case node_id of None \<Rightarrow> ca_conn_nodes m | Some n \<Rightarrow> AList.update u n (ca_conn_nodes m));
                excluded = (if include_in_main then ca_main_feed_excluded m - {u} else insert u (ca_main_feed_excluded m));
                (conns, st) = conns_add u c (ca_connections m)
            in (s\<lparr>ms_db := db,
                  ms_memory := m\<lparr>ca_conn_labels := labels, ca_conn_nodes := pins, ca_main_feed_excluded := excluded,
                                  ca_connections := conns\<rparr>\<rparr>,
                case st of
                  St_Ok v \<Rightarrow> Inr (St_Ok v)
                | St_AlreadyExist v \<Rightarrow> Inr (St_Ok v)
                | St_BadRequest v msg \<Rightarrow> Inr (St_BadRequest v msg)
                | _ \<Rightarrow> Inl (SyncErr_Memory ''Unexpected operation status'')))"

definition conn_topic :: "uuid option \<Rightarrow> conn \<Rightarrow> topic" where
  "conn_topic pin c =
    (if get_token c \<noteq> None then Topic_Auth
     else if \<not> is_mtproto (c_proto c)
     then (case pin of Some p \<Rightarrow> Topic_Init p | None \<Rightarrow> Topic_Updates (c_env c))
     else Topic_Updates (c_env c))"

definition publish :: "bus_fault \<Rightarrow> topic \<Rightarrow> message list \<Rightarrow> mem_sync \<Rightarrow> mem_sync \<times> (sync_error + unit)" where
  "publish bus topic msgs s =
    (case bus of Some e \<Rightarrow> (s, Inl e) | None \<Rightarrow> (s\<lparr>ms_published := ms_published s @ [(topic, msgs)]\<rparr>, Inr ()))"

definition publish_conn_delete :: "bus_fault \<Rightarrow> uuid \<Rightarrow> conn \<Rightarrow> mem_sync \<Rightarrow> mem_sync \<times> (sync_error + unit)" where
  "publish_conn_delete bus u c s =
    publish bus (conn_topic (map_of (ca_conn_nodes (ms_memory s)) u) c) [as_delete_message c u] s"

definition mark_conn :: "datetime \<Rightarrow> bool \<Rightarrow> uuid \<Rightarrow> (uuid, conn) hashmap \<Rightarrow> (uuid, conn) hashmap" where
  "mark_conn now b u m =
    (case map_of m u of None \<Rightarrow> m | Some c \<Rightarrow> AList.update u (set_modified_at now (set_deleted b c)) m)"

definition delete_connection ::
  "datetime \<Rightarrow> fault \<Rightarrow> bus_fault \<Rightarrow> uuid \<Rightarrow> conn \<Rightarrow> string option \<Rightarrow> mem_sync \<Rightarrow> mem_sync \<times> (sync_error + status)" where
  "delete_connection now fault bus u c reason s =
    (case conns_get (ca_connections (ms_memory s)) u of
       None \<Rightarrow> (s, Inr (St_NotFound u))
     | Some existing \<Rightarrow>
         if c_is_deleted existing then (s, Inr (St_NotModified u))
         else case pg_conn_delete fault u reason (ms_db s) of
                (db, Inl e) \<Rightarrow> (s\<lparr>ms_db := db\<rparr>, Inl (SyncErr_Database e))
              | (db, Inr _) \<Rightarrow>
                  (case publish_conn_delete bus u c (s\<lparr>ms_db := db\<rparr>) of
                     (s', Inl e) \<Rightarrow> (s', Inl e)
                   | (s', Inr _) \<Rightarrow>
                       (on_memory (\<lambda>m. m\<lparr>ca_connections := mark_conn now True u (ca_connections m),
                            ca_conn_labels := AList.delete u (ca_conn_labels m),
                            ca_conn_nodes := AList.delete u (ca_conn_nodes m),
                            ca_share_conns := ca_share_conns m - {u}\<rparr>) s',
                        Inr (St_Ok u))))"

definition restore_connection :: "datetime \<Rightarrow> fault \<Rightarrow> uuid \<Rightarrow> mem_sync \<Rightarrow> mem_sync \<times> (sync_error + status)" where
  "restore_connection now fault u s =
    (case conns_get (ca_connections (ms_memory s)) u of
       None \<Rightarrow> (s, Inr (St_NotFound u))
     | Some _ \<Rightarrow>
         (case pg_conn_restore fault u (ms_db s) of
            (db, Inl e) \<Rightarrow> (s\<lparr>ms_db := db\<rparr>, Inl (SyncErr_Database e))
          | (db, Inr _) \<Rightarrow>
              (on_memory (\<lambda>m. m\<lparr>ca_connections := mark_conn now False u (ca_connections m)\<rparr>) (s\<lparr>ms_db := db\<rparr>),
               Inr (St_Ok u))))"

subsection \<open>Restoring the connections of a subscription\<close>

definition DELETE_REASON_EXPIRED :: string where "DELETE_REASON_EXPIRED = ''expired''"
definition DELETE_REASON_MANUAL :: string where "DELETE_REASON_MANUAL = ''manual''"
definition DELETE_REASON_TRAFFIC_EXHAUSTED :: string where "DELETE_REASON_TRAFFIC_EXHAUSTED = ''traffic_exhausted''"
definition DELETE_REASON_DEVICE_KICK :: string where "DELETE_REASON_DEVICE_KICK = ''device_kick''"

definition connection_restorable :: "string option \<Rightarrow> int \<Rightarrow> int option \<Rightarrow> bool" where
  "connection_restorable reason used_bytes limit_bytes =
    (case reason of
       None \<Rightarrow> True
     | Some r \<Rightarrow>
         if r = DELETE_REASON_EXPIRED then True
         else if r = DELETE_REASON_TRAFFIC_EXHAUSTED
         then (case limit_bytes of Some limit \<Rightarrow> used_bytes < limit | None \<Rightarrow> False)
         else False)"

text \<open>One of the tasks: announce the connection, then undelete it.\<close>

definition restore_one ::
  "datetime \<Rightarrow> (uuid \<Rightarrow> bus_fault) \<Rightarrow> (uuid \<Rightarrow> fault) \<Rightarrow> uuid \<times> conn \<times> uuid option
   \<Rightarrow> mem_sync \<times> uuid list \<Rightarrow> mem_sync \<times> uuid list" where
  "restore_one now bus faults task acc =
    (case task of (u, c, pin) \<Rightarrow> case acc of (s, done) \<Rightarrow>
       case publish (bus u) (conn_topic pin c) [as_update_message c u] s of
         (s1, Inl _) \<Rightarrow> (s1, done)
       | (s1, Inr _) \<Rightarrow>
           (case restore_connection now (faults u) u s1 of
              (s2, Inr (St_Ok _)) \<Rightarrow> (s2, done @ [u])
            | (s2, Inr (St_Updated _)) \<Rightarrow> (s2, done @ [u])
            | (s2, _) \<Rightarrow> (s2, done)))"

definition restore_all ::
  "datetime \<Rightarrow> (uuid \<Rightarrow> bus_fault) \<Rightarrow> (uuid \<Rightarrow> fault) \<Rightarrow> (uuid \<times> conn \<times> uuid option) list
   \<Rightarrow> mem_sync \<Rightarrow> mem_sync \<times> uuid list" where
  "restore_all now bus faults tasks s = fold (restore_one now bus faults) tasks (s, [])"

definition reason_of :: "(uuid \<times> string option) list \<Rightarrow> uuid \<Rightarrow> string option" where
  "reason_of rows u = Option.bind (map_of (rev rows) u) (\<lambda>r. r)"

definition deleted_of :: "uuid \<Rightarrow> cache \<Rightarrow> (uuid \<times> conn \<times> uuid option) list" where
  "deleted_of sid m =
    (case get_by_subscription_id (ca_connections m) sid of
       None \<Rightarrow> []
     | Some conns \<Rightarrow> map (\<lambda>(u, c). (u, c, map_of (ca_conn_nodes m) u)) (filter (\<lambda>(_, c). c_is_deleted c) conns))"

text \<open>The traffic is only read when a connection was deleted for it.\<close>

definition used_for_restore ::
  "fault \<Rightarrow> uuid \<Rightarrow> (uuid \<times> string option) list \<Rightarrow> mem_sync \<Rightarrow> error + int" where
  "used_for_restore fault sid reasons s =
    (if list_ex (\<lambda>(u, _, _). reason_of reasons u = Some DELETE_REASON_TRAFFIC_EXHAUSTED) (deleted_of sid (ms_memory s))
     then (case total_for_subscription fault sid (ms_db s) (ms_traffic s) of
             Inl e \<Rightarrow> Inl e | Inr (u, d) \<Rightarrow> Inr (wrap64 (u + d)))
     else Inr 0)"

definition restore_tasks ::
  "(uuid \<times> string option) list \<Rightarrow> int \<Rightarrow> int option \<Rightarrow> string list option
   \<Rightarrow> (uuid \<times> conn \<times> uuid option) list \<Rightarrow> (uuid \<times> conn \<times> uuid option) list" where
  "restore_tasks reasons used_bytes limit_bytes metered tasks =
    (let t1 = filter (\<lambda>(u, _, _). connection_restorable (reason_of reasons u) used_bytes limit_bytes) tasks
     in case metered of
          Some m \<Rightarrow> filter (\<lambda>(_, c, _). is_metered (proto_tag (c_proto c)) m) t1
        | None \<Rightarrow> t1)"

definition restore_connections_by_subscription ::
  "datetime \<Rightarrow> fault \<Rightarrow> fault \<Rightarrow> (uuid \<Rightarrow> bus_fault) \<Rightarrow> (uuid \<Rightarrow> fault) \<Rightarrow> uuid \<Rightarrow> string list option
   \<Rightarrow> mem_sync \<Rightarrow> mem_sync \<times> (sync_error + uuid list)" where
  "restore_connections_by_subscription now f_reasons f_total bus faults sid metered s =
    (let tasks = deleted_of sid (ms_memory s) in
     if tasks = [] then (s, Inr [])
     else case pg_deleted_reasons f_reasons sid (ms_db s) of
       Inl e \<Rightarrow> (s, Inl (SyncErr_Database e))
     | Inr reasons \<Rightarrow>
         let limit_bytes = Option.bind (subs_find (ca_subscriptions (ms_memory s)) sid) sub_limit_bytes in
         case used_for_restore f_total sid reasons s of
           Inl e \<Rightarrow> (s, Inl (SyncErr_Database e))
         | Inr used_bytes \<Rightarrow>
             let (s', ids) = restore_all now bus faults (restore_tasks reasons used_bytes limit_bytes metered tasks) s
             in (s', Inr ids))"

section \<open>Subscriptions\<close>

record sub_req =
  rq_refer_code :: "string option"
  rq_days :: "int option"
  rq_limit_bytes :: "int option"

definition patch_sub :: "datetime \<Rightarrow> sub_req \<Rightarrow> subscription \<Rightarrow> subscription" where
  "patch_sub now req sub =
    (let s1 = (case rq_days req of Some d \<Rightarrow> sub_extend now d sub | None \<Rightarrow> sub);
         s2 = (case rq_refer_code req of Some r \<Rightarrow> s1\<lparr>sub_refer_code := r\<rparr> | None \<Rightarrow> s1)
     in case rq_limit_bytes req of Some b \<Rightarrow> set_limit_bytes b s2 | None \<Rightarrow> s2)"

text \<open>The faults and the time of a restoration that follows an operation.\<close>

record restore_env =
  re_now :: datetime
  re_reasons :: fault
  re_total :: fault
  re_bus :: "uuid \<Rightarrow> bus_fault"
  re_faults :: "uuid \<Rightarrow> fault"

definition restore_paid :: "restore_env \<Rightarrow> uuid \<Rightarrow> mem_sync \<Rightarrow> mem_sync" where
  "restore_paid re sid s =
    fst (restore_connections_by_subscription (re_now re) (re_reasons re) (re_total re) (re_bus re) (re_faults re) sid None s)"

definition update_sub ::
  "datetime \<Rightarrow> datetime \<Rightarrow> fault \<Rightarrow> restore_env \<Rightarrow> uuid \<Rightarrow> sub_req \<Rightarrow> mem_sync \<Rightarrow> mem_sync \<times> (sync_error + status)" where
  "update_sub now db_now fault re sid req s =
    (case subs_find (ca_subscriptions (ms_memory s)) sid of
       None \<Rightarrow> (s, Inr (St_NotFound sid))
     | Some sub \<Rightarrow>
         let updated = patch_sub now req sub in
         case sub_expires_at updated of
           None \<Rightarrow> (s, Inl (SyncErr_InconsistentState ''Subscription'' sid))
         | Some expires_at \<Rightarrow>
             (case pg_update_subscription db_now fault sid expires_at (refer_code updated) (sub_parent_id updated)
                     (sub_scope_env updated) (sub_premium_token updated) (ms_db s) of
                (db, Inl e) \<Rightarrow> (s\<lparr>ms_db := db\<rparr>, Inl (SyncErr_Database e))
              | (db, Inr _) \<Rightarrow>
                  let s1 = on_memory (\<lambda>m. m\<lparr>ca_subscriptions := subs_update updated (ca_subscriptions m)\<rparr>) (s\<lparr>ms_db := db\<rparr>);
                      s2 = (if \<not> is_active now sub \<and> is_active now updated then restore_paid re sid s1 else s1)
                  in (s2, Inr (St_Updated sid))))"

definition add_limit_bytes :: "datetime \<Rightarrow> fault \<Rightarrow> uuid \<Rightarrow> int \<Rightarrow> uuid \<Rightarrow> mem_sync \<Rightarrow> mem_sync \<times> (sync_error + status)" where
  "add_limit_bytes db_now fault sid bytes trace_id s =
    (case pg_add_limit_bytes db_now fault sid trace_id bytes (ms_db s) of
       (db, Inl e) \<Rightarrow> (s\<lparr>ms_db := db\<rparr>, Inl (SyncErr_Database e))
     | (db, Inr None) \<Rightarrow> (s\<lparr>ms_db := db\<rparr>, Inr (St_AlreadyExist sid))
     | (db, Inr (Some new_limit)) \<Rightarrow>
         (case subs_find (ca_subscriptions (ms_memory s)) sid of
            None \<Rightarrow> (s\<lparr>ms_db := db\<rparr>, Inr (St_Updated sid))
          | Some sub \<Rightarrow>
              (on_memory (\<lambda>m. m\<lparr>ca_subscriptions := AList.update sid (set_limit_bytes new_limit sub) (ca_subscriptions m)\<rparr>)
                 (s\<lparr>ms_db := db\<rparr>),
               Inr (St_Updated sid))))"

text \<open>
  The memory is updated before the database, and the result of \<open>set_expires_at\<close>, which refuses a time that
  is not in the future, is dropped.
\<close>

definition add_days_inner ::
  "datetime \<Rightarrow> datetime \<Rightarrow> fault \<Rightarrow> restore_env \<Rightarrow> uuid \<Rightarrow> int \<Rightarrow> mem_sync \<Rightarrow> mem_sync \<times> (sync_error + status)" where
  "add_days_inner now db_now fault re sid days s =
    (case subs_find (ca_subscriptions (ms_memory s)) sid of
       None \<Rightarrow> (s, Inr (St_NotFound sid))
     | Some sub \<Rightarrow>
         let new_expires = (case sub_expires_at sub of Some e \<Rightarrow> if e > now then e + duration_days days else now + duration_days days
                            | None \<Rightarrow> now + duration_days days);
             sub' = (case set_expires_at now new_expires sub of Inr x \<Rightarrow> x | Inl _ \<Rightarrow> sub);
             s1 = on_memory (\<lambda>m. m\<lparr>ca_subscriptions := AList.update sid sub' (ca_subscriptions m)\<rparr>) s
         in case pg_add_days db_now fault sid days (ms_db s1) of
              (db, Inl e) \<Rightarrow> (s1\<lparr>ms_db := db\<rparr>, Inl (SyncErr_Database e))
            | (db, Inr row) \<Rightarrow>
                (if \<not> is_active now sub then restore_paid re sid (s1\<lparr>ms_db := db\<rparr>) else s1\<lparr>ms_db := db\<rparr>,
                 Inr (St_Updated (sub_id row))))"

definition add_days ::
  "datetime \<Rightarrow> datetime \<Rightarrow> fault \<Rightarrow> restore_env \<Rightarrow> uuid \<Rightarrow> int \<Rightarrow> mem_sync \<Rightarrow> mem_sync \<times> (sync_error + status)" where
  "add_days now db_now fault re sid days s = add_days_inner now db_now fault re sid days s"

section \<open>The cache mirrors the database\<close>

text \<open>
  A cached connection and its row agree on everything that identifies the connection. When the memory holds a
  connection as deleted its row is deleted; the converse is the strict form.
\<close>

definition db_conn :: "pg_conn list \<Rightarrow> uuid \<Rightarrow> pg_conn option" where
  "db_conn rows u = List.find (\<lambda>p. pc_id p = u) rows"

definition same_conn :: "conn \<Rightarrow> pg_conn \<Rightarrow> bool" where
  "same_conn c p \<longleftrightarrow> pc_proto p = proto_tag (c_proto c) \<and> pc_env p = env_display (c_env c)
     \<and> pc_subscription_id p = c_subscription_id c \<and> pc_token p = get_token c \<and> pc_password p = get_password c"

definition agree :: "bool \<Rightarrow> conn \<Rightarrow> pg_conn \<Rightarrow> bool" where
  "agree strict c p \<longleftrightarrow> same_conn c p \<and> (c_is_deleted c \<longrightarrow> pc_is_deleted p)
     \<and> (strict \<longrightarrow> pc_is_deleted p \<longrightarrow> c_is_deleted c)"

definition mirror :: "bool \<Rightarrow> (uuid, conn) hashmap \<Rightarrow> pg_conn list \<Rightarrow> bool" where
  "mirror strict m rows \<longleftrightarrow> hm_wf m \<and> distinct (map pc_id rows)
     \<and> (\<forall>u. rel_option (agree strict) (conns_get m u) (db_conn rows u))"

definition mirrored :: "bool \<Rightarrow> mem_sync \<Rightarrow> bool" where
  "mirrored strict s = mirror strict (ca_connections (ms_memory s)) (pg_conns (ms_db s))"

lemma db_conn_upd:
  assumes "\<And>p. pc_id (f p) = pc_id p"
  shows "db_conn (upd_conn u f rows) v = (if v = u then map_option f (db_conn rows v) else db_conn rows v)"
  by (induction rows) (auto simp: db_conn_def upd_conn_def assms)

lemma db_conn_append: "db_conn (rows @ [p]) v = (case db_conn rows v of None \<Rightarrow> if pc_id p = v then Some p else None | Some q \<Rightarrow> Some q)"
  by (induction rows) (auto simp: db_conn_def)

lemma db_conn_None: "db_conn rows u = None \<longleftrightarrow> u \<notin> pc_id ` set rows"
  by (auto simp: db_conn_def find_None_iff)

lemma db_conn_Some: "distinct (map pc_id rows) \<Longrightarrow> db_conn rows u = Some p \<longleftrightarrow> p \<in> set rows \<and> pc_id p = u"
  by (induction rows) (auto simp: db_conn_def)

lemma upd_conn_keys: "(\<And>p. pc_id (f p) = pc_id p) \<Longrightarrow> distinct (map pc_id (upd_conn u f rows)) = distinct (map pc_id rows)"
  by (simp add: upd_conn_ids)

lemma conns_get_mark:
  "conns_get (mark_conn now b u m) v =
    (if v = u then map_option (\<lambda>c. set_modified_at now (set_deleted b c)) (conns_get m v) else conns_get m v)"
  by (auto simp: mark_conn_def conns_get_def split: option.split)

lemma hm_wf_mark [simp]: "hm_wf m \<Longrightarrow> hm_wf (mark_conn now b u m)"
  by (simp add: mark_conn_def split: option.split)

lemma agree_mark:
  assumes "agree strict c p" "same_conn c (f p)" "pc_is_deleted (f p) = b"
  shows "agree strict (set_modified_at now (set_deleted b c)) (f p)"
  using assms by (simp add: agree_def same_conn_def set_modified_at_def set_deleted_def get_token_def get_password_def)

definition flag_update :: "bool \<Rightarrow> (pg_conn \<Rightarrow> pg_conn) \<Rightarrow> bool" where
  "flag_update b f \<longleftrightarrow> (\<forall>p. pc_id (f p) = pc_id p \<and> pc_is_deleted (f p) = b \<and> pc_proto (f p) = pc_proto p
     \<and> pc_env (f p) = pc_env p \<and> pc_subscription_id (f p) = pc_subscription_id p \<and> pc_token (f p) = pc_token p
     \<and> pc_password (f p) = pc_password p)"

lemma mirror_mark:
  assumes "mirror strict m rows" "flag_update b f"
  shows "mirror strict (mark_conn now b u m) (upd_conn u f rows)"
proof -
  have id: "\<And>p. pc_id (f p) = pc_id p" using assms(2) by (simp add: flag_update_def)
  have "rel_option (agree strict) (conns_get (mark_conn now b u m) v) (db_conn (upd_conn u f rows) v)" for v
  proof -
    have "rel_option (agree strict) (conns_get m v) (db_conn rows v)" using assms(1) by (simp add: mirror_def)
    then show ?thesis
      using assms(2) unfolding db_conn_upd[OF id] conns_get_mark
      by (auto simp: option_rel_Some1 rel_option_iff flag_update_def agree_def same_conn_def set_modified_at_def
          set_deleted_def get_token_def get_password_def split: option.splits)
  qed
  then show ?thesis using assms(1) id by (simp add: mirror_def upd_conn_keys)
qed

lemma mirror_db_ahead:
  assumes "mirror False m rows" "flag_update True f"
  shows "mirror False m (upd_conn u f rows)"
proof -
  have id: "\<And>p. pc_id (f p) = pc_id p" using assms(2) by (simp add: flag_update_def)
  have "rel_option (agree False) (conns_get m v) (db_conn (upd_conn u f rows) v)" for v
    using assms unfolding db_conn_upd[OF id] mirror_def
    by (auto simp: rel_option_iff flag_update_def agree_def same_conn_def split: option.splits)
      (metis option.distinct(1) option.inject)+
  then show ?thesis using assms(1) id by (simp add: mirror_def upd_conn_keys)
qed

lemma mirror_insert:
  assumes "mirror strict m rows" "u \<notin> pc_id ` set rows" "pc_id p = u" "agree strict c p"
  shows "mirror strict (fst (conns_add u c m)) (rows @ [p])"
proof -
  have "db_conn rows u = None" using assms(2) by (simp add: db_conn_None)
  moreover have r: "rel_option (agree strict) (conns_get m v) (db_conn rows v)" for v using assms(1) by (simp add: mirror_def)
  ultimately have n: "map_of m u = None" using r[of u] by (simp add: conns_get_def)
  have "rel_option (agree strict) (conns_get (fst (conns_add u c m)) v) (db_conn (rows @ [p]) v)" for v
    using r[of v] n assms(3,4) by (auto simp: conns_add_def conns_get_def db_conn_append rel_option_iff split: option.splits)
  then show ?thesis using assms n by (auto simp: mirror_def conns_add_def)
qed

lemma pg_update_conn_cases:
  obtains e where "pg_update_conn fault u f db = (db, Inl e)"
  | "pg_update_conn fault u f db = (db\<lparr>pg_conns := upd_conn u f (pg_conns db)\<rparr>, Inr ())"
  by (cases fault; cases "list_all (\<lambda>p. pc_id p = u \<longrightarrow> no_clash (f p) (pg_conns db)) (pg_conns db)")
    (simp_all add: pg_update_conn_def on_db_def)

lemma flag_update_delete [simp]: "flag_update True (\<lambda>p. p\<lparr>pc_is_deleted := True, pc_deleted_reason := reason\<rparr>)"
  and flag_update_restore [simp]: "flag_update False (\<lambda>p. p\<lparr>pc_is_deleted := False, pc_deleted_reason := None\<rparr>)"
  by (simp_all add: flag_update_def)

lemma publish_keeps [simp]:
  "ms_memory (fst (publish bus t ms s)) = ms_memory s" "ms_db (fst (publish bus t ms s)) = ms_db s"
  "ms_traffic (fst (publish bus t ms s)) = ms_traffic s" "ms_private_feed (fst (publish bus t ms s)) = ms_private_feed s"
  by (simp_all add: publish_def split: option.split)

lemma restore_connection_cases:
  obtains st where "restore_connection now fault u s = (s, st)" "\<And>v. st \<noteq> Inr (St_Ok v)" "\<And>v. st \<noteq> Inr (St_Updated v)"
  | c where "conns_get (ca_connections (ms_memory s)) u = Some c"
    "restore_connection now fault u s =
      (s\<lparr>ms_db := (ms_db s)\<lparr>pg_conns := upd_conn u (\<lambda>p. p\<lparr>pc_is_deleted := False, pc_deleted_reason := None\<rparr>) (pg_conns (ms_db s))\<rparr>,
         ms_memory := (ms_memory s)\<lparr>ca_connections := mark_conn now False u (ca_connections (ms_memory s))\<rparr>\<rparr>, Inr (St_Ok u))"
proof (cases "conns_get (ca_connections (ms_memory s)) u")
  case None
  then show ?thesis using that(1) by (simp add: restore_connection_def)
next
  case (Some c)
  show ?thesis
    by (rule pg_update_conn_cases[of fault u "\<lambda>p. p\<lparr>pc_is_deleted := False, pc_deleted_reason := None\<rparr>" "ms_db s"])
      (use Some that in \<open>simp_all add: restore_connection_def pg_conn_restore_def\<close>)
qed

lemma restore_one_state:
  "fst (restore_one now bus faults (u, c, pin) (s, ids)) = fst (publish (bus u) (conn_topic pin c) [as_update_message c u] s)
   \<or> fst (restore_one now bus faults (u, c, pin) (s, ids))
       = fst (restore_connection now (faults u) u (fst (publish (bus u) (conn_topic pin c) [as_update_message c u] s)))"
  by (simp add: restore_one_def split: prod.split sum.split status.split)

lemma mirrored_restore_connection:
  assumes "mirrored strict s"
  shows "mirrored strict (fst (restore_connection now fault u s))"
  by (rule restore_connection_cases[of now fault u s]) (use assms in \<open>simp_all add: mirrored_def mirror_mark\<close>)

lemma mirrored_publish [simp]: "mirrored strict (fst (publish bus t ms s)) = mirrored strict s"
  by (simp add: mirrored_def)

lemma mirrored_restore_one:
  assumes "mirrored strict (fst acc)"
  shows "mirrored strict (fst (restore_one now bus faults task acc))"
proof -
  obtain u c pin where t: "task = (u, c, pin)" by (cases task)
  obtain s ids where a: "acc = (s, ids)" by (cases acc)
  show ?thesis
    using restore_one_state[of now bus faults u c pin s ids] assms mirrored_restore_connection unfolding t a by auto
qed

lemma fold_fst_inv: "(\<And>t acc. t \<in> set ts \<Longrightarrow> P (fst acc) \<Longrightarrow> P (fst (f t acc))) \<Longrightarrow> P (fst acc) \<Longrightarrow> P (fst (fold f ts acc))"
  by (induction ts arbitrary: acc) auto

lemma mirrored_restore_all: "mirrored strict s \<Longrightarrow> mirrored strict (fst (restore_all now bus faults ts s))"
  unfolding restore_all_def by (rule fold_fst_inv) (simp_all add: mirrored_restore_one)

text \<open>A restoration leaves the state alone or runs its tasks, which are deleted connections that may revive.\<close>

lemma restore_tasks_subset:
  "(u, c, pin) \<in> set (restore_tasks reasons used limit metered tasks) \<Longrightarrow>
    (u, c, pin) \<in> set tasks \<and> connection_restorable (reason_of reasons u) used limit"
  by (auto simp: restore_tasks_def Let_def split: option.splits)

lemma restore_sub_cases:
  obtains r where "restore_connections_by_subscription now f1 f2 bus faults sid metered s = (s, r)"
  | ts where "fst (restore_connections_by_subscription now f1 f2 bus faults sid metered s) = fst (restore_all now bus faults ts s)"
    "\<And>u c pin. (u, c, pin) \<in> set ts \<Longrightarrow> (u, c, pin) \<in> set (deleted_of sid (ms_memory s))
       \<and> (\<exists>reasons used limit. pg_deleted_reasons f1 sid (ms_db s) = Inr reasons
            \<and> connection_restorable (reason_of reasons u) used limit)"
proof -
  let ?R = "restore_connections_by_subscription now f1 f2 bus faults sid metered s"
  let ?l = "Option.bind (subs_find (ca_subscriptions (ms_memory s)) sid) sub_limit_bytes"
  show ?thesis
  proof (cases "\<exists>r. ?R = (s, r)")
    case True
    then show ?thesis using that(1) by blast
  next
    case False
    then obtain reasons b where rs: "pg_deleted_reasons f1 sid (ms_db s) = Inr reasons"
      and b: "used_for_restore f2 sid reasons s = Inr b" and ne: "deleted_of sid (ms_memory s) \<noteq> []"
      by (auto simp: restore_connections_by_subscription_def Let_def split: sum.splits if_splits)
    let ?t = "restore_tasks reasons b ?l metered (deleted_of sid (ms_memory s))"
    have "fst ?R = fst (restore_all now bus faults ?t s)"
      using rs b ne by (simp add: restore_connections_by_subscription_def Let_def split_beta)
    then show ?thesis using that(2)[of ?t] rs restore_tasks_subset by blast
  qed
qed

lemma mirrored_restore_sub:
  assumes "mirrored strict s"
  shows "mirrored strict (fst (restore_connections_by_subscription now f1 f2 bus faults sid metered s))"
  by (rule restore_sub_cases[of now f1 f2 bus faults sid metered s])
    (use assms in \<open>simp_all add: mirrored_restore_all\<close>)

subsection \<open>Statements that leave the connections alone\<close>

lemma pg_conns_update_sub_row [simp]: "pg_conns (fst (pg_update_sub_row u f db)) = pg_conns db"
  by (simp add: pg_update_sub_row_def Let_def split: option.split)

lemma pg_conns_on_db: "(\<And>db. pg_conns (fst (stmt db)) = pg_conns db) \<Longrightarrow> pg_conns (fst (on_db fault stmt db)) = pg_conns db"
  by (simp add: on_db_def split: option.split)

lemma pg_conns_sub_insert_row [simp]: "pg_conns (fst (pg_sub_insert_row now s db)) = pg_conns db"
  by (simp add: pg_sub_insert_row_def Let_def split: option.split)

lemma pg_conns_upsert_node_tx [simp]: "pg_conns (fst (pg_upsert_node_tx lib u n db)) = pg_conns db"
  by (simp add: pg_upsert_node_tx_def Let_def split: option.split)

lemma pg_conns_kept [simp]:
  "pg_conns (fst (pg_node_upsert lib fault u n db)) = pg_conns db"
  "pg_conns (fst (pg_node_delete fault u db)) = pg_conns db"
  "pg_conns (fst (pg_node_update_status now fault u st db)) = pg_conns db"
  "pg_conns (fst (pg_sub_create now fault sub db)) = pg_conns db"
  "pg_conns (fst (pg_update_subscription now fault u e r p sc t db)) = pg_conns db"
  "pg_conns (fst (pg_add_days now fault u d db)) = pg_conns db"
  "pg_conns (fst (pg_add_limit_bytes now fault u tr b db)) = pg_conns db"
  unfolding pg_node_upsert_def pg_node_delete_def pg_node_update_status_def pg_sub_create_def
    pg_update_subscription_def pg_add_days_def pg_add_limit_bytes_def
  by (rule pg_conns_on_db, simp add: Let_def split: option.split)+

lemma conns_kept_by_statement:
  "pg_node_upsert lib fault u n db = (db', r1) \<Longrightarrow> pg_conns db' = pg_conns db"
  "pg_node_delete fault u db = (db', r2) \<Longrightarrow> pg_conns db' = pg_conns db"
  "pg_node_update_status now fault u st db = (db', r3) \<Longrightarrow> pg_conns db' = pg_conns db"
  "pg_sub_create now fault sub db = (db', r4) \<Longrightarrow> pg_conns db' = pg_conns db"
  "pg_update_subscription now fault u e r p sc t db = (db', r5) \<Longrightarrow> pg_conns db' = pg_conns db"
  "pg_add_days now fault u d db = (db', r6) \<Longrightarrow> pg_conns db' = pg_conns db"
  "pg_add_limit_bytes now fault u tr b db = (db', r7) \<Longrightarrow> pg_conns db' = pg_conns db"
  by (metis fst_conv pg_conns_kept)+

definition same_conns :: "mem_sync \<Rightarrow> mem_sync \<Rightarrow> bool" where
  "same_conns s s' \<longleftrightarrow> ca_connections (ms_memory s') = ca_connections (ms_memory s) \<and> pg_conns (ms_db s') = pg_conns (ms_db s)"

lemma same_conns_mirrored: "same_conns s s' \<Longrightarrow> mirrored strict s' = mirrored strict s"
  by (simp add: same_conns_def mirrored_def)

lemma same_conns_simple:
  "same_conns s (fst (add_node lib fault node_id n s))"
  "same_conns s (fst (delete_node fault u s))"
  "same_conns s (fst (update_node_status now fault u e st s))"
  "same_conns s (fst (add_sub now fault sub s))"
  "same_conns s (fst (add_limit_bytes now fault sid bytes trace s))"
  unfolding add_node_def delete_node_def update_node_status_def add_sub_def add_limit_bytes_def same_conns_def
  by (auto simp: Let_def split: prod.split sum.split option.split dest: conns_kept_by_statement)

text \<open>An update or an extension first touches no connection and then may restore some.\<close>

definition then_restore :: "restore_env \<Rightarrow> uuid \<Rightarrow> mem_sync \<Rightarrow> mem_sync \<Rightarrow> bool" where
  "then_restore re sid s s' \<longleftrightarrow> (\<exists>s1. same_conns s s1 \<and> (s' = s1 \<or> s' = restore_paid re sid s1))"

lemma then_restoreI: "same_conns s s1 \<Longrightarrow> then_restore re sid s (if b then restore_paid re sid s1 else s1)"
  "same_conns s s1 \<Longrightarrow> then_restore re sid s s1"
  by (auto simp: then_restore_def)

lemma update_sub_steps: "then_restore re sid s (fst (update_sub now db_now fault re sid req s))"
proof (cases "subs_find (ca_subscriptions (ms_memory s)) sid")
  case (Some sub)
  let ?new = "patch_sub now req sub"
  show ?thesis
  proof (cases "sub_expires_at ?new")
    case e: (Some expires_at)
    obtain db r where q: "pg_update_subscription db_now fault sid expires_at (refer_code ?new) (sub_parent_id ?new)
        (sub_scope_env ?new) (sub_premium_token ?new) (ms_db s) = (db, r)" by fastforce
    note k = conns_kept_by_statement(5)[OF q]
    show ?thesis
      using Some e q k by (cases r) (simp_all add: update_sub_def Let_def then_restoreI same_conns_def)
  qed (use Some in \<open>simp add: update_sub_def Let_def then_restoreI same_conns_def\<close>)
qed (simp add: update_sub_def then_restoreI same_conns_def)

lemma add_days_steps: "then_restore re sid s (fst (add_days now db_now fault re sid days s))"
proof (cases "subs_find (ca_subscriptions (ms_memory s)) sid")
  case (Some sub)
  obtain db r where q: "pg_add_days db_now fault sid days (ms_db s) = (db, r)" by fastforce
  note k = conns_kept_by_statement(6)[OF q]
  show ?thesis
    using Some q k by (cases r) (simp_all add: add_days_def add_days_inner_def Let_def then_restoreI same_conns_def)
qed (simp add: add_days_def add_days_inner_def then_restoreI same_conns_def)

subsection \<open>Every operation\<close>

definition inserted_row ::
  "'u link_lib \<Rightarrow> uuid \<Rightarrow> conn \<Rightarrow> string option \<Rightarrow> uuid option \<Rightarrow> string option \<Rightarrow> bool \<Rightarrow> pg_conn" where
  "inserted_row lib u c label node_id via main =
    pg_conn_of_row lib ((conn_row_of_conn u c)\<lparr>cr_label := label, cr_node_id := node_id, cr_issued_via := via,
      cr_include_in_main := main\<rparr>)"

lemma inserted_row_simps [simp]:
  "pc_id (inserted_row lib u c label node_id via main) = u"
  "pc_is_deleted (inserted_row lib u c label node_id via main) = c_is_deleted c"
  by (simp_all add: inserted_row_def pg_conn_of_row_def conn_row_of_conn_def)

lemma agree_inserted_row: "agree strict c (inserted_row lib u c label node_id via main)"
  by (simp add: agree_def same_conn_def inserted_row_def pg_conn_of_row_def conn_row_of_conn_def)

lemma add_conn_cases:
  obtains e where "add_conn lib fault u c label node_id via main s = (s, Inl e)"
  | s' r where "add_conn lib fault u c label node_id via main s = (s', r)"
    "u \<notin> pc_id ` set (pg_conns (ms_db s))"
    "pg_conns (ms_db s') = pg_conns (ms_db s) @ [inserted_row lib u c label node_id via main]"
    "ca_connections (ms_memory s') = fst (conns_add u c (ca_connections (ms_memory s)))"
proof -
  let ?row = "(conn_row_of_conn u c)\<lparr>cr_label := label, cr_node_id := node_id, cr_issued_via := via, cr_include_in_main := main\<rparr>"
  show ?thesis
  proof (cases "\<exists>e. pg_conn_insert lib fault ?row (ms_db s) = (ms_db s, Inl e)")
    case True
    then show ?thesis using that(1) by (auto simp: add_conn_def)
  next
    case False
    then have q: "pg_conn_insert lib fault ?row (ms_db s)
        = ((ms_db s)\<lparr>pg_conns := pg_conns (ms_db s) @ [inserted_row lib u c label node_id via main]\<rparr>, Inr ())"
      and f: "u \<notin> pc_id ` set (pg_conns (ms_db s))"
      by (auto simp: pg_conn_insert_def on_db_def Let_def inserted_row_def[symmetric] list_ex_iff split: option.splits if_splits)
    show ?thesis
      by (rule that(2)[OF surjective_pairing f]) (use q in \<open>simp_all add: add_conn_def Let_def split_beta\<close>)
  qed
qed

lemma delete_connection_cases:
  obtains r where "delete_connection now fault bus u c reason s = (s, r)"
  | e where "bus = Some e"
    "delete_connection now fault bus u c reason s =
      (s\<lparr>ms_db := (ms_db s)\<lparr>pg_conns := upd_conn u (\<lambda>p. p\<lparr>pc_is_deleted := True, pc_deleted_reason := reason\<rparr>) (pg_conns (ms_db s))\<rparr>\<rparr>, Inl e)"
    "\<exists>x. conns_get (ca_connections (ms_memory s)) u = Some x \<and> \<not> c_is_deleted x"
  | s' where "delete_connection now fault bus u c reason s = (s', Inr (St_Ok u))" "bus = None"
    "pg_conns (ms_db s') = upd_conn u (\<lambda>p. p\<lparr>pc_is_deleted := True, pc_deleted_reason := reason\<rparr>) (pg_conns (ms_db s))"
    "ca_connections (ms_memory s') = mark_conn now True u (ca_connections (ms_memory s))"
    "\<exists>x. conns_get (ca_connections (ms_memory s)) u = Some x \<and> \<not> c_is_deleted x"
proof (cases "\<exists>x. conns_get (ca_connections (ms_memory s)) u = Some x \<and> \<not> c_is_deleted x")
  case False
  then show ?thesis using that(1) by (cases "conns_get (ca_connections (ms_memory s)) u") (auto simp: delete_connection_def)
next
  case True
  then obtain x where x: "conns_get (ca_connections (ms_memory s)) u = Some x" "\<not> c_is_deleted x" by blast
  show ?thesis
  proof (rule pg_update_conn_cases[of fault u "\<lambda>p. p\<lparr>pc_is_deleted := True, pc_deleted_reason := reason\<rparr>" "ms_db s"])
    fix e assume "pg_update_conn fault u (\<lambda>p. p\<lparr>pc_is_deleted := True, pc_deleted_reason := reason\<rparr>) (ms_db s) = (ms_db s, Inl e)"
    then show ?thesis using that(1) x by (simp add: delete_connection_def pg_conn_delete_def)
  next
    assume q: "pg_update_conn fault u (\<lambda>p. p\<lparr>pc_is_deleted := True, pc_deleted_reason := reason\<rparr>) (ms_db s) =
      ((ms_db s)\<lparr>pg_conns := upd_conn u (\<lambda>p. p\<lparr>pc_is_deleted := True, pc_deleted_reason := reason\<rparr>) (pg_conns (ms_db s))\<rparr>, Inr ())"
    show ?thesis
    proof (cases bus)
      case None
      show ?thesis
        by (rule that(3)[where s' = "fst (delete_connection now fault bus u c reason s)"])
          (use x q None True in \<open>simp_all add: delete_connection_def pg_conn_delete_def publish_conn_delete_def publish_def\<close>)
    next
      case (Some e)
      show ?thesis
        by (rule that(2)[of e])
          (use x q Some True in \<open>simp_all add: delete_connection_def pg_conn_delete_def publish_conn_delete_def publish_def\<close>)
    qed
  qed
qed

lemma mirrored_add_conn: "mirrored strict s \<Longrightarrow> mirrored strict (fst (add_conn lib fault u c label node_id via main s))"
  by (rule add_conn_cases[of lib fault u c label node_id via main s])
    (simp_all add: mirrored_def mirror_insert agree_inserted_row)

lemma mirrored_delete:
  assumes "mirrored strict s" "strict \<Longrightarrow> bus = None"
  shows "mirrored strict (fst (delete_connection now fault bus u c reason s))"
  by (rule delete_connection_cases[of now fault bus u c reason s])
    (use assms in \<open>cases strict; simp add: mirrored_def mirror_mark mirror_db_ahead\<close>)+

lemma mirrored_then_restore: "mirrored strict s \<Longrightarrow> then_restore re sid s s' \<Longrightarrow> mirrored strict s'"
  by (auto simp: then_restore_def restore_paid_def same_conns_mirrored mirrored_restore_sub)

datatype sync_op =
    Op_AddNode fault uuid node
  | Op_DeleteNode fault uuid
  | Op_NodeStatus datetime fault uuid env node_status
  | Op_AddSub datetime fault subscription
  | Op_AddConn fault uuid conn "string option" "uuid option" "string option" bool
  | Op_DeleteConn datetime fault bus_fault uuid conn "string option"
  | Op_RestoreSub datetime fault fault "uuid \<Rightarrow> bus_fault" "uuid \<Rightarrow> fault" uuid "string list option"
  | Op_UpdateSub datetime datetime fault restore_env uuid sub_req
  | Op_AddLimit datetime fault uuid int uuid
  | Op_AddDays datetime datetime fault restore_env uuid int

fun run_sync :: "'u link_lib \<Rightarrow> sync_op \<Rightarrow> mem_sync \<Rightarrow> mem_sync" where
  "run_sync lib (Op_AddNode fault u n) s = fst (add_node lib fault u n s)"
| "run_sync lib (Op_DeleteNode fault u) s = fst (delete_node fault u s)"
| "run_sync lib (Op_NodeStatus now fault u e st) s = fst (update_node_status now fault u e st s)"
| "run_sync lib (Op_AddSub now fault sub) s = fst (add_sub now fault sub s)"
| "run_sync lib (Op_AddConn fault u c label node_id via main) s = fst (add_conn lib fault u c label node_id via main s)"
| "run_sync lib (Op_DeleteConn now fault bus u c reason) s = fst (delete_connection now fault bus u c reason s)"
| "run_sync lib (Op_RestoreSub now f1 f2 bus faults sid metered) s =
     fst (restore_connections_by_subscription now f1 f2 bus faults sid metered s)"
| "run_sync lib (Op_UpdateSub now db_now fault re sid req) s = fst (update_sub now db_now fault re sid req s)"
| "run_sync lib (Op_AddLimit now fault sid bytes trace) s = fst (add_limit_bytes now fault sid bytes trace s)"
| "run_sync lib (Op_AddDays now db_now fault re sid days) s = fst (add_days now db_now fault re sid days s)"

fun delete_announced :: "sync_op \<Rightarrow> bool" where
  "delete_announced (Op_DeleteConn now fault bus u c reason) = (bus = None)"
| "delete_announced op = True"

lemma mirrored_run_sync:
  assumes "mirrored strict s" "strict \<Longrightarrow> delete_announced op"
  shows "mirrored strict (run_sync lib op s)"
  using assms
  by (cases op) (simp_all add: same_conns_mirrored[OF same_conns_simple(1)] same_conns_mirrored[OF same_conns_simple(2)]
      same_conns_mirrored[OF same_conns_simple(3)] same_conns_mirrored[OF same_conns_simple(4)]
      same_conns_mirrored[OF same_conns_simple(5)] mirrored_add_conn mirrored_delete mirrored_restore_sub
      mirrored_then_restore[OF _ update_sub_steps] mirrored_then_restore[OF _ add_days_steps])

lemma mirrored_run:
  assumes "mirrored strict s" "strict \<Longrightarrow> list_all delete_announced ops"
  shows "mirrored strict (fold (run_sync lib) ops s)"
  using assms by (induction ops arbitrary: s) (auto intro: mirrored_run_sync)


definition demo_sync :: mem_sync where
  "demo_sync = \<lparr> ms_memory = cache_new\<lparr>ca_subscriptions := [(1, subscription_from_row demo_row)]\<rparr>, ms_db = demo_pg,
     ms_traffic = [], ms_private_feed = {}, ms_published = [] \<rparr>"

lemma demo_sync_mirrored: "mirrored True demo_sync"
  by (simp add: demo_sync_def mirrored_def mirror_def demo_pg_def cache_new_def conns_get_def db_conn_def)

text \<open>The deletion of a new connection whose announcement fails.\<close>

definition demo_conn :: conn where
  "demo_conn = conn_new 3 Env_Ru (Some 1) (Proto_Shadowsocks ''pw'') None"


section \<open>What a deletion reason forbids\<close>

text \<open>
  A connection that was deleted for a reason other than expiry or exhausted traffic: by hand or because its
  device was removed.
\<close>

definition final_reason :: "string option \<Rightarrow> bool" where
  "final_reason r \<longleftrightarrow> r \<noteq> None \<and> r \<noteq> Some DELETE_REASON_EXPIRED \<and> r \<noteq> Some DELETE_REASON_TRAFFIC_EXHAUSTED"

definition gone :: "uuid \<Rightarrow> mem_sync \<Rightarrow> bool" where
  "gone u s \<longleftrightarrow>
    (\<exists>c. conns_get (ca_connections (ms_memory s)) u = Some c \<and> c_is_deleted c)
    \<and> (\<exists>p. db_conn (pg_conns (ms_db s)) u = Some p \<and> pc_is_deleted p \<and> final_reason (pc_deleted_reason p))"

lemma final_not_restorable: "final_reason r \<Longrightarrow> \<not> connection_restorable r used limit"
  by (auto simp: final_reason_def connection_restorable_def)

lemma gone_same_conns: "same_conns s s' \<Longrightarrow> gone u s' = gone u s"
  by (simp add: gone_def same_conns_def)

lemma reason_of_deleted:
  assumes "distinct (map pc_id rows)" "db_conn rows u = Some p" "pc_subscription_id p = Some sid" "pc_is_deleted p"
  shows "reason_of (map (\<lambda>p. (pc_id p, pc_deleted_reason p)) (filter (\<lambda>p. pc_subscription_id p = Some sid \<and> pc_is_deleted p) rows)) u
    = pc_deleted_reason p"
proof -
  let ?xs = "map (\<lambda>p. (pc_id p, pc_deleted_reason p)) (filter (\<lambda>p. pc_subscription_id p = Some sid \<and> pc_is_deleted p) rows)"
  have p: "p \<in> set rows" "pc_id p = u" using assms db_conn_Some by blast+
  then have "(u, pc_deleted_reason p) \<in> set (rev ?xs)" using assms(3,4) by force
  moreover have "distinct (map fst (rev ?xs))"
    using assms(1) by (simp add: comp_def rev_map[symmetric] distinct_map_filter)
  ultimately have "map_of (rev ?xs) u = Some (pc_deleted_reason p)" by (rule map_of_is_SomeI[rotated])
  then show ?thesis by (simp add: reason_of_def)
qed

lemma deleted_of_mem:
  "(u, c, pin) \<in> set (deleted_of sid m) \<Longrightarrow> hm_wf (ca_connections m) \<Longrightarrow>
    conns_get (ca_connections m) u = Some c \<and> c_subscription_id c = Some sid \<and> c_is_deleted c"
  by (auto simp: deleted_of_def get_by_subscription_id_def none_if_empty_def conns_get_def split: option.splits if_splits)

lemma gone_restore_connection:
  assumes "gone u s" "v \<noteq> u"
  shows "gone u (fst (restore_connection now fault v s))"
  by (rule restore_connection_cases[of now fault v s])
    (use assms in \<open>simp_all add: gone_def db_conn_upd conns_get_mark\<close>)

lemma gone_restore_one:
  assumes "gone u (fst acc)" "fst task \<noteq> u"
  shows "gone u (fst (restore_one now bus faults task acc))"
proof -
  obtain v c pin where t: "task = (v, c, pin)" by (cases task)
  obtain s ids where a: "acc = (s, ids)" by (cases acc)
  have "gone u (fst (publish b tp ms s)) = gone u s" for b tp ms by (simp add: gone_def)
  then show ?thesis
    using restore_one_state[of now bus faults v c pin s ids] assms gone_restore_connection unfolding t a by auto
qed

lemma gone_restore_sub:
  assumes g: "gone u s" and m: "mirrored False s"
  shows "gone u (fst (restore_connections_by_subscription now f1 f2 bus faults sid metered s))"
proof (rule restore_sub_cases[of now f1 f2 bus faults sid metered s])
  fix ts
  assume r: "fst (restore_connections_by_subscription now f1 f2 bus faults sid metered s) = fst (restore_all now bus faults ts s)"
    and ts: "\<And>u c pin. (u, c, pin) \<in> set ts \<Longrightarrow> (u, c, pin) \<in> set (deleted_of sid (ms_memory s))
       \<and> (\<exists>reasons used limit. pg_deleted_reasons f1 sid (ms_db s) = Inr reasons
            \<and> connection_restorable (reason_of reasons u) used limit)"
  have ne: "fst t \<noteq> u" if tm: "t \<in> set ts" for t
  proof
    assume "fst t = u"
    then obtain c pin where "(u, c, pin) \<in> set ts" using tm by (metis prod.collapse)
    then obtain reasons used limit where c: "(u, c, pin) \<in> set (deleted_of sid (ms_memory s))"
      and rs: "pg_deleted_reasons f1 sid (ms_db s) = Inr reasons" and ok: "connection_restorable (reason_of reasons u) used limit"
      using ts by blast
    obtain p where p: "db_conn (pg_conns (ms_db s)) u = Some p" "pc_is_deleted p" "final_reason (pc_deleted_reason p)"
      using g by (auto simp: gone_def)
    have cm: "conns_get (ca_connections (ms_memory s)) u = Some c" "c_subscription_id c = Some sid"
      using deleted_of_mem[OF c] m by (simp_all add: mirrored_def mirror_def)
    have d: "distinct (map pc_id (pg_conns (ms_db s)))" and
      "rel_option (agree False) (conns_get (ca_connections (ms_memory s)) u) (db_conn (pg_conns (ms_db s)) u)"
      using m unfolding mirrored_def mirror_def by blast+
    then have "pc_subscription_id p = Some sid" using p(1) cm by (simp add: agree_def same_conn_def)
    then have "reason_of reasons u = pc_deleted_reason p"
      using reason_of_deleted[OF d p(1) _ p(2)] rs by (cases f1) (auto simp: pg_deleted_reasons_def on_db_def)
    then show False using ok final_not_restorable p(3) by simp
  qed
  show ?thesis unfolding r restore_all_def by (rule fold_fst_inv) (use g ne in \<open>simp_all add: gone_restore_one\<close>)
qed (use g in simp)

lemma gone_add_conn: "gone u s \<Longrightarrow> mirrored False s \<Longrightarrow> gone u (fst (add_conn lib fault v c label node_id via main s))"
  by (rule add_conn_cases[of lib fault v c label node_id via main s])
    (auto simp: gone_def db_conn_append conns_add_def conns_get_def db_conn_None[symmetric] split: option.splits)

lemma gone_delete: "gone u s \<Longrightarrow> gone u (fst (delete_connection now fault bus v c reason s))"
  by (rule delete_connection_cases[of now fault bus v c reason s])
    (auto simp: gone_def db_conn_upd conns_get_mark)

lemma gone_then_restore: "gone u s \<Longrightarrow> mirrored False s \<Longrightarrow> then_restore re sid s s' \<Longrightarrow> gone u s'"
  by (auto simp: then_restore_def restore_paid_def gone_same_conns same_conns_mirrored gone_restore_sub)

lemma gone_run_sync:
  assumes "gone u s" "mirrored False s"
  shows "gone u (run_sync lib op s)"
  using assms
  by (cases op) (simp_all add: gone_same_conns[OF same_conns_simple(1)] gone_same_conns[OF same_conns_simple(2)]
      gone_same_conns[OF same_conns_simple(3)] gone_same_conns[OF same_conns_simple(4)]
      gone_same_conns[OF same_conns_simple(5)] gone_add_conn gone_delete gone_restore_sub
      gone_then_restore[OF _ _ update_sub_steps] gone_then_restore[OF _ _ add_days_steps])

text \<open>
  C5: A connection that was deleted by hand, or because its device was removed, never comes back: no later
  operation, renewals, top-ups and restorations included, revives it in the cache or in the database.
\<close>

theorem removed_connection_stays_removed:
  assumes "gone u s" "mirrored False s"
  shows "gone u (fold (run_sync lib) ops s)"
  using assms
proof (induction ops arbitrary: s)
  case (Cons op ops)
  then show ?case by (simp add: gone_run_sync mirrored_run_sync)
qed simp

definition demo_gone :: mem_sync where
  "demo_gone = demo_sync\<lparr>ms_memory := (ms_memory demo_sync)\<lparr>ca_connections := [(7, set_deleted True demo_conn)]\<rparr>,
     ms_db := demo_pg\<lparr>pg_conns := [(inserted_row demo_lib 7 demo_conn None None None True)
        \<lparr>pc_is_deleted := True, pc_deleted_reason := Some DELETE_REASON_DEVICE_KICK\<rparr>]\<rparr>\<rparr>"

lemma demo_gone_ok: "gone 7 demo_gone" "mirrored False demo_gone"
proof -
  have f: "final_reason (Some DELETE_REASON_DEVICE_KICK)"
    by (simp add: final_reason_def DELETE_REASON_DEVICE_KICK_def DELETE_REASON_EXPIRED_def DELETE_REASON_TRAFFIC_EXHAUSTED_def)
  then show "gone 7 demo_gone"
    by (simp add: gone_def demo_gone_def demo_sync_def conns_get_def db_conn_def set_deleted_def)
  show "mirrored False demo_gone"
    by (simp add: mirrored_def mirror_def demo_gone_def demo_sync_def conns_get_def db_conn_def set_deleted_def agree_def
        same_conn_def inserted_row_def pg_conn_of_row_def conn_row_of_conn_def get_token_def get_password_def)
qed

theorem removed_connection_stays_removed_witness:
  "gone 7 (fold (run_sync demo_lib)
     [Op_AddDays 100 100 None \<lparr> re_now = 100, re_reasons = None, re_total = None, re_bus = (\<lambda>_. None), re_faults = (\<lambda>_. None) \<rparr> 1 30,
      Op_RestoreSub 200 None None (\<lambda>_. None) (\<lambda>_. None) 1 None] demo_gone)
   \<and> gone 7 demo_gone \<and> mirrored False demo_gone"
  using removed_connection_stays_removed[OF demo_gone_ok] demo_gone_ok by blast

section \<open>Exhausted traffic\<close>


definition demo_exhausted :: mem_sync where
  "demo_exhausted = demo_gone\<lparr>ms_traffic := [\<lparr> tr_conn = 7, tr_sub = 1, tr_env = ''ru'', tr_period = DAY, tr_bucket = 0,
     tr_up = 900, tr_down = 0 \<rparr>]\<rparr>"


end
