(* ===== verification/Conn_Handlers.thy ===== *)
theory Conn_Handlers
  imports Sync_Ops
begin

text \<open>
  The connection endpoints of the api, \<^verbatim>\<open>src/bin/api/http/handlers/connection.rs\<close>, with the serving rules of
  \<^verbatim>\<open>handlers/mod.rs\<close> and the rate limiter of \<^verbatim>\<open>handlers/report.rs\<close>: which connections a node is sent and counts,
  how a connection is created, its address allocated and its creation announced, and how it is deleted.

  A creation first reads the cache under a lock, \<open>prepare_connection\<close>, and then writes, \<open>commit_connection\<close>; other
  requests may run in between. What is random or generated, the identifiers, passwords, tokens and keys, is an
  argument. Replies are values of a type with one constructor per HTTP status; the links that a listing builds are
  those of \<^verbatim>\<open>Inbound_Config\<close>.
\<close>

section \<open>Replies\<close>

datatype payload =
    Pl_None
  | Pl_Conn conn
  | Pl_Count nat
  | Pl_Counts "(tag \<times> nat) list"
  | Pl_Feed uuid bool

datatype reply =
    Rp_Ok string "uuid option" payload
  | Rp_NotModified
  | Rp_BadRequest string
  | Rp_NotFound string
  | Rp_Conflict string
  | Rp_TooMany string
  | Rp_Internal string
  | Rp_Rejected sync_error

section \<open>Rate limiter\<close>

record rate_limiter =
  rl_limit :: nat
  rl_window :: int
  rl_hits :: "(uuid, int list) hashmap"

definition limiter_check :: "int \<Rightarrow> uuid \<Rightarrow> rate_limiter \<Rightarrow> rate_limiter \<times> bool" where
  "limiter_check now key l =
    (let kept = filter (\<lambda>t. now - t < rl_window l) (case map_of (rl_hits l) key of Some ts \<Rightarrow> ts | None \<Rightarrow> [])
     in if length kept \<ge> rl_limit l then (l\<lparr>rl_hits := AList.update key kept (rl_hits l)\<rparr>, False)
        else (l\<lparr>rl_hits := AList.update key (kept @ [now]) (rl_hits l)\<rparr>, True))"

section \<open>What a node is sent\<close>

datatype sync_auth = Auth_Service | Auth_Node uuid

fun bound_node :: "sync_auth \<Rightarrow> uuid option" where
  "bound_node Auth_Service = None"
| "bound_node (Auth_Node u) = Some u"

definition sync_env :: "uuid option \<Rightarrow> env option \<Rightarrow> env \<Rightarrow> string + env" where
  "sync_env bound own_env requested =
    (case bound of
       None \<Rightarrow> Inr requested
     | Some _ \<Rightarrow> (case own_env of Some e \<Rightarrow> Inr e | None \<Rightarrow> Inl ''node is not registered''))"

fun sync_conn_visible :: "uuid option \<Rightarrow> topic \<Rightarrow> bool" where
  "sync_conn_visible (Some pin) (Topic_Init u) = (pin = u)"
| "sync_conn_visible (Some pin) _ = False"
| "sync_conn_visible None _ = True"

text \<open>The timestamp is cast from \<open>i64\<close> to \<open>u64\<close>.\<close>

definition sync_conn_matches ::
  "tag \<Rightarrow> env \<Rightarrow> bool \<Rightarrow> topic \<Rightarrow> nat option \<Rightarrow> (uuid, uuid) hashmap \<Rightarrow> uuid \<times> conn \<Rightarrow> bool" where
  "sync_conn_matches proto env strict_env topic last_update conn_nodes uc =
    (case uc of (u, c) \<Rightarrow>
       \<not> c_is_deleted c \<and> proto_tag (c_proto c) = proto
       \<and> (strict_env \<or> proto = Tag_Hysteria2 \<or> c_env c = env)
       \<and> (case last_update of None \<Rightarrow> True | Some ts \<Rightarrow> timestamp (c_modified_at c) mod 2 ^ 64 \<ge> int ts)
       \<and> sync_conn_visible (map_of conn_nodes u) topic)"

definition own_env_of :: "cache \<Rightarrow> uuid option \<Rightarrow> env option" where
  "own_env_of m bound = Option.bind bound (\<lambda>u. map_option n_env (nodes_get_by_id (ca_nodes m) u))"

definition count_set :: "sync_auth \<Rightarrow> env \<Rightarrow> tag \<Rightarrow> cache \<Rightarrow> (uuid \<times> conn) list" where
  "count_set auth env proto m =
    filter (sync_conn_matches proto env (bound_node auth \<noteq> None)
              (Topic_Init (case bound_node auth of Some u \<Rightarrow> u | None \<Rightarrow> 0)) None (ca_conn_nodes m))
      (ca_connections m)"

text \<open>The limiter is asked for node tokens only; the counts are kept by tag, the last one of a repeated tag.\<close>

definition connections_count_handler ::
  "int \<Rightarrow> sync_auth \<Rightarrow> env \<Rightarrow> tag list \<Rightarrow> rate_limiter \<Rightarrow> mem_sync \<Rightarrow> rate_limiter \<times> reply" where
  "connections_count_handler now auth req_env protos limiter s =
    (if protos = [] \<or> length protos > 16 then (limiter, Rp_BadRequest ''proto: expected 1..16 tags'')
     else let m = ms_memory s;
              (limiter', allowed) = (case bound_node auth of Some u \<Rightarrow> limiter_check now u limiter | None \<Rightarrow> (limiter, True))
          in if \<not> allowed then (limiter', Rp_TooMany ''count polled too often'')
             else (limiter',
               case sync_env (bound_node auth) (own_env_of m (bound_node auth)) req_env of
                 Inl msg \<Rightarrow> Rp_NotFound msg
               | Inr env \<Rightarrow>
                   Rp_Ok ''Ok'' None (Pl_Counts (fold (\<lambda>p. AList.update p (length (count_set auth env p m))) protos []))))"

record conn_type =
  ct_proto :: tag
  ct_last_update :: "nat option"
  ct_env :: env
  ct_topic :: topic

definition sync_set :: "sync_auth \<Rightarrow> env \<Rightarrow> conn_type \<Rightarrow> cache \<Rightarrow> (uuid \<times> conn) list" where
  "sync_set auth env req m =
    filter (sync_conn_matches (ct_proto req) env (bound_node auth \<noteq> None)
              (case bound_node auth of Some u \<Rightarrow> Topic_Init u | None \<Rightarrow> ct_topic req) (ct_last_update req) (ca_conn_nodes m))
      (ca_connections m)"

definition get_connections_handler :: "bus_fault \<Rightarrow> sync_auth \<Rightarrow> conn_type \<Rightarrow> mem_sync \<Rightarrow> mem_sync \<times> reply" where
  "get_connections_handler bus auth req s =
    (let m = ms_memory s in
     case sync_env (bound_node auth) (own_env_of m (bound_node auth)) (ct_env req) of
       Inl msg \<Rightarrow> (s, Rp_NotFound msg)
     | Inr env \<Rightarrow>
         let topic = (case bound_node auth of Some u \<Rightarrow> Topic_Init u | None \<Rightarrow> ct_topic req);
             sent = sync_set auth env req m
         in if sent = [] then (s, Rp_NotModified)
            else case publish bus topic (map (\<lambda>(u, c). as_create_message c u) sent) s of
                   (s', Inl e) \<Rightarrow> (s', Rp_Rejected e)
                 | (s', Inr _) \<Rightarrow> (s', Rp_Ok ''Ok'' None (Pl_Count (length sent))))"

section \<open>Checks before a creation\<close>

definition is_single_proto :: "tag \<Rightarrow> bool" where
  "is_single_proto t \<longleftrightarrow> t \<notin> {Tag_Wireguard, Tag_AmneziaWg, Tag_AmneziaWgMobile}"

definition existing_default_pairs ::
  "(uuid \<times> env \<times> tag) list \<Rightarrow> (uuid, string) hashmap \<Rightarrow> uuid set \<Rightarrow> (env \<times> tag) set" where
  "existing_default_pairs conns labels share_conns =
    set (map snd (filter (\<lambda>(u, _, t). u \<notin> share_conns \<and> (map_of labels u = None \<or> is_single_proto t)) conns))"

definition validate_node_pin :: "node option \<Rightarrow> env \<Rightarrow> tag \<Rightarrow> string + unit" where
  "validate_node_pin node env proto =
    (case node of
       None \<Rightarrow> Inl ''Node not found''
     | Some n \<Rightarrow>
         if n_env n \<noteq> env then Inl ''Node env mismatch''
         else if \<not> list_ex (\<lambda>i. in_tag i = proto) (hm_values (n_inbounds n))
         then Inl (''Node has no '' @ tag_display proto @ '' inbound'')
         else Inr ())"

definition validate_env_served :: "node list option \<Rightarrow> env \<Rightarrow> tag \<Rightarrow> string + unit" where
  "validate_env_served nodes env proto =
    (if is_frkn_shared env then Inr ()
     else case nodes of
       None \<Rightarrow> Inl (''Env not served: '' @ env_display env @ '' has no nodes'')
     | Some ns \<Rightarrow>
         if ns = [] then Inl (''Env not served: '' @ env_display env @ '' has no nodes'')
         else if \<not> list_ex (\<lambda>n. node_inbound n proto \<noteq> None) ns
         then Inl (''Env not served: no node in '' @ env_display env @ '' exposes '' @ tag_display proto)
         else Inr ())"

definition pinned_to :: "(uuid, uuid) hashmap \<Rightarrow> uuid \<Rightarrow> uuid \<Rightarrow> bool" where
  "pinned_to conn_nodes u node_uuid = (case map_of conn_nodes u of Some pin \<Rightarrow> pin = node_uuid | None \<Rightarrow> True)"

definition main_feed_connection_visible :: "uuid set \<Rightarrow> uuid \<Rightarrow> bool \<Rightarrow> bool" where
  "main_feed_connection_visible excluded u general \<longleftrightarrow> \<not> general \<or> u \<notin> excluded"

section \<open>Creation\<close>

record networks =
  nw_wg :: ip_addr_mask
  nw_awg :: ip_addr_mask
  nw_awg_mobile :: "ip_addr_mask option"

record generated =
  gen_conn_id :: uuid
  gen_keys :: wg_keys
  gen_password :: string
  gen_token :: uuid
  gen_secret :: string

definition network_for :: "networks \<Rightarrow> tag \<Rightarrow> string + ip_addr_mask" where
  "network_for nw tag =
    (if tag = Tag_Wireguard then Inr (nw_wg nw)
     else if tag = Tag_AmneziaWg then Inr (nw_awg nw)
     else case nw_awg_mobile nw of
            Some m \<Rightarrow> Inr m | None \<Rightarrow> Inl ''amnezia_wireguard_mobile_network is not configured'')"

text \<open>The address after the greatest one in use, but not below the first allocatable one.\<close>

definition next_address :: "ip_addr_mask \<Rightarrow> 32 word option \<Rightarrow> string + 32 word" where
  "next_address network last_ip =
    (let floor = first_allocatable_ipv4 network;
         candidate = (case last_ip of
             Some ip \<Rightarrow>
               (case (increment_ipv4 ip, floor) of
                  (Some c, Some f) \<Rightarrow> if c < f then Some f else Some c
                | (c, _) \<Rightarrow> c)
           | None \<Rightarrow> (case floor of Some f \<Rightarrow> Some f | None \<Rightarrow> first_peer_ip network))
     in case candidate of
          None \<Rightarrow> Inl ''Failed to allocate IP''
        | Some ip \<Rightarrow> if contains_ipv4 network ip then Inr ip else Inl ''IP out of range'')"

definition wg_param_for :: "generated \<Rightarrow> 32 word \<Rightarrow> wg_param" where
  "wg_param_for g ip = \<lparr> wg_keys = gen_keys g, wg_address = \<lparr> ipm_address = IpAddr_V4 ip, ipm_cidr = 32 \<rparr> \<rparr>"

definition wg_proto :: "tag \<Rightarrow> wg_param \<Rightarrow> proto" where
  "wg_proto tag p =
    (if tag = Tag_Wireguard then Proto_Wireguard p else if tag = Tag_AmneziaWg then Proto_AmneziaWg p
     else Proto_AmneziaWgMobile p)"

definition make_proto :: "networks \<Rightarrow> generated \<Rightarrow> tag \<Rightarrow> cache \<Rightarrow> string + proto" where
  "make_proto nw g tag m =
    (if wg_family tag
     then (case network_for nw tag of
             Inl e \<Rightarrow> Inl e
           | Inr network \<Rightarrow>
               (case next_address network (Option.bind (get_last_addr (ca_connections m) tag) as_ipv4) of
                  Inl e \<Rightarrow> Inl e
                | Inr ip \<Rightarrow> Inr (wg_proto tag (wg_param_for g ip))))
     else if tag = Tag_Shadowsocks then Inr (Proto_Shadowsocks (gen_password g))
     else if tag = Tag_Hysteria2 then Inr (Proto_Hysteria2 (gen_token g))
     else if tag = Tag_Mtproto then Inr (Proto_Mtproto (gen_secret g))
     else Inr (Proto_Xray tag))"

definition subscription_check :: "(uuid \<Rightarrow> string) \<Rightarrow> datetime \<Rightarrow> uuid option \<Rightarrow> cache \<Rightarrow> string + unit" where
  "subscription_check show_uuid now sid m =
    (case sid of
       None \<Rightarrow> Inr ()
     | Some u \<Rightarrow>
         (case subs_find (ca_subscriptions m) u of
            None \<Rightarrow> Inl (''Subscription '' @ show_uuid u @ '' not found'')
          | Some sub \<Rightarrow>
              if is_active now sub then Inr () else Inl (''Subscription is not active '' @ show_uuid u)))"

definition prepare_connection ::
  "(uuid \<Rightarrow> string) \<Rightarrow> networks \<Rightarrow> generated \<Rightarrow> datetime \<Rightarrow> env \<Rightarrow> tag \<Rightarrow> uuid option \<Rightarrow> nat option \<Rightarrow> cache \<Rightarrow> string + conn" where
  "prepare_connection show_uuid nw g now env tag sid days m =
    (case subscription_check show_uuid now sid m of
       Inl e \<Rightarrow> Inl e
     | Inr _ \<Rightarrow>
         (case validate_env_served (nodes_get_by_env (ca_nodes m) env) env tag of
            Inl e \<Rightarrow> Inl e
          | Inr _ \<Rightarrow>
              (case make_proto nw g tag m of
                 Inl e \<Rightarrow> Inl e
               | Inr proto \<Rightarrow>
                   Inr (conn_new now env sid proto (map_option (\<lambda>d. now + duration_days (int d)) days)))))"

definition create_topic :: "uuid option \<Rightarrow> conn \<Rightarrow> topic option" where
  "create_topic node_id c =
    (if get_token c \<noteq> None then Some Topic_Auth
     else if is_mtproto (c_proto c) then None
     else case node_id of Some pin \<Rightarrow> Some (Topic_Init pin) | None \<Rightarrow> Some (Topic_Updates (c_env c)))"

fun has_infix :: "string \<Rightarrow> string \<Rightarrow> bool" where
  "has_infix p [] = (p = [])"
| "has_infix p (c # s) = (strip_prefix p (c # s) \<noteq> None \<or> has_infix p s)"

definition unique_violation :: "sync_error \<Rightarrow> bool" where
  "unique_violation e =
    (case e of SyncErr_Database (Err_Custom msg) \<Rightarrow> has_infix ''Unique violation'' msg
     | SyncErr_Database (Err_Database msg) \<Rightarrow> has_infix ''Unique violation'' msg
     | SyncErr_Memory msg \<Rightarrow> has_infix ''Unique violation'' msg
     | _ \<Rightarrow> False)"

text \<open>A failed publication of the creation is ignored.\<close>

definition commit_connection ::
  "(uuid \<Rightarrow> string) \<Rightarrow> 'u link_lib \<Rightarrow> fault \<Rightarrow> bus_fault \<Rightarrow> uuid \<Rightarrow> conn \<Rightarrow> string option \<Rightarrow> uuid option \<Rightarrow> string option
   \<Rightarrow> bool \<Rightarrow> mem_sync \<Rightarrow> mem_sync \<times> (string + uuid \<times> conn)" where
  "commit_connection show_uuid lib fault bus u c label node_id issued_via include_in_main s =
    (case add_conn lib fault u c label node_id issued_via include_in_main s of
       (s', Inr (St_Ok v)) \<Rightarrow>
         (case create_topic node_id c of
            Some topic \<Rightarrow> (fst (publish bus topic [as_create_message c u] s'), Inr (v, c))
          | None \<Rightarrow> (s', Inr (v, c)))
     | (s', Inr (St_AlreadyExist v)) \<Rightarrow> (s', Inr (v, c))
     | (s', Inr (St_BadRequest _ msg)) \<Rightarrow> (s', Inl (''BadRequest '' @ show_uuid u @ '' '' @ msg))
     | (s', Inr _) \<Rightarrow> (s', Inl ''Unsupported operation status'')
     | (s', Inl e) \<Rightarrow>
         (s', if unique_violation e
              then Inl (''Duplicate connection: a live '' @ tag_display (proto_tag (c_proto c)) @ '' already exists for this env'')
              else Inl (''Failed to create connection '' @ show_uuid u)))"

definition create_connection_inner ::
  "(uuid \<Rightarrow> string) \<Rightarrow> 'u link_lib \<Rightarrow> networks \<Rightarrow> generated \<Rightarrow> datetime \<Rightarrow> fault \<Rightarrow> bus_fault \<Rightarrow> env \<Rightarrow> tag \<Rightarrow> uuid option
   \<Rightarrow> nat option \<Rightarrow> string option \<Rightarrow> uuid option \<Rightarrow> string option \<Rightarrow> bool \<Rightarrow> mem_sync \<Rightarrow> mem_sync \<times> (string + uuid \<times> conn)" where
  "create_connection_inner show_uuid lib nw g now fault bus env tag sid days label node_id issued_via include_in_main s =
    (case prepare_connection show_uuid nw g now env tag sid days (ms_memory s) of
       Inl e \<Rightarrow> (s, Inl e)
     | Inr c \<Rightarrow> commit_connection show_uuid lib fault bus (gen_conn_id g) c label node_id issued_via include_in_main s)"

text \<open>The pairs to create, in the order of the map; the existing ones are read once, before the loop.\<close>

definition ensure_pairs :: "uuid \<Rightarrow> (env, tag list) hashmap \<Rightarrow> cache \<Rightarrow> (env \<times> tag) list" where
  "ensure_pairs sid conns_map m =
    (let existing = existing_default_pairs
           (map (\<lambda>(u, c). (u, c_env c, proto_tag (c_proto c)))
              (case get_by_subscription_id (ca_connections m) sid of Some cs \<Rightarrow> cs | None \<Rightarrow> []))
           (ca_conn_labels m) (ca_share_conns m)
     in filter (\<lambda>p. p \<notin> existing) (concat (map (\<lambda>(e, ts). map (\<lambda>t. (e, t)) ts) conns_map)))"

fun create_pairs ::
  "(uuid \<Rightarrow> string) \<Rightarrow> 'u link_lib \<Rightarrow> networks \<Rightarrow> datetime \<Rightarrow> uuid \<Rightarrow> (env \<times> tag) list \<Rightarrow> (generated \<times> fault \<times> bus_fault) list
   \<Rightarrow> mem_sync \<Rightarrow> mem_sync" where
  "create_pairs show_uuid lib nw now sid ((env, tag) # ps) ((g, fault, bus) # gs) s =
     create_pairs show_uuid lib nw now sid ps gs
       (fst (create_connection_inner show_uuid lib nw g now fault bus env tag (Some sid) None None None
               (Some ISSUED_VIA_PLAN) True s))"
| "create_pairs show_uuid lib nw now sid _ _ s = s"

definition ensure_enabled_connections ::
  "(uuid \<Rightarrow> string) \<Rightarrow> 'u link_lib \<Rightarrow> networks \<Rightarrow> (nat \<Rightarrow> generated \<times> fault \<times> bus_fault) \<Rightarrow> datetime \<Rightarrow> uuid
   \<Rightarrow> (env, tag list) hashmap option \<Rightarrow> mem_sync \<Rightarrow> mem_sync" where
  "ensure_enabled_connections show_uuid lib nw draws now sid enabled s =
    (case enabled of
       None \<Rightarrow> s
     | Some conns_map \<Rightarrow>
         let ps = ensure_pairs sid conns_map (ms_memory s)
         in create_pairs show_uuid lib nw now sid ps (map draws [0..<length ps]) s)"

section \<open>Serving rules\<close>

datatype serving_access = Access_Full | Access_TrafficMode | Access_Expired | Access_CheckBalance int

definition serving_access_of :: "datetime \<Rightarrow> subscription \<Rightarrow> bool \<Rightarrow> serving_access" where
  "serving_access_of now sub traffic_mode_enabled =
    (if is_active now sub then Access_Full
     else if \<not> traffic_mode_enabled \<or> sub_is_deleted sub \<or> \<not> time_expired now sub then Access_Expired
     else case sub_limit_bytes sub of Some limit \<Rightarrow> Access_CheckBalance limit | None \<Rightarrow> Access_Expired)"

text \<open>A failing read of the traffic serves.\<close>

definition resolve_serving_access :: "fault \<Rightarrow> uuid \<Rightarrow> serving_access \<Rightarrow> mem_sync \<Rightarrow> serving_access" where
  "resolve_serving_access fault sid access s =
    (case access of
       Access_CheckBalance limit \<Rightarrow>
         (case total_for_subscription fault sid (ms_db s) (ms_traffic s) of
            Inr (up, down) \<Rightarrow> if wrap64 (limit - wrap64 (up + down)) > 0 then Access_TrafficMode else Access_Expired
          | Inl _ \<Rightarrow> Access_TrafficMode)
     | a \<Rightarrow> a)"

record info_request =
  ir_id :: uuid
  ir_env :: env
  ir_conn :: "uuid option"

record listed =
  li_conn :: uuid
  li_label :: string
  li_conn_label :: "string option"
  li_env :: env
  li_config :: string

definition listed_conns :: "(tag \<Rightarrow> bool) \<Rightarrow> info_request \<Rightarrow> cache \<Rightarrow> (uuid \<times> conn) list \<Rightarrow> (uuid \<times> conn) list" where
  "listed_conns served req m conns =
    filter (\<lambda>(u, c).
      \<not> (c_is_deleted c \<or> c_env c \<noteq> ir_env req)
      \<and> \<not> ((case ir_conn req of Some cid \<Rightarrow> cid \<noteq> u | None \<Rightarrow> False) \<or> u \<in> ca_share_conns m)
      \<and> main_feed_connection_visible (ca_main_feed_excluded m) u (ir_conn req = None)
      \<and> served (proto_tag (c_proto c))) conns"

definition links_of ::
  "(inbound \<Rightarrow> uuid \<Rightarrow> conn \<Rightarrow> string \<Rightarrow> string \<Rightarrow> error + string) \<Rightarrow> cache \<Rightarrow> uuid \<times> conn \<Rightarrow> listed list" where
  "links_of make_link m uc =
    (case uc of (u, c) \<Rightarrow>
       List.map_filter (\<lambda>n.
         if n_status n \<noteq> NS_Online \<or> \<not> pinned_to (ca_conn_nodes m) u (n_uuid n) then None
         else case map_of (n_inbounds n) (proto_tag (c_proto c)) of
                None \<Rightarrow> None
              | Some i \<Rightarrow>
                  (case make_link i u c (connection_host n) (n_label n) of
                     Inr link \<Rightarrow> Some \<lparr> li_conn = u, li_label = n_label n, li_conn_label = map_of (ca_conn_labels m) u,
                                       li_env = n_env n, li_config = link \<rparr>
                   | Inl _ \<Rightarrow> None))
       (case nodes_get_by_env (ca_nodes m) (c_env c) of Some ns \<Rightarrow> ns | None \<Rightarrow> []))"

definition access_for :: "datetime \<Rightarrow> fault \<Rightarrow> bool \<Rightarrow> uuid \<Rightarrow> mem_sync \<Rightarrow> serving_access option" where
  "access_for now fault traffic_mode_enabled sid s =
    map_option (\<lambda>sub. resolve_serving_access fault sid (serving_access_of now sub traffic_mode_enabled) s)
      (subs_find (ca_subscriptions (ms_memory s)) sid)"

definition list_links ::
  "(inbound \<Rightarrow> uuid \<Rightarrow> conn \<Rightarrow> string \<Rightarrow> string \<Rightarrow> error + string) \<Rightarrow> (tag \<Rightarrow> bool) \<Rightarrow> info_request \<Rightarrow> mem_sync
   \<Rightarrow> string + listed list" where
  "list_links make_link served req s =
    (let m = ms_memory s in
     case get_by_subscription_id (ca_connections m) (ir_id req) of
       None \<Rightarrow> Inl ''No connections''
     | Some conns \<Rightarrow> Inr (concat (map (links_of make_link m) (listed_conns served req m conns))))"

definition wireguard_connections_handler ::
  "(uuid \<Rightarrow> string) \<Rightarrow> 'u link_lib \<Rightarrow> datetime \<Rightarrow> fault \<Rightarrow> bool \<Rightarrow> info_request \<Rightarrow> mem_sync \<Rightarrow> string + listed list" where
  "wireguard_connections_handler show_uuid lib now fault traffic_mode_enabled req s =
    (if access_for now fault traffic_mode_enabled (ir_id req) s = Some Access_Expired
     then Inl (''Subscription '' @ show_uuid (ir_id req) @ '' is expired'')
     else list_links (create_link lib) (\<lambda>t. t = Tag_Wireguard) req s)"

definition amnezia_wireguard_connections_handler ::
  "(uuid \<Rightarrow> string) \<Rightarrow> 'u link_lib \<Rightarrow> datetime \<Rightarrow> fault \<Rightarrow> bool \<Rightarrow> info_request \<Rightarrow> mem_sync \<Rightarrow> string + listed list" where
  "amnezia_wireguard_connections_handler show_uuid lib now fault traffic_mode_enabled req s =
    (if access_for now fault traffic_mode_enabled (ir_id req) s = Some Access_Expired
     then Inl (''Subscription '' @ show_uuid (ir_id req) @ '' is expired'')
     else list_links (create_link lib) (\<lambda>t. t = Tag_AmneziaWg \<or> t = Tag_AmneziaWgMobile) req s)"

definition mtproto_connections_handler ::
  "(uuid \<Rightarrow> string) \<Rightarrow> 'u link_lib \<Rightarrow> datetime \<Rightarrow> fault \<Rightarrow> bool \<Rightarrow> info_request \<Rightarrow> mem_sync \<Rightarrow> string + listed list" where
  "mtproto_connections_handler show_uuid lib now fault traffic_mode_enabled req s =
    (case access_for now fault traffic_mode_enabled (ir_id req) s of
       Some Access_TrafficMode \<Rightarrow> Inl ''Mtproto is unavailable in traffic mode''
     | Some Access_Expired \<Rightarrow> Inl (''Subscription '' @ show_uuid (ir_id req) @ '' is expired'')
     | _ \<Rightarrow> list_links (\<lambda>i u c host label. mtproto_link lib i host label) (\<lambda>t. t = Tag_Mtproto) req s)"

text \<open>
  The replies of the three listings differ in what they show of a link: MTProto leaves out the connection and the
  environment.
\<close>

section \<open>Endpoints\<close>

record conn_create_request =
  cq_env :: env
  cq_subscription_id :: "uuid option"
  cq_proto :: tag
  cq_days :: "nat option"
  cq_label :: "string option"
  cq_node_id :: "uuid option"
  cq_include_in_main :: "bool option"

definition normalized_label :: "conn_create_request \<Rightarrow> string option" where
  "normalized_label req =
    (case cq_label req of None \<Rightarrow> None | Some l \<Rightarrow> if trim l = [] then None else Some (trim l))"

definition request_valid :: "conn_create_request \<Rightarrow> bool" where
  "request_valid req = (case normalized_label req of None \<Rightarrow> True | Some l \<Rightarrow> length l \<le> 64)"

text \<open>Whether the subscription lives on its traffic balance; a failing read of the traffic lets the request pass.\<close>

definition traffic_mode_blocks :: "datetime \<Rightarrow> fault \<Rightarrow> bool \<Rightarrow> string list \<Rightarrow> conn_create_request \<Rightarrow> mem_sync \<Rightarrow> bool" where
  "traffic_mode_blocks now fault enabled metered req s =
    (enabled \<and> \<not> is_metered (cq_proto req) metered
     \<and> (case cq_subscription_id req of
          None \<Rightarrow> False
        | Some sid \<Rightarrow>
            (case subs_find (ca_subscriptions (ms_memory s)) sid of
               None \<Rightarrow> False
             | Some sub \<Rightarrow>
                 time_expired now sub \<and> sub_limit_bytes sub \<noteq> None
                 \<and> (case total_for_subscription fault sid (ms_db s) (ms_traffic s) of
                      Inl _ \<Rightarrow> False
                    | Inr (up, down) \<Rightarrow> traffic_mode now True (wrap64 (up + down)) sub))))"

definition existing_single :: "conn_create_request \<Rightarrow> cache \<Rightarrow> (uuid \<times> conn) option" where
  "existing_single req m =
    (case cq_subscription_id req of
       None \<Rightarrow> None
     | Some sid \<Rightarrow>
         if \<not> is_single_proto (cq_proto req) then None
         else List.find (\<lambda>(u, c). u \<notin> ca_share_conns m \<and> \<not> c_is_deleted c \<and> c_env c = cq_env req
                                   \<and> proto_tag (c_proto c) = cq_proto req)
                (case get_by_subscription_id (ca_connections m) sid of Some cs \<Rightarrow> cs | None \<Rightarrow> []))"

definition create_error_reply :: "string \<Rightarrow> reply" where
  "create_error_reply msg =
    (if starts_with msg ''Duplicate connection'' then Rp_Conflict msg
     else if starts_with msg ''Env not served'' then Rp_BadRequest msg
     else if has_infix ''not found'' msg \<or> has_infix ''not active'' msg \<or> has_infix ''IP out of range'' msg
     then Rp_BadRequest msg
     else Rp_Internal msg)"

definition pin_error :: "conn_create_request \<Rightarrow> cache \<Rightarrow> string option" where
  "pin_error req m =
    (case cq_node_id req of
       None \<Rightarrow> None
     | Some u \<Rightarrow> (case validate_node_pin (nodes_get_by_id (ca_nodes m) u) (cq_env req) (cq_proto req) of
                  Inl msg \<Rightarrow> Some msg | Inr _ \<Rightarrow> None))"

definition create_connection_handler ::
  "(uuid \<Rightarrow> string) \<Rightarrow> 'u link_lib \<Rightarrow> networks \<Rightarrow> generated \<Rightarrow> datetime \<Rightarrow> fault \<Rightarrow> fault \<Rightarrow> bus_fault \<Rightarrow> bool \<Rightarrow> string list
   \<Rightarrow> conn_create_request \<Rightarrow> mem_sync \<Rightarrow> mem_sync \<times> reply" where
  "create_connection_handler show_uuid lib nw g now f_total fault bus traffic_mode_enabled metered req s =
    (if \<not> request_valid req then (s, Rp_BadRequest ''Error: label must be 1..=64 characters'')
     else if traffic_mode_blocks now f_total traffic_mode_enabled metered req s
     then (s, Rp_BadRequest (''protocol unavailable in traffic mode: '' @ tag_display (cq_proto req)))
     else case pin_error req (ms_memory s) of
       Some msg \<Rightarrow> (s, Rp_BadRequest msg)
     | None \<Rightarrow>
         (case existing_single req (ms_memory s) of
            Some (u, c) \<Rightarrow> (s, Rp_Ok (''Connection '' @ show_uuid u @ '' already exists'') (Some u) (Pl_Conn c))
          | None \<Rightarrow>
              let label = normalized_label req;
                  include_in_main = (label = None \<or> cq_include_in_main req = Some True)
              in case create_connection_inner show_uuid lib nw g now fault bus (cq_env req) (cq_proto req)
                        (cq_subscription_id req) (cq_days req) label (cq_node_id req) None include_in_main s of
                   (s', Inr (u, c)) \<Rightarrow> (s', Rp_Ok (''Connection '' @ show_uuid u @ '' has been created'') (Some u) (Pl_Conn c))
                 | (s', Inl msg) \<Rightarrow> (s', create_error_reply msg)))"

definition personal_node_to_add :: "uuid \<Rightarrow> bool \<Rightarrow> cache \<Rightarrow> uuid option" where
  "personal_node_to_add u include_in_main m =
    (if \<not> include_in_main then None
     else Option.bind (map_of (ca_conn_nodes m) u) (\<lambda>pin.
            Option.bind (nodes_get_by_id (ca_nodes m) pin) (\<lambda>n.
              if is_personal (n_env n) \<and> n_uuid n \<notin> ca_main_feed_nodes m then Some (n_uuid n) else None)))"

definition feed_allowed :: "uuid \<Rightarrow> uuid \<Rightarrow> cache \<Rightarrow> bool" where
  "feed_allowed u sid m =
    (case conns_get (ca_connections m) u of
       None \<Rightarrow> False
     | Some c \<Rightarrow>
         \<not> c_is_deleted c \<and> c_subscription_id c = Some sid
         \<and> (case map_of (ca_conn_labels m) u of Some l \<Rightarrow> trim l \<noteq> [] | None \<Rightarrow> False)
         \<and> u \<notin> ca_share_conns m)"

text \<open>The faults are those of the insertion into the private feed, of the update and of the roll back.\<close>

definition set_connection_feed_handler ::
  "fault \<Rightarrow> fault \<Rightarrow> fault \<Rightarrow> uuid \<Rightarrow> uuid \<Rightarrow> bool \<Rightarrow> mem_sync \<Rightarrow> mem_sync \<times> reply" where
  "set_connection_feed_handler f_feed f_conn f_back u sid include_in_main s =
    (if \<not> feed_allowed u sid (ms_memory s) then (s, Rp_NotFound ''Connection not found'')
     else
       let add = personal_node_to_add u include_in_main (ms_memory s);
           (s1, r1) = (case add of Some n \<Rightarrow> private_feed_insert f_feed n s | None \<Rightarrow> (s, Inr ()))
       in case r1 of
            Inl _ \<Rightarrow> (s1, Rp_Internal ''db error'')
          | Inr _ \<Rightarrow>
              (case pg_set_include_in_main f_conn u include_in_main (ms_db s1) of
                 (db, Inl _) \<Rightarrow>
                   (case add of
                      Some n \<Rightarrow> (fst (private_feed_delete f_back n (s1\<lparr>ms_db := db\<rparr>)), Rp_Internal ''db error'')
                    | None \<Rightarrow> (s1\<lparr>ms_db := db\<rparr>, Rp_Internal ''db error''))
               | (db, Inr _) \<Rightarrow>
                   (on_memory (\<lambda>m. m\<lparr>
                        ca_main_feed_nodes := (case add of Some n \<Rightarrow> insert n (ca_main_feed_nodes m) | None \<Rightarrow> ca_main_feed_nodes m),
                        ca_main_feed_excluded := (if include_in_main then ca_main_feed_excluded m - {u}
                                                  else insert u (ca_main_feed_excluded m))\<rparr>) (s1\<lparr>ms_db := db\<rparr>),
                    Rp_Ok ''Ok'' None (Pl_Feed u include_in_main))))"

text \<open>The two last replies also show the status and the error, which are left out.\<close>

definition delete_connection_handler ::
  "(uuid \<Rightarrow> string) \<Rightarrow> datetime \<Rightarrow> fault \<Rightarrow> bus_fault \<Rightarrow> uuid \<Rightarrow> mem_sync \<Rightarrow> mem_sync \<times> reply" where
  "delete_connection_handler show_uuid now fault bus u s =
    (case conns_get (ca_connections (ms_memory s)) u of
       None \<Rightarrow> (s, Rp_NotFound (''Connection '' @ show_uuid u @ '' not found''))
     | Some c \<Rightarrow>
         if c_is_deleted c then (s, Rp_NotFound (''Connection '' @ show_uuid u @ '' already is deleted''))
         else case delete_connection now fault bus u c (Some DELETE_REASON_MANUAL) s of
                (s', Inr (St_Ok v)) \<Rightarrow> (s', Rp_Ok (''Connection '' @ show_uuid v @ '' has been deleted'') (Some v) (Pl_Conn c))
              | (s', Inr (St_NotFound v)) \<Rightarrow> (s', Rp_NotFound (''Connection '' @ show_uuid v @ '' not found''))
              | (s', Inr _) \<Rightarrow> (s', Rp_BadRequest ''Unsupported operation status'')
              | (s', Inl _) \<Rightarrow> (s', Rp_Internal (''Internal error while deleting connection '' @ show_uuid u)))"

definition get_connection_handler :: "uuid \<Rightarrow> mem_sync \<Rightarrow> reply" where
  "get_connection_handler u s =
    (case conns_get (ca_connections (ms_memory s)) u of
       Some c \<Rightarrow> Rp_Ok ''Connection is found'' (Some u) (Pl_Conn c)
     | None \<Rightarrow> Rp_NotFound ''Connection is not found'')"

section \<open>What the sync sends and the count answers\<close>

lemma sync_conn_matches_node:
  "sync_conn_matches proto env True (Topic_Init v) None pins (u, c) \<longleftrightarrow>
     \<not> c_is_deleted c \<and> proto_tag (c_proto c) = proto \<and> pinned_to pins u v"
  by (auto simp: sync_conn_matches_def pinned_to_def split: option.splits)

lemma sync_set_node:
  assumes "ct_last_update req = None"
  shows "sync_set (Auth_Node v) env req m =
    filter (\<lambda>(u, c). \<not> c_is_deleted c \<and> proto_tag (c_proto c) = ct_proto req \<and> pinned_to (ca_conn_nodes m) u v)
      (ca_connections m)"
  using assms unfolding sync_set_def
  by (intro filter_cong) (auto simp: sync_conn_matches_node)

definition pinned_here :: "env \<Rightarrow> tag \<Rightarrow> uuid \<Rightarrow> cache \<Rightarrow> (uuid \<times> conn) list" where
  "pinned_here env proto v m =
    filter (\<lambda>(u, c). \<not> c_is_deleted c \<and> proto_tag (c_proto c) = proto \<and> (proto = Tag_Hysteria2 \<or> c_env c = env)
                      \<and> map_of (ca_conn_nodes m) u = Some v) (ca_connections m)"

lemma filter_split_length:
  "(\<And>x. x \<in> set xs \<Longrightarrow> P x \<longleftrightarrow> Q x \<or> R x) \<Longrightarrow> (\<And>x. x \<in> set xs \<Longrightarrow> \<not> (Q x \<and> R x))
   \<Longrightarrow> length (filter P xs) = length (filter Q xs) + length (filter R xs)"
  by (induction xs) auto

text \<open>
  C30: The list that a node syncs and the count that it compares its snapshot with. For a node token the two are the
  same set. For the service token they differ by the connections that are pinned to the asking node: the list is
  computed for the node's own topic, the count for the topic of the nil identifier.
\<close>

theorem count_against_sync:
  assumes "ct_last_update req = None" "ct_topic req = Topic_Init v" "v \<noteq> 0"
    and "\<And>u. map_of (ca_conn_nodes m) u \<noteq> Some 0"
  shows "sync_set (Auth_Node w) env req m = count_set (Auth_Node w) env (ct_proto req) m
       \<and> length (sync_set Auth_Service env req m) =
         length (count_set Auth_Service env (ct_proto req) m) + length (pinned_here env (ct_proto req) v m)"
proof
  show "sync_set (Auth_Node w) env req m = count_set (Auth_Node w) env (ct_proto req) m"
    using assms(1) by (simp add: sync_set_def count_set_def)
  show "length (sync_set Auth_Service env req m) =
         length (count_set Auth_Service env (ct_proto req) m) + length (pinned_here env (ct_proto req) v m)"
    unfolding sync_set_def count_set_def pinned_here_def
    using assms
    by (intro filter_split_length) (auto simp: sync_conn_matches_def elim!: sync_conn_visible.elims)
qed

text \<open>A Shadowsocks connection of the environment that is pinned to node 5: node 5 is sent it and does not count it.\<close>

definition demo_pinned :: cache where
  "demo_pinned = cache_new\<lparr>ca_connections := [(7, demo_conn)], ca_conn_nodes := [(7, 5)]\<rparr>"

definition demo_sync_req :: conn_type where
  "demo_sync_req = \<lparr> ct_proto = Tag_Shadowsocks, ct_last_update = None, ct_env = Env_Ru, ct_topic = Topic_Init 5 \<rparr>"

lemma demo_pinned_here: "pinned_here Env_Ru Tag_Shadowsocks 5 demo_pinned = [(7, demo_conn)]"
  by (simp add: pinned_here_def demo_pinned_def demo_conn_def conn_new_def)

theorem count_against_sync_witness:
  "length (sync_set Auth_Service Env_Ru demo_sync_req demo_pinned) =
   length (count_set Auth_Service Env_Ru Tag_Shadowsocks demo_pinned) + 1"
  using count_against_sync[of demo_sync_req 5 demo_pinned 5 Env_Ru]
  by (simp add: demo_sync_req_def demo_pinned_here) (simp add: demo_pinned_def)


section \<open>Addresses\<close>

definition addr_of :: "conn \<Rightarrow> 32 word option" where
  "addr_of c = Option.bind (conn_wg_param c) (\<lambda>p. as_ipv4 (wg_address p))"

text \<open>The addresses in use, each with its protocol: the networks of the protocols are separate.\<close>

definition wg_slots :: "(uuid \<times> conn) list \<Rightarrow> (tag \<times> 32 word) list" where
  "wg_slots m = List.map_filter (\<lambda>(u, c). map_option (Pair (proto_tag (c_proto c))) (addr_of c)) m"

lemma addr_of_key: "addr_of c = Some a \<Longrightarrow> conn_addr_key c = a"
  by (auto simp: addr_of_def conn_addr_key_def as_ipv4_def split: ip_addr.splits bind_splits)

lemma increment_gt: "increment_ipv4 a = Some b \<Longrightarrow> a < b"
  using increment_ipv4_Some[of a b] by (simp add: word_less_def)

lemma first_peer_pos: "first_peer_ip m = Some f \<Longrightarrow> 0 < f"
  by (auto simp: first_peer_ip_def split: option.splits if_splits dest!: increment_gt)
     (metis word_gt_0 word_not_simps(1))

lemma first_allocatable_pos:
  assumes "first_allocatable_ipv4 m = Some f"
  shows "0 < f"
proof -
  obtain base where base: "as_ipv4 m = Some base"
    using assms by (auto simp: first_allocatable_ipv4_def split: option.splits)
  have "0 < ip" if "checked_add32 base (RESERVED_PREFIX + 1) = Some ip" for ip
  proof -
    have "uint ip = uint base + 51"
      using checked_add32_Some[OF that] by (simp add: RESERVED_PREFIX_def)
    then have "0 < uint ip" using uint_ge_0[of base] by linarith
    then show ?thesis by (simp add: word_less_def)
  qed
  then show ?thesis
    using assms base by (auto simp: first_allocatable_ipv4_def first_peer_pos split: option.splits if_splits)
qed

lemma next_address_above:
  assumes "next_address network last_ip = Inr ip"
  shows "contains_ipv4 network ip" "(case last_ip of Some a \<Rightarrow> a < ip | None \<Rightarrow> 0 < ip)"
  using assms
  by (auto simp: next_address_def Let_def not_less
        dest: increment_gt first_peer_pos first_allocatable_pos split: option.splits if_splits)

lemma last_addr_bound:
  assumes "(u, c) \<in> set m" "proto_tag (c_proto c) = tag" "addr_of c = Some a"
  shows "a \<le> (case Option.bind (get_last_addr m tag) as_ipv4 of Some ip \<Rightarrow> ip | None \<Rightarrow> 0)"
proof (cases "get_last_addr m tag")
  case (Some l)
  then show ?thesis using get_last_addr_Some[OF Some assms(1,2)] addr_of_key[OF assms(3)] by simp
next
  case None
  let ?f = "filter (\<lambda>(_, c). proto_tag (c_proto c) = tag) m"
  have "(u, c) \<in> set ?f" using assms(1,2) by simp
  then obtain k d where mx: "max_by_key (\<lambda>(_, c). conn_addr_key c) ?f = Some (k, d)"
    by (metis empty_iff list.set(1) max_by_key_None option.exhaust surj_pair)
  then have "conn_wg_param d = None" using None by (simp add: get_last_addr_def)
  then have "conn_addr_key d = 0" by (simp add: conn_addr_key_def)
  moreover have "conn_addr_key c \<le> conn_addr_key d"
    using max_by_key_Some[OF mx] \<open>(u, c) \<in> set ?f\<close> by auto
  ultimately show ?thesis using addr_of_key[OF assms(3)] None by simp
qed

lemma make_proto_fresh:
  assumes "make_proto nw g tag m = Inr p" "wg_family tag"
  obtains network ip where "network_for nw tag = Inr network" "p = wg_proto tag (wg_param_for g ip)"
    "next_address network (Option.bind (get_last_addr (ca_connections m) tag) as_ipv4) = Inr ip"
    "contains_ipv4 network ip" "(tag, ip) \<notin> set (wg_slots (ca_connections m))"
proof -
  obtain network ip where *: "network_for nw tag = Inr network" "p = wg_proto tag (wg_param_for g ip)"
      "next_address network (Option.bind (get_last_addr (ca_connections m) tag) as_ipv4) = Inr ip"
    using assms by (auto simp: make_proto_def split: sum.splits)
  have "a < ip" if "(u, c) \<in> set (ca_connections m)" "proto_tag (c_proto c) = tag" "addr_of c = Some a" for u c a
    using last_addr_bound[OF that] next_address_above(2)[OF *(3)]
    by (auto split: option.splits intro: order.strict_trans1)
  then have "(tag, ip) \<notin> set (wg_slots (ca_connections m))"
    by (fastforce simp: wg_slots_def map_filter_def)
  then show thesis using next_address_above(1)[OF *(3)] * by (rule_tac that) auto
qed

lemma addr_of_wg_proto: "wg_family tag \<Longrightarrow> c_proto c = wg_proto tag (wg_param_for g ip) \<Longrightarrow>
   addr_of c = Some ip \<and> proto_tag (c_proto c) = tag"
  by (auto simp: wg_family_def wg_proto_def wg_param_for_def addr_of_def conn_wg_param_def get_wireguard_def
        get_amneziawg_def as_ipv4_def)

lemma addr_of_not_wg: "\<not> wg_family tag \<Longrightarrow> make_proto nw g tag m = Inr p \<Longrightarrow> c_proto c = p \<Longrightarrow> addr_of c = None"
  by (cases p) (auto simp: make_proto_def addr_of_def conn_wg_param_def get_wireguard_def get_amneziawg_def
      split: if_splits)

lemma prepared_slot:
  assumes "prepare_connection show_uuid nw g now env tag sid days m = Inr c"
  shows "case addr_of c of None \<Rightarrow> True | Some a \<Rightarrow> (proto_tag (c_proto c), a) \<notin> set (wg_slots (ca_connections m))"
proof -
  obtain p where p: "make_proto nw g tag m = Inr p" "c_proto c = p"
    using assms by (auto simp: prepare_connection_def conn_new_def split: sum.splits)
  show ?thesis
  proof (cases "wg_family tag")
    case True
    obtain network ip where "p = wg_proto tag (wg_param_for g ip)" "(tag, ip) \<notin> set (wg_slots (ca_connections m))"
      using make_proto_fresh[OF p(1) True] by blast
    then show ?thesis using addr_of_wg_proto[OF True] p(2) by auto
  next
    case False
    then show ?thesis using addr_of_not_wg[OF False p] by simp
  qed
qed

lemma wg_slots_append: "wg_slots (xs @ ys) = wg_slots xs @ wg_slots ys"
  by (simp add: wg_slots_def map_filter_def)

lemma publish_memory [simp]: "ms_memory (fst (publish bus topic msgs s)) = ms_memory s"
  by (simp add: publish_def split: option.splits)

lemma commit_connections:
  "ca_connections (ms_memory (fst (commit_connection show_uuid lib fault bus u c label pin via incl s)))
     \<in> {ca_connections (ms_memory s), fst (conns_add u c (ca_connections (ms_memory s)))}"
proof -
  obtain s' r where add: "add_conn lib fault u c label pin via incl s = (s', r)" by fastforce
  have "ca_connections (ms_memory s') \<in> {ca_connections (ms_memory s), fst (conns_add u c (ca_connections (ms_memory s)))}"
    using add by (auto simp: add_conn_def Let_def split: prod.splits sum.splits)
  moreover have "ms_memory (fst (commit_connection show_uuid lib fault bus u c label pin via incl s)) = ms_memory s'"
    by (simp add: commit_connection_def add split: sum.splits status.splits option.splits)
  ultimately show ?thesis by simp
qed

lemma update_new: "map_of m u = None \<Longrightarrow> AList.update u c m = m @ [(u, c)]"
  by (induction m) auto

lemma commit_slots:
  assumes "distinct (wg_slots (ca_connections (ms_memory s)))"
    and "case addr_of c of None \<Rightarrow> True
         | Some a \<Rightarrow> (proto_tag (c_proto c), a) \<notin> set (wg_slots (ca_connections (ms_memory s)))"
  shows "distinct (wg_slots (ca_connections (ms_memory
           (fst (commit_connection show_uuid lib fault bus u c label pin via incl s)))))"
proof -
  have "distinct (wg_slots (fst (conns_add u c (ca_connections (ms_memory s)))))"
    using assms
    by (auto simp: conns_add_def update_new wg_slots_append split: option.splits)
       (auto simp: wg_slots_def map_filter_def)
  then show ?thesis using commit_connections[of show_uuid lib fault bus u c label pin via incl s] assms(1) by auto
qed

lemma inner_slots:
  "distinct (wg_slots (ca_connections (ms_memory s))) \<Longrightarrow>
   distinct (wg_slots (ca_connections (ms_memory
     (fst (create_connection_inner show_uuid lib nw g now fault bus env tag sid days label pin via incl s)))))"
  by (auto simp: create_connection_inner_def split: sum.splits intro!: commit_slots dest: prepared_slot)

text \<open>The requests of the connection endpoints, served one after another.\<close>

datatype conn_request =
    Rq_Create generated datetime fault fault bus_fault conn_create_request
  | Rq_Delete datetime fault bus_fault uuid
  | Rq_Feed fault fault fault uuid uuid bool

fun serve ::
  "(uuid \<Rightarrow> string) \<Rightarrow> 'u link_lib \<Rightarrow> networks \<Rightarrow> bool \<Rightarrow> string list \<Rightarrow> conn_request \<Rightarrow> mem_sync \<Rightarrow> mem_sync" where
  "serve show_uuid lib nw enabled metered (Rq_Create g now f_total fault bus req) s =
     fst (create_connection_handler show_uuid lib nw g now f_total fault bus enabled metered req s)"
| "serve show_uuid lib nw enabled metered (Rq_Delete now fault bus u) s =
     fst (delete_connection_handler show_uuid now fault bus u s)"
| "serve show_uuid lib nw enabled metered (Rq_Feed f_feed f_conn f_back u sid incl) s =
     fst (set_connection_feed_handler f_feed f_conn f_back u sid incl s)"

definition in_network :: "networks \<Rightarrow> tag \<times> 32 word \<Rightarrow> bool" where
  "in_network nw ta = (case network_for nw (fst ta) of Inr network \<Rightarrow> contains_ipv4 network (snd ta) | Inl _ \<Rightarrow> False)"

definition slots_ok :: "networks \<Rightarrow> mem_sync \<Rightarrow> bool" where
  "slots_ok nw s \<longleftrightarrow>
     distinct (wg_slots (ca_connections (ms_memory s))) \<and> list_all (in_network nw) (wg_slots (ca_connections (ms_memory s)))"

lemma slots_ok_cong: "wg_slots (ca_connections (ms_memory t)) = wg_slots (ca_connections (ms_memory s)) \<Longrightarrow>
   slots_ok nw t = slots_ok nw s"
  by (simp add: slots_ok_def)

lemma addr_of_cong: "c_proto d = c_proto c \<Longrightarrow> addr_of d = addr_of c"
  by (cases "c_proto c") (simp_all add: addr_of_def conn_wg_param_def get_wireguard_def get_amneziawg_def)

lemma wg_slots_update_same:
  "map_of m u = Some c \<Longrightarrow> c_proto d = c_proto c \<Longrightarrow> wg_slots (AList.update u d m) = wg_slots m"
  by (induction m) (auto simp: wg_slots_def map_filter_def addr_of_cong[of d c] split: if_splits)

lemma wg_slots_mark [simp]: "wg_slots (mark_conn now b u m) = wg_slots m"
  by (auto simp: mark_conn_def set_modified_at_def set_deleted_def split: option.splits intro!: wg_slots_update_same)

lemma publish_conn_delete_memory: "publish_conn_delete bus u c s = (s', r) \<Longrightarrow> ms_memory s' = ms_memory s"
  by (auto simp: publish_conn_delete_def publish_def split: option.splits)

lemma delete_connection_slots:
  "delete_connection now fault bus u c reason s = (s', r) \<Longrightarrow>
   wg_slots (ca_connections (ms_memory s')) = wg_slots (ca_connections (ms_memory s))"
  by (auto simp: delete_connection_def  split: option.splits if_splits prod.splits sum.splits
      dest!: publish_conn_delete_memory)

lemma delete_handler_slots:
  "wg_slots (ca_connections (ms_memory (fst (delete_connection_handler show_uuid now fault bus u s))))
     = wg_slots (ca_connections (ms_memory s))"
proof (cases "conns_get (ca_connections (ms_memory s)) u")
  case (Some c)
  obtain s' r where d: "delete_connection now fault bus u c (Some DELETE_REASON_MANUAL) s = (s', r)" by fastforce
  then show ?thesis using Some delete_connection_slots[OF d]
    by (simp add: delete_connection_handler_def split: sum.splits status.splits)
qed (simp add: delete_connection_handler_def)

lemma feed_handler_slots:
  "ca_connections (ms_memory (fst (set_connection_feed_handler f_feed f_conn f_back u sid incl s)))
     = ca_connections (ms_memory s)"
  by (auto simp: set_connection_feed_handler_def private_feed_insert_def private_feed_delete_def  Let_def
      split: option.splits sum.splits prod.splits)

lemma prepared_in_network:
  assumes "prepare_connection show_uuid nw g now env tag sid days m = Inr c" "addr_of c = Some a"
  shows "in_network nw (proto_tag (c_proto c), a)"
proof -
  obtain p where p: "make_proto nw g tag m = Inr p" "c_proto c = p"
    using assms(1) by (auto simp: prepare_connection_def conn_new_def split: sum.splits)
  have wg: "wg_family tag" using addr_of_not_wg[OF _ p] assms(2) by fastforce
  obtain network ip where "network_for nw tag = Inr network" "p = wg_proto tag (wg_param_for g ip)"
      "contains_ipv4 network ip"
    using make_proto_fresh[OF p(1) wg] by blast
  then show ?thesis using addr_of_wg_proto[OF wg] p(2) assms(2) by (auto simp: in_network_def)
qed

lemma inner_in_network:
  assumes "list_all (in_network nw) (wg_slots (ca_connections (ms_memory s)))"
  shows "list_all (in_network nw) (wg_slots (ca_connections (ms_memory
     (fst (create_connection_inner show_uuid lib nw g now fault bus env tag sid days label pin via incl s)))))"
proof (cases "prepare_connection show_uuid nw g now env tag sid days (ms_memory s)")
  case (Inr c)
  have one: "list_all (in_network nw) (wg_slots [(u, c)])" for u
    using prepared_in_network[OF Inr] by (auto simp: wg_slots_def map_filter_def)
  have "list_all (in_network nw) (wg_slots (fst (conns_add u c (ca_connections (ms_memory s)))))" for u
    using assms one[of u] by (auto simp: conns_add_def update_new wg_slots_append split: option.splits)
  then show ?thesis
    using commit_connections[of show_uuid lib fault bus "gen_conn_id g" c label pin via incl s] assms Inr
    by (auto simp: create_connection_inner_def)
qed (use assms in \<open>simp add: create_connection_inner_def\<close>)

lemma create_handler_slots:
  assumes "slots_ok nw s"
  shows "slots_ok nw (fst (create_connection_handler show_uuid lib nw g now f_total fault bus enabled metered req s))"
proof -
  have "slots_ok nw (fst (create_connection_inner show_uuid lib nw g now fault bus (cq_env req) (cq_proto req)
          (cq_subscription_id req) (cq_days req) label (cq_node_id req) None incl s))" for label incl
    using assms unfolding slots_ok_def by (blast intro: inner_slots inner_in_network)
  then show ?thesis using assms
    by (auto simp: create_connection_handler_def Let_def split: option.splits prod.splits sum.splits)
       (metis fst_conv)+
qed

lemma serve_slots: "slots_ok nw s \<Longrightarrow> slots_ok nw (serve show_uuid lib nw enabled metered rq s)"
proof (cases rq)
  case (Rq_Delete now fault bus u)
  assume "slots_ok nw s"
  then show ?thesis using slots_ok_cong[OF delete_handler_slots] Rq_Delete by simp
next
  case (Rq_Feed f1 f2 f3 u sid incl)
  assume "slots_ok nw s"
  then show ?thesis using slots_ok_cong Rq_Feed by (simp add: feed_handler_slots slots_ok_def)
qed (simp add: create_handler_slots)

text \<open>
  C6: However the creations, deletions and feed changes of the api follow each other, no two connections of one
  WireGuard protocol ever have the same address, deleted ones included, and every address lies in the network
  configured for its protocol.
\<close>

theorem addresses_distinct_and_in_network:
  assumes "slots_ok nw s"
  shows "slots_ok nw (fold (serve show_uuid lib nw enabled metered) rqs s)"
  using assms by (induction rqs arbitrary: s) (simp_all add: serve_slots)

lemma add_conn_inserted:
  assumes "pg_conn_insert lib fault ((conn_row_of_conn u c)\<lparr>cr_label := label, cr_node_id := pin, cr_issued_via := via,
             cr_include_in_main := incl\<rparr>) (ms_db s) = (db, Inr v)"
    and "map_of (ca_connections (ms_memory s)) u = None"
  shows "\<exists>s1. add_conn lib fault u c label pin via incl s = (s1, Inr (St_Ok u))
       \<and> ca_connections (ms_memory s1) = ca_connections (ms_memory s) @ [(u, c)]
       \<and> ca_share_conns (ms_memory s1) = ca_share_conns (ms_memory s)
       \<and> ca_nodes (ms_memory s1) = ca_nodes (ms_memory s)"
  using assms by (simp add: add_conn_def Let_def conns_add_def update_new)

lemma commit_ok_connections:
  assumes "commit_connection show_uuid lib fault bus u c label pin via incl s = (s', Inr r)"
    and "map_of (ca_connections (ms_memory s)) u = None"
  shows "ca_connections (ms_memory s') = ca_connections (ms_memory s) @ [(u, c)] \<and> r = (u, c)
       \<and> ca_share_conns (ms_memory s') = ca_share_conns (ms_memory s)
       \<and> ca_nodes (ms_memory s') = ca_nodes (ms_memory s)"
proof -
  obtain db out where ins: "pg_conn_insert lib fault ((conn_row_of_conn u c)\<lparr>cr_label := label, cr_node_id := pin,
      cr_issued_via := via, cr_include_in_main := incl\<rparr>) (ms_db s) = (db, out)" by fastforce
  show ?thesis
  proof (cases out)
    case (Inl e)
    then have "add_conn lib fault u c label pin via incl s = (s\<lparr>ms_db := db\<rparr>, Inl (SyncErr_Database e))"
      using ins by (simp add: add_conn_def)
    then show ?thesis using assms(1) by (simp add: commit_connection_def split: if_splits)
  next
    case (Inr v)
    then obtain s1 where "add_conn lib fault u c label pin via incl s = (s1, Inr (St_Ok u))"
        and s1: "ca_connections (ms_memory s1) = ca_connections (ms_memory s) @ [(u, c)]"
        "ca_share_conns (ms_memory s1) = ca_share_conns (ms_memory s)" "ca_nodes (ms_memory s1) = ca_nodes (ms_memory s)"
      using add_conn_inserted[OF _ assms(2)] ins Inr by blast
    then have "ms_memory s' = ms_memory s1 \<and> r = (u, c)"
      using assms(1) publish_memory[of bus _ _ s1] by (auto simp: commit_connection_def split: option.splits)
    then show ?thesis using s1 by simp
  qed
qed

text \<open>
  C34: Two creations that both read the cache before either writes are given the same address. When both succeed,
  and no index of the database forbids it, two connections of one protocol share an address.
\<close>

theorem concurrent_creations_share_address:
  assumes "wg_family tag"
    and "prepare_connection show_uuid nw g now env tag sid days (ms_memory s) = Inr c"
    and "prepare_connection show_uuid nw g' now' env' tag sid' days' (ms_memory s) = Inr c'"
    and "map_of (ca_connections (ms_memory s)) (gen_conn_id g) = None"
    and "map_of (ca_connections (ms_memory s)) (gen_conn_id g') = None" "gen_conn_id g \<noteq> gen_conn_id g'"
    and "commit_connection show_uuid lib None bus (gen_conn_id g) c None None None True s = (s1, Inr r)"
    and "commit_connection show_uuid lib None bus' (gen_conn_id g') c' None None None True s1 = (s2, Inr r')"
  shows "addr_of c = addr_of c' \<and> \<not> distinct (wg_slots (ca_connections (ms_memory s2)))"
proof -
  obtain p where p: "make_proto nw g tag (ms_memory s) = Inr p" "c_proto c = p"
    using assms(2) by (auto simp: prepare_connection_def conn_new_def split: sum.splits)
  obtain p' where p': "make_proto nw g' tag (ms_memory s) = Inr p'" "c_proto c' = p'"
    using assms(3) by (auto simp: prepare_connection_def conn_new_def split: sum.splits)
  obtain network ip where a: "network_for nw tag = Inr network" "p = wg_proto tag (wg_param_for g ip)"
      "next_address network (Option.bind (get_last_addr (ca_connections (ms_memory s)) tag) as_ipv4) = Inr ip"
    using make_proto_fresh[OF p(1) assms(1)] by metis
  obtain network' ip' where b: "network_for nw tag = Inr network'" "p' = wg_proto tag (wg_param_for g' ip')"
      "next_address network' (Option.bind (get_last_addr (ca_connections (ms_memory s)) tag) as_ipv4) = Inr ip'"
    using make_proto_fresh[OF p'(1) assms(1)] by metis
  have ip: "ip' = ip" using a b by simp
  have c: "addr_of c = Some ip" "proto_tag (c_proto c) = tag" "addr_of c' = Some ip" "proto_tag (c_proto c') = tag"
    using addr_of_wg_proto[OF assms(1)] p(2) p'(2) a(2) b(2) ip by auto
  have s1: "ca_connections (ms_memory s1) = ca_connections (ms_memory s) @ [(gen_conn_id g, c)]"
    using commit_ok_connections[OF assms(7,4)] by simp
  then have "map_of (ca_connections (ms_memory s1)) (gen_conn_id g') = None"
    using assms(5,6) by (simp add: map_add_def)
  then have "ca_connections (ms_memory s2) =
      (ca_connections (ms_memory s) @ [(gen_conn_id g, c)]) @ [(gen_conn_id g', c')]"
    using commit_ok_connections[OF assms(8)] s1 by simp
  moreover have "\<not> distinct (wg_slots ((xs @ [(gen_conn_id g, c)]) @ [(gen_conn_id g', c')]))" for xs
    unfolding wg_slots_append by (simp add: wg_slots_def map_filter_def c)
  ultimately show ?thesis using c by simp
qed

section \<open>Traffic mode\<close>

lemma not_active_reply: "create_error_reply (''Subscription is not active '' @ x) = Rp_BadRequest (''Subscription is not active '' @ x)"
  by (simp add: create_error_reply_def starts_with_def)

lemma time_expired_inactive: "time_expired now sub \<Longrightarrow> \<not> is_active now sub"
  by (auto simp: time_expired_def is_active_def split: option.splits)

text \<open>
  C35: A subscription whose paid time is over cannot create a connection of any protocol, whatever its traffic
  balance: the check of the traffic mode lets the metered protocols pass, and the creation then asks for paid time.
\<close>

theorem traffic_mode_creates_nothing:
  assumes "cq_subscription_id req = Some sid" "subs_find (ca_subscriptions (ms_memory s)) sid = Some sub"
    and "time_expired now sub" "existing_single req (ms_memory s) = None"
  shows "\<exists>msg. create_connection_handler show_uuid lib nw g now f_total fault bus enabled metered req s
                = (s, Rp_BadRequest msg)"
proof -
  have "prepare_connection show_uuid nw g now (cq_env req) (cq_proto req) (cq_subscription_id req) (cq_days req) (ms_memory s)
      = Inl (''Subscription is not active '' @ show_uuid sid)"
    using assms time_expired_inactive by (simp add: prepare_connection_def subscription_check_def)
  then have "create_connection_inner show_uuid lib nw g now fault bus (cq_env req) (cq_proto req)
        (cq_subscription_id req) (cq_days req) label pin None incl s
      = (s, Inl (''Subscription is not active '' @ show_uuid sid))" for label pin incl
    by (simp add: create_connection_inner_def)
  then show ?thesis using assms(4) not_active_reply[of "show_uuid sid"]
    by (simp add: create_connection_handler_def Let_def split: option.splits)
qed

section \<open>Repeated creation\<close>

lemma make_proto_tag: "make_proto nw g tag m = Inr p \<Longrightarrow> proto_tag p = tag"
  by (auto simp: make_proto_def wg_proto_def wg_family_def split: if_splits sum.splits)

lemma prepared_fields:
  "prepare_connection show_uuid nw g now env tag sid days m = Inr c \<Longrightarrow>
   c_env c = env \<and> proto_tag (c_proto c) = tag \<and> c_subscription_id c = sid \<and> \<not> c_is_deleted c"
  by (auto simp: prepare_connection_def conn_new_def make_proto_tag split: sum.splits)

lemma existing_single_append:
  assumes "cq_subscription_id req = Some sid" "is_single_proto (cq_proto req)" "existing_single req m = None"
    and "ca_connections m' = ca_connections m @ [(u, c)]" "ca_share_conns m' = ca_share_conns m" "u \<notin> ca_share_conns m"
    and "c_env c = cq_env req \<and> proto_tag (c_proto c) = cq_proto req \<and> c_subscription_id c = Some sid \<and> \<not> c_is_deleted c"
  shows "existing_single req m' = Some (u, c)"
  using assms
  by (auto simp: existing_single_def get_by_subscription_id_def none_if_empty_def find_append split: if_splits)


section \<open>The rate limiter\<close>

text \<open>The times at which a sequence of checks was let through for one key.\<close>

fun accepted :: "uuid \<Rightarrow> (int \<times> uuid) list \<Rightarrow> rate_limiter \<Rightarrow> int list" where
  "accepted k [] l = []"
| "accepted k ((now, u) # cs) l =
     (case limiter_check now u l of (l', ok) \<Rightarrow> (if ok \<and> u = k then [now] else []) @ accepted k cs l')"

definition hits_of :: "uuid \<Rightarrow> rate_limiter \<Rightarrow> int list" where
  "hits_of k l = (case map_of (rl_hits l) k of Some ts \<Rightarrow> ts | None \<Rightarrow> [])"

definition in_window :: "int \<Rightarrow> int \<Rightarrow> int list \<Rightarrow> nat" where
  "in_window w t ts = length (filter (\<lambda>x. t - w < x \<and> x \<le> t) ts)"

lemma limiter_check_params: "limiter_check now u l = (l', ok) \<Longrightarrow> rl_limit l' = rl_limit l \<and> rl_window l' = rl_window l"
  by (auto simp: limiter_check_def Let_def split: if_splits)

lemma limiter_check_other: "limiter_check now u l = (l', ok) \<Longrightarrow> u \<noteq> k \<Longrightarrow> hits_of k l' = hits_of k l"
  by (auto simp: limiter_check_def Let_def hits_of_def update_conv split: if_splits)

lemma limiter_check_own:
  assumes "limiter_check now k l = (l', ok)"
  shows "ok \<longleftrightarrow> length (filter (\<lambda>t. now - t < rl_window l) (hits_of k l)) < rl_limit l"
    "hits_of k l' = filter (\<lambda>t. now - t < rl_window l) (hits_of k l) @ (if ok then [now] else [])"
  using assms by (auto simp: limiter_check_def Let_def hits_of_def update_conv split: if_splits)

text \<open>What the limiter remembers of a key agrees, from the last check on, with what it let through.\<close>

definition remembers :: "int \<Rightarrow> uuid \<Rightarrow> rate_limiter \<Rightarrow> int list \<Rightarrow> bool" where
  "remembers prev k l acc \<longleftrightarrow> (\<forall>t\<in>set acc. t \<le> prev)
     \<and> (\<forall>now \<ge> prev. filter (\<lambda>t. now - t < rl_window l) (hits_of k l) = filter (\<lambda>t. now - t < rl_window l) acc)"

lemma remembers_step:
  assumes "remembers prev k l acc" "prev \<le> now" "limiter_check now u l = (l', ok)"
  shows "remembers now k l' (acc @ (if ok \<and> u = k then [now] else []))"
proof (cases "u = k")
  case True
  have later: "filter (\<lambda>t. n - t < w) (filter (\<lambda>t. now - t < w) xs) = filter (\<lambda>t. n - t < w) xs" if "now \<le> n" for n w xs
    using that by (induction xs) auto
  show ?thesis
    using assms limiter_check_own(2)[OF assms(3)[unfolded True]] limiter_check_params[OF assms(3)] True later
    by (force simp: remembers_def)
next
  case False
  then show ?thesis
    using assms limiter_check_other[OF assms(3) False] limiter_check_params[OF assms(3)]
    by (auto simp: remembers_def)
qed

lemma in_window_step:
  assumes rem: "remembers prev k l acc" and le: "prev \<le> now" and chk: "limiter_check now k l = (l', True)"
    and old: "in_window (rl_window l) t acc \<le> rl_limit l"
  shows "in_window (rl_window l) t (acc @ [now]) \<le> rl_limit l"
proof (cases "t < now")
  case True
  then show ?thesis using old by (simp add: in_window_def)
next
  case False
  let ?w = "rl_window l"
  have "length (filter (\<lambda>x. now - x < ?w) acc) < rl_limit l"
    using limiter_check_own(1)[OF chk] rem le by (simp add: remembers_def)
  moreover have "length (filter (\<lambda>x. t - ?w < x \<and> x \<le> t) acc) \<le> length (filter (\<lambda>x. now - x < ?w) acc)"
    using False by (induction acc) auto
  ultimately show ?thesis by (simp add: in_window_def)
qed

lemma accepted_window:
  assumes "remembers prev k l acc" "sorted (map fst cs)" "\<forall>c\<in>set cs. prev \<le> fst c"
    and "in_window (rl_window l) t acc \<le> rl_limit l"
  shows "in_window (rl_window l) t (acc @ accepted k cs l) \<le> rl_limit l"
  using assms
proof (induction cs arbitrary: prev l acc)
  case (Cons c cs)
  obtain now u where c: "c = (now, u)" by (cases c)
  obtain l' ok where chk: "limiter_check now u l = (l', ok)" by fastforce
  let ?acc = "acc @ (if ok \<and> u = k then [now] else [])"
  have le: "prev \<le> now" using Cons.prems(3) c by auto
  have "in_window (rl_window l) t ?acc \<le> rl_limit l"
    using in_window_step[OF Cons.prems(1) le _ Cons.prems(4)] Cons.prems(4) chk by auto
  moreover have "\<forall>d\<in>set cs. now \<le> fst d" using Cons.prems(2) c by auto
  ultimately show ?case
    using Cons.IH[OF remembers_step[OF Cons.prems(1) le chk]] limiter_check_params[OF chk] Cons.prems(2) c chk by simp
qed simp

text \<open>
  C31: Whatever sequence of checks the limiter answers, with a clock that does not run backwards, at most the limit is
  let through for a key in any window of time, wherever the window begins.
\<close>

theorem limiter_sliding_window:
  assumes "rl_hits l = []" "sorted (map fst cs)"
  shows "in_window (rl_window l) t (accepted k cs l) \<le> rl_limit l"
proof (cases cs)
  case (Cons c cs')
  have "remembers (fst c) k l []" using assms(1) by (simp add: remembers_def hits_of_def)
  moreover have "\<forall>d\<in>set cs. fst c \<le> fst d" using assms(2) Cons by auto
  ultimately show ?thesis using accepted_window[of "fst c" k l "[]" cs t] assms(2) by (simp add: in_window_def)
qed (simp add: in_window_def)

theorem limiter_sliding_window_witness:
  "in_window 60 100 (accepted 4 [(50, 4), (60, 4), (70, 9), (80, 4), (111, 4)] \<lparr> rl_limit = 2, rl_window = 60, rl_hits = [] \<rparr>) \<le> 2
   \<and> accepted 4 [(50, 4), (60, 4), (70, 9), (80, 4), (111, 4)] \<lparr> rl_limit = 2, rl_window = 60, rl_hits = [] \<rparr> = [50, 60, 111]"
  using limiter_sliding_window[of "\<lparr> rl_limit = 2, rl_window = 60, rl_hits = [] \<rparr>"
      "[(50, 4), (60, 4), (70, 9), (80, 4), (111, 4)]" 100 4]
  by (simp add: limiter_check_def)

section \<open>Instances\<close>

text \<open>A node of the personal environment \<open>personal1\<close>, and a live Shadowsocks connection of the shared environment.\<close>

definition demo_node :: node where
  "demo_node = \<lparr> n_uuid = 5, n_env = Env_Custom ''personal1'', n_hostname = ''h'', n_address = 1, n_status = NS_Online,
     n_label = ''l'', n_interface = ''eth0'', n_created_at = 0, n_modified_at = 0, n_inbounds = [], n_cores = 1,
     n_max_bandwidth_bps = 1, n_country = ''nl'', n_type = NT_Node, n_cluster = None, n_ips = None, n_pool = None,
     n_pool_translation = None, n_weights = [] \<rparr>"

definition demo_leak :: mem_sync where
  "demo_leak = demo_sync\<lparr>ms_memory := cache_new\<lparr>ca_connections := [(7, demo_conn)],
     ca_nodes := [(Env_Custom ''personal1'', [demo_node])]\<rparr>\<rparr>"


definition demo_networks :: networks where
  "demo_networks = \<lparr> nw_wg = \<lparr> ipm_address = IpAddr_V4 0x0A4D0000, ipm_cidr = 16 \<rparr>,
     nw_awg = \<lparr> ipm_address = IpAddr_V4 0x0A4E0000, ipm_cidr = 16 \<rparr>, nw_awg_mobile = None \<rparr>"

definition demo_generated :: "uuid \<Rightarrow> generated" where
  "demo_generated u = \<lparr> gen_conn_id = u, gen_keys = \<lparr> privkey = ''k'' \<rparr>, gen_password = ''pw'', gen_token = u, gen_secret = ''s'' \<rparr>"

definition demo_create :: "tag \<Rightarrow> conn_create_request" where
  "demo_create t = \<lparr> cq_env = Env_Ru, cq_subscription_id = Some 1, cq_proto = t, cq_days = None, cq_label = None,
     cq_node_id = None, cq_include_in_main = None \<rparr>"

theorem addresses_distinct_and_in_network_witness:
  "slots_ok demo_networks demo_sync
   \<and> slots_ok demo_networks (fold (serve (\<lambda>_. ''u'') demo_lib demo_networks True [])
       [Rq_Create (demo_generated 7) 10 None None None (demo_create Tag_Wireguard), Rq_Delete 11 None None 7,
        Rq_Create (demo_generated 8) 12 None None None (demo_create Tag_Wireguard)] demo_sync)"
proof -
  have "slots_ok demo_networks demo_sync"
    by (simp add: slots_ok_def demo_sync_def cache_new_def wg_slots_def map_filter_def)
  then show ?thesis using addresses_distinct_and_in_network by blast
qed

definition demo_wg :: "uuid \<Rightarrow> conn" where
  "demo_wg u = conn_new 10 Env_Ru (Some 1) (wg_proto Tag_Wireguard (wg_param_for (demo_generated u) (0x0A4D0000 + 51))) None"

lemma demo_first_address: "next_address (nw_wg demo_networks) None = Inr (0x0A4D0000 + 51)"
  by code_simp

lemma demo_sub_active: "now < 50 \<Longrightarrow> subscription_check f now (Some 1) (ms_memory demo_sync) = Inr ()"
  by (simp add: subscription_check_def demo_sync_def cache_new_def subs_find_def is_active_def demo_row_def
      sub_insert_cols_def subscription_new_def subscription_from_row_def)

lemma demo_prepare:
  "prepare_connection f demo_networks (demo_generated u) 10 Env_Ru Tag_Wireguard (Some 1) None (ms_memory demo_sync)
     = Inr (demo_wg u)"
  using demo_first_address
  by (simp add: prepare_connection_def demo_sub_active validate_env_served_def make_proto_def wg_family_def
      network_for_def demo_wg_def)
     (simp add: demo_sync_def cache_new_def get_last_addr_def)

lemma demo_insert:
  assumes "\<forall>q\<in>set (pg_conns db). pc_id q \<noteq> u" "pg_subs db = pg_subs demo_pg"
  shows "\<exists>p. pg_conn_insert demo_lib None ((conn_row_of_conn u (demo_wg u))\<lparr>cr_label := None, cr_node_id := None,
      cr_issued_via := None, cr_include_in_main := True\<rparr>) db = (db\<lparr>pg_conns := pg_conns db @ [p]\<rparr>, Inr ()) \<and> pc_id p = u"
proof -
  let ?p = "pg_conn_of_row demo_lib ((conn_row_of_conn u (demo_wg u))\<lparr>cr_label := None, cr_node_id := None,
      cr_issued_via := None, cr_include_in_main := True\<rparr>)"
  have p: "pc_id ?p = u" "pc_proto ?p = Tag_Wireguard" "pc_issued_via ?p = None" "pc_token ?p = None"
      "pc_subscription_id ?p = Some 1"
    by (simp_all add: pg_conn_of_row_def conn_row_of_conn_def demo_wg_def conn_new_def wg_proto_def get_token_def)
  have "\<not> list_ex (\<lambda>q. pc_id q = u \<or> conns_clash ?p q) (pg_conns db)"
    using assms(1) p by (auto simp: list_ex_iff conns_clash_def in_single_proto_idx_def in_plan_idx_def wg_family_def)
  moreover have "Some 1 \<in> (\<lambda>r. Some (row_id r)) ` set (pg_subs db)"
    using assms(2) by (simp add: demo_pg_def demo_row_def sub_insert_cols_def subscription_new_def)
  ultimately have "pg_conn_insert demo_lib None ((conn_row_of_conn u (demo_wg u))\<lparr>cr_label := None, cr_node_id := None,
      cr_issued_via := None, cr_include_in_main := True\<rparr>) db = (db\<lparr>pg_conns := pg_conns db @ [?p]\<rparr>, Inr ())"
    using p by (simp add: pg_conn_insert_def on_db_def Let_def)
  then show ?thesis using p(1) by blast
qed

lemma demo_commit:
  assumes "\<forall>q\<in>set (pg_conns (ms_db s)). pc_id q \<noteq> u" "pg_subs (ms_db s) = pg_subs demo_pg"
    and "map_of (ca_connections (ms_memory s)) u = None"
  shows "\<exists>s'. commit_connection (\<lambda>_. ''u'') demo_lib None None u (demo_wg u) None None None True s = (s', Inr (u, demo_wg u))
           \<and> map pc_id (pg_conns (ms_db s')) = map pc_id (pg_conns (ms_db s)) @ [u] \<and> pg_subs (ms_db s') = pg_subs demo_pg
           \<and> ca_connections (ms_memory s') = ca_connections (ms_memory s) @ [(u, demo_wg u)]"
proof -
  obtain p where "pg_conn_insert demo_lib None ((conn_row_of_conn u (demo_wg u))\<lparr>cr_label := None, cr_node_id := None,
      cr_issued_via := None, cr_include_in_main := True\<rparr>) (ms_db s)
      = ((ms_db s)\<lparr>pg_conns := pg_conns (ms_db s) @ [p]\<rparr>, Inr ())" "pc_id p = u"
    using demo_insert[OF assms(1,2)] by blast
  moreover have "create_topic None (demo_wg u) = Some (Topic_Updates Env_Ru)"
    by (simp add: create_topic_def demo_wg_def conn_new_def wg_proto_def get_token_def)
  ultimately show ?thesis using assms(2,3)
    by (simp add: commit_connection_def add_conn_def Let_def conns_add_def update_new publish_def)
qed

theorem concurrent_creations_share_address_witness:
  "\<exists>s1 s2. commit_connection (\<lambda>_. ''u'') demo_lib None None 7 (demo_wg 7) None None None True demo_sync = (s1, Inr (7, demo_wg 7))
     \<and> commit_connection (\<lambda>_. ''u'') demo_lib None None 8 (demo_wg 8) None None None True s1 = (s2, Inr (8, demo_wg 8))
     \<and> addr_of (demo_wg 7) = addr_of (demo_wg 8) \<and> \<not> distinct (wg_slots (ca_connections (ms_memory s2)))"
proof -
  have e: "pg_conns (ms_db demo_sync) = []" "pg_subs (ms_db demo_sync) = pg_subs demo_pg" "ca_connections (ms_memory demo_sync) = []"
    by (simp_all add: demo_sync_def demo_pg_def cache_new_def)
  obtain s1 where s1: "commit_connection (\<lambda>_. ''u'') demo_lib None None 7 (demo_wg 7) None None None True demo_sync
        = (s1, Inr (7, demo_wg 7))"
      "map pc_id (pg_conns (ms_db s1)) = [7]" "pg_subs (ms_db s1) = pg_subs demo_pg"
      "ca_connections (ms_memory s1) = [(7, demo_wg 7)]"
    using demo_commit[of demo_sync 7] e by auto
  then have "\<forall>q\<in>set (pg_conns (ms_db s1)). pc_id q \<noteq> 8" by (auto simp: map_eq_Cons_conv)
  then obtain s2 where s2: "commit_connection (\<lambda>_. ''u'') demo_lib None None 8 (demo_wg 8) None None None True s1
        = (s2, Inr (8, demo_wg 8))"
    using demo_commit[of s1 8] s1 by auto
  have "addr_of (demo_wg 7) = addr_of (demo_wg 8) \<and> \<not> distinct (wg_slots (ca_connections (ms_memory s2)))"
    using concurrent_creations_share_address[OF _ demo_prepare[of "\<lambda>_. ''u''" 7] demo_prepare[of "\<lambda>_. ''u''" 8],
        of demo_lib None s1 _ None s2] s1 s2 e
    by (simp add: wg_family_def demo_generated_def)
  then show ?thesis using s1 s2 by blast
qed

text \<open>The subscription ends at 50: at 60 the creation of a metered protocol is refused.\<close>

definition demo_expiring :: mem_sync where
  "demo_expiring = demo_sync\<lparr>ms_memory := cache_new\<lparr>ca_subscriptions :=
     [(1, (subscription_from_row demo_row)\<lparr>sub_expires_at := Some 50, sub_limit_bytes := Some 1000\<rparr>)]\<rparr>\<rparr>"

theorem traffic_mode_creates_nothing_witness:
  "\<exists>msg. create_connection_handler (\<lambda>_. ''u'') demo_lib demo_networks (demo_generated 7) 60 None None None True
            [''wireguard''] (demo_create Tag_Wireguard) demo_expiring = (demo_expiring, Rp_BadRequest msg)"
proof (rule traffic_mode_creates_nothing)
  show "cq_subscription_id (demo_create Tag_Wireguard) = Some 1" by (simp add: demo_create_def)
  show "subs_find (ca_subscriptions (ms_memory demo_expiring)) 1 =
      Some ((subscription_from_row demo_row)\<lparr>sub_expires_at := Some 50, sub_limit_bytes := Some 1000\<rparr>)"
    by (simp add: demo_expiring_def subs_find_def)
  show "time_expired 60 ((subscription_from_row demo_row)\<lparr>sub_expires_at := Some 50, sub_limit_bytes := Some 1000\<rparr>)"
    by (simp add: time_expired_def)
  show "existing_single (demo_create Tag_Wireguard) (ms_memory demo_expiring) = None"
    by (simp add: existing_single_def demo_create_def is_single_proto_def)
qed
definition demo_ss :: "mem_sync \<times> reply" where
  "demo_ss = create_connection_handler (\<lambda>_. ''u'') demo_lib demo_networks (demo_generated 7) 10 None None None False []
     (demo_create Tag_Shadowsocks) demo_sync"

lemma demo_ss_existing: "existing_single (demo_create Tag_Shadowsocks) (ms_memory demo_sync) = None"
  by (simp add: existing_single_def demo_create_def demo_sync_def cache_new_def get_by_subscription_id_def none_if_empty_def)

lemma demo_ss_prepare:
  "prepare_connection (\<lambda>_. ''u'') demo_networks (demo_generated 7) 10 Env_Ru Tag_Shadowsocks (Some 1) None (ms_memory demo_sync)
     = Inr (conn_new 10 Env_Ru (Some 1) (Proto_Shadowsocks ''pw'') None)"
  by (simp add: prepare_connection_def demo_sub_active validate_env_served_def make_proto_def wg_family_def demo_generated_def)

lemma demo_ss_reply:
  "snd demo_ss = Rp_Ok ''Connection u has been created'' (Some 7)
     (Pl_Conn (conn_new 10 Env_Ru (Some 1) (Proto_Shadowsocks ''pw'') None))"
  using demo_ss_existing demo_ss_prepare
  by (simp add: demo_ss_def create_connection_handler_def request_valid_def normalized_label_def traffic_mode_blocks_def
      pin_error_def create_connection_inner_def Let_def demo_create_def)
     (simp add: commit_connection_def add_conn_def pg_conn_insert_def on_db_def Let_def conns_add_def demo_sync_def demo_pg_def
      cache_new_def demo_generated_def pg_conn_of_row_def conn_row_of_conn_def conn_new_def demo_row_def sub_insert_cols_def
      subscription_new_def create_topic_def get_token_def)


end
