(* ===== verification/Spec2Isabelle.thy ===== *)
theory Spec2Isabelle
  imports Key_Code Agents Alerts Mesh_Store Traffic_Split Conn_Handlers
begin

text \<open>
  Verification of fcore, the control plane of a VPN service: an api process with an
  in-memory cache written through to a database, node and auth agents that follow it over
  a message bus, and a mesh messenger relay.

  Theories and what they model are listed here as the development grows.
\<close>

end
